(* ===== verification/Lp_Base.thy ===== *)
theory Lp_Base
  imports Main "HOL-Library.Word" "HOL-Library.AList"
begin

text \<open>
  Prelude of the lowping development.  It fixes the vocabulary all components share:

  \<^item> machine integers (\<open>u8\<close> .. \<open>u64\<close>, and \<open>i64\<close> as a 64-bit word read with \<open>sint\<close>), byte
    strings, and the result type \<open>rs\<close> with one constructor per way a Rust function ends:
    \<open>Ok\<close>, \<open>Err\<close>, or \<open>Panic\<close> (a failed index, slice, \<open>unwrap\<close> or \<open>expect\<close>);
  \<^item> the standard-library operations the source uses: slicing, indexing and
    \<open>copy_from_slice\<close> with their panics, \<open>to_be_bytes\<close>/\<open>from_be_bytes\<close>,
    \<open>HashMap\<close> as an association list with distinct keys, and \<open>Instant\<close> arithmetic;
  \<^item> the interfaces of the library as locales: a byte codec read from the front of a
    buffer (\<open>prefix_codec\<close>), one that fixes the whole buffer (\<open>exact_codec\<close>), and a table
    whose idle entries are reaped (\<open>idle_table\<close>).
\<close>

unbundle bit_operations_syntax

named_theorems rs_simps \<open>unfolding of the result monad and of the checked slice operations\<close>

type_synonym u8 = "8 word"
type_synonym u16 = "16 word"
type_synonym u32 = "32 word"
type_synonym u64 = "64 word"
type_synonym i64 = "64 word"
type_synonym u128 = "128 word"
type_synonym bytes = "u8 list"

section \<open>Results and panics\<close>

datatype (rs_val: 'a, rs_err: 'e) rs = Ok 'a | Err 'e | Panic

fun rs_bind :: "('a, 'e) rs \<Rightarrow> ('a \<Rightarrow> ('b, 'e) rs) \<Rightarrow> ('b, 'e) rs" where
  "rs_bind (Ok x) f = f x"
| "rs_bind (Err e) f = Err e"
| "rs_bind Panic f = Panic"

fun rs_map_err :: "('e \<Rightarrow> 'f) \<Rightarrow> ('a, 'e) rs \<Rightarrow> ('a, 'f) rs" where
  "rs_map_err g (Ok x) = Ok x"
| "rs_map_err g (Err e) = Err (g e)"
| "rs_map_err g Panic = Panic"

definition ok_or :: "'e \<Rightarrow> 'a option \<Rightarrow> ('a, 'e) rs" where
  "ok_or e x = (case x of Some y \<Rightarrow> Ok y | None \<Rightarrow> Err e)"

definition expect :: "'a option \<Rightarrow> ('a, 'e) rs" where
  "expect x = (case x of Some y \<Rightarrow> Ok y | None \<Rightarrow> Panic)"

lemma rs_bind_Ok_iff [simp]: "rs_bind m f = Ok y \<longleftrightarrow> (\<exists>x. m = Ok x \<and> f x = Ok y)"
  by (cases m) auto

lemma rs_bind_Panic_iff [simp]: "rs_bind m f = Panic \<longleftrightarrow> m = Panic \<or> (\<exists>x. m = Ok x \<and> f x = Panic)"
  by (cases m) auto

lemma rs_bind_Err_iff [simp]: "rs_bind m f = Err e \<longleftrightarrow> m = Err e \<or> (\<exists>x. m = Ok x \<and> f x = Err e)"
  by (cases m) auto

lemma rs_map_err_Ok_iff [simp]: "rs_map_err g m = Ok y \<longleftrightarrow> m = Ok y"
  by (cases m) auto

lemma rs_map_err_Panic_iff [simp]: "rs_map_err g m = Panic \<longleftrightarrow> m = Panic"
  by (cases m) auto

lemma rs_map_err_Err_iff [simp]: "rs_map_err g m = Err e \<longleftrightarrow> (\<exists>e'. m = Err e' \<and> e = g e')"
  by (cases m) auto

lemma ok_or_iffs [simp]:
  "ok_or e x = Ok y \<longleftrightarrow> x = Some y"
  "ok_or e x = Err e' \<longleftrightarrow> x = None \<and> e' = e"
  "ok_or e x \<noteq> Panic"
  by (auto simp: ok_or_def split: option.splits)

lemma ok_or_simps [simp]: "ok_or e (Some y) = Ok y" "ok_or e None = Err e"
  by (simp_all add: ok_or_def)

lemma expect_simps [simp]: "expect (Some y) = Ok y" "expect None = Panic"
  by (simp_all add: expect_def)

lemma expect_iffs [simp]:
  "expect x = Ok y \<longleftrightarrow> x = Some y"
  "expect x = Err e \<longleftrightarrow> False"
  "expect x = Panic \<longleftrightarrow> x = None"
  by (auto simp: expect_def split: option.splits)

section \<open>Slices\<close>

text \<open>\<open>&xs[i..j]\<close>, \<open>xs[i]\<close> and \<open>xs[i..j].copy_from_slice(ys)\<close>, with their panics.\<close>

definition slice :: "'a list \<Rightarrow> nat \<Rightarrow> nat \<Rightarrow> ('a list, 'e) rs" where
  "slice xs i j = (if i \<le> j \<and> j \<le> length xs then Ok (take (j - i) (drop i xs)) else Panic)"

definition index :: "'a list \<Rightarrow> nat \<Rightarrow> ('a, 'e) rs" where
  "index xs i = (if i < length xs then Ok (xs ! i) else Panic)"

definition copy_into :: "'a list \<Rightarrow> nat \<Rightarrow> nat \<Rightarrow> 'a list \<Rightarrow> ('a list, 'e) rs" where
  "copy_into xs i j ys =
     (if i \<le> j \<and> j \<le> length xs \<and> length ys = j - i then Ok (take i xs @ ys @ drop j xs) else Panic)"

lemma slice_Ok [rs_simps]: "i \<le> j \<Longrightarrow> j \<le> length xs \<Longrightarrow> slice xs i j = Ok (take (j - i) (drop i xs))"
  by (simp add: slice_def)

lemma index_Ok [rs_simps]: "i < length xs \<Longrightarrow> index xs i = Ok (xs ! i)"
  by (simp add: index_def)

lemma copy_into_Ok [rs_simps]:
  "i \<le> j \<Longrightarrow> j \<le> length xs \<Longrightarrow> length ys = j - i \<Longrightarrow> copy_into xs i j ys = Ok (take i xs @ ys @ drop j xs)"
  by (simp add: copy_into_def)

lemma slice_never_Err [simp]: "slice xs i j \<noteq> Err e"
  by (simp add: slice_def)

lemma index_never_Err [simp]: "index xs i \<noteq> Err e"
  by (simp add: index_def)

lemma copy_into_never_Err [simp]: "copy_into xs i j ys \<noteq> Err e"
  by (simp add: copy_into_def)

lemma drop_split: "drop i xs = take n (drop i xs) @ drop (i + n) xs"
  by (metis append_take_drop_id drop_drop add.commute)

lemma map_update_same: "f x = f (xs ! i) \<Longrightarrow> map f (xs[i := x]) = map f xs"
  by (cases "i < length xs") (simp_all add: map_update nth_equalityI nth_list_update list_update_beyond)

lemma in_set_drop_iff: "x \<in> set (drop n xs) \<longleftrightarrow> (\<exists>i. n \<le> i \<and> i < length xs \<and> x = xs ! i)"
proof
  assume "x \<in> set (drop n xs)"
  then obtain i where "i < length xs - n" "x = drop n xs ! i"
    by (auto simp: in_set_conv_nth)
  then show "\<exists>i. n \<le> i \<and> i < length xs \<and> x = xs ! i"
    by (intro exI [of _ "n + i"]) auto
next
  assume "\<exists>i. n \<le> i \<and> i < length xs \<and> x = xs ! i"
  then obtain i where "n \<le> i" "i < length xs" "x = xs ! i" by blast
  then show "x \<in> set (drop n xs)"
    by (auto simp: in_set_conv_nth intro!: exI [of _ "i - n"])
qed

definition bytes_of_string :: "string \<Rightarrow> bytes" where
  "bytes_of_string s = map (\<lambda>c. of_nat (of_char c)) s"

section \<open>Big-endian integers\<close>

definition to_be_bytes :: "'a::len word \<Rightarrow> bytes" where
  "to_be_bytes w = map (\<lambda>i. ucast (drop_bit (8 * i) w)) (rev [0..<LENGTH('a) div 8])"

definition from_be_bytes :: "bytes \<Rightarrow> 'a::len word" where
  "from_be_bytes bs = foldl (\<lambda>a b. a * 256 + ucast b) 0 bs"

text \<open>Both are base-256 numerals, most significant digit first; the proofs go through \<open>nat\<close>.\<close>

fun be_of_nat :: "nat \<Rightarrow> nat \<Rightarrow> bytes" where
  "be_of_nat 0 x = []"
| "be_of_nat (Suc n) x = be_of_nat n (x div 256) @ [of_nat x]"

definition nat_of_be :: "bytes \<Rightarrow> nat" where
  "nat_of_be bs = foldl (\<lambda>a b. a * 256 + unat b) 0 bs"

lemma be_of_nat_eq: "be_of_nat n x = map (\<lambda>i. of_nat (x div 256 ^ i)) (rev [0..<n])"
proof (induction n arbitrary: x)
  case (Suc n)
  have "rev [0..<Suc n] = map Suc (rev [0..<n]) @ [0]"
    by (simp add: upt_conv_Cons map_Suc_upt [symmetric] rev_map del: upt_Suc)
  then show ?case
    by (simp add: Suc div_mult2_eq)
qed simp

lemma to_be_bytes_eq: "to_be_bytes w = be_of_nat (LENGTH('a) div 8) (unat (w :: 'a::len word))"
proof -
  have "(ucast (drop_bit (8 * i) w) :: u8) = of_nat (unat w div 256 ^ i)" for i
  proof -
    have "(ucast (drop_bit (8 * i) w) :: u8) = of_nat (unat (drop_bit (8 * i) w))"
      by simp
    also have "unat (drop_bit (8 * i) w) = unat w div 2 ^ (8 * i)"
      by (simp only: unat_drop_bit_eq) (rule drop_bit_eq_div)
    finally show ?thesis by (simp add: power_mult)
  qed
  then show ?thesis
    by (simp add: to_be_bytes_def be_of_nat_eq)
qed

lemma from_be_bytes_eq: "from_be_bytes bs = (of_nat (nat_of_be bs) :: 'a::len word)"
proof -
  have "foldl (\<lambda>a b. a * 256 + ucast b) (of_nat n) bs
      = (of_nat (foldl (\<lambda>a b. a * 256 + unat b) n bs) :: 'a word)" for n
  proof (induction bs arbitrary: n)
    case (Cons b bs)
    have "of_nat n * 256 + ucast b = (of_nat (n * 256 + unat b) :: 'a word)"
      by simp
    then show ?case
      using Cons [of "n * 256 + unat b"] by simp
  qed simp
  from this [of 0] show ?thesis
    by (simp add: from_be_bytes_def nat_of_be_def)
qed

lemma length_be_of_nat [simp]: "length (be_of_nat n x) = n"
  by (induction n arbitrary: x) auto

lemma length_to_be_bytes [simp]: "length (to_be_bytes (w :: 'a::len word)) = LENGTH('a) div 8"
  by (simp add: to_be_bytes_eq)

lemma nat_of_be_snoc [simp]: "nat_of_be (bs @ [b]) = nat_of_be bs * 256 + unat b"
  by (simp add: nat_of_be_def)

lemma nat_of_be_Nil [simp]: "nat_of_be [] = 0"
  by (simp add: nat_of_be_def)

lemma unat_u8_lt: "unat (b :: u8) < 256"
  using unsigned_less [of b] by simp

lemma unat_u32_lt: "unat (a :: u32) < 4294967296"
  using unsigned_less [of a] by simp

lemma nat_of_be_be_of_nat [simp]: "nat_of_be (be_of_nat n x) = x mod 256 ^ n"
proof (induction n arbitrary: x)
  case (Suc n)
  have "unat (of_nat x :: u8) = x mod 256"
    by (simp add: unat_of_nat)
  then show ?case
    using Suc by (simp add: mod_mult2_eq mult.commute)
qed simp

lemma nat_of_be_lt: "nat_of_be bs < 256 ^ length bs"
proof (induction bs rule: rev_induct)
  case (snoc b bs)
  have "nat_of_be bs * 256 + unat b < (nat_of_be bs + 1) * 256"
    using unat_u8_lt [of b] by simp
  also have "\<dots> \<le> 256 ^ length bs * 256"
    using snoc by (intro mult_right_mono) auto
  finally show ?case by (simp add: mult.commute)
qed simp

lemma be_of_nat_nat_of_be: "be_of_nat (length bs) (nat_of_be bs) = bs"
proof (induction bs rule: rev_induct)
  case (snoc b bs)
  have "(nat_of_be bs * 256 + unat b) div 256 = nat_of_be bs"
    using unat_u8_lt [of b] by simp
  moreover have "(of_nat (nat_of_be bs * 256 + unat b) :: u8) = b"
    by (rule word_unat_eq_iff [THEN iffD2])
      (use unat_u8_lt [of b] in \<open>simp only: unat_of_nat, simp add: take_bit_eq_mod\<close>)
  ultimately show ?case using snoc by simp
qed simp

text \<open>The two conversions are inverse whenever the width is a whole number of bytes.\<close>

lemma from_be_to_be:
  assumes "LENGTH('a::len) = 8 * n"
  shows "from_be_bytes (to_be_bytes w) = (w :: 'a word)"
proof -
  have "(256 :: nat) ^ n = 2 ^ LENGTH('a)"
    using assms by (simp add: power_mult)
  then have "unat w mod 256 ^ n = unat w"
    using unsigned_less [of w] by simp
  then show ?thesis
    using assms by (simp add: from_be_bytes_eq to_be_bytes_eq)
qed

lemma to_be_from_be:
  assumes "LENGTH('a::len) = 8 * n" and "length bs = n"
  shows "to_be_bytes (from_be_bytes bs :: 'a word) = bs"
proof -
  have "(256 :: nat) ^ n = 2 ^ LENGTH('a)"
    using assms by (simp add: power_mult)
  then have "unat (of_nat (nat_of_be bs) :: 'a word) = nat_of_be bs"
    using nat_of_be_lt [of bs] assms by (simp add: unat_of_nat)
  then show ?thesis
    using assms be_of_nat_nat_of_be [of bs] by (simp add: from_be_bytes_eq to_be_bytes_eq)
qed

lemma from_be_to_be_widths [simp]:
  "from_be_bytes (to_be_bytes (a :: u16)) = a"
  "from_be_bytes (to_be_bytes (b :: u32)) = b"
  "from_be_bytes (to_be_bytes (c :: u64)) = c"
  "from_be_bytes (to_be_bytes (d :: u128)) = d"
  by (rule from_be_to_be [of 2] from_be_to_be [of 4] from_be_to_be [of 8] from_be_to_be [of 16];
      simp)+

lemma to_be_from_be_widths [simp]:
  "length bs = 2 \<Longrightarrow> to_be_bytes (from_be_bytes bs :: u16) = bs"
  "length bs = 4 \<Longrightarrow> to_be_bytes (from_be_bytes bs :: u32) = bs"
  "length bs = 8 \<Longrightarrow> to_be_bytes (from_be_bytes bs :: u64) = bs"
  "length bs = 16 \<Longrightarrow> to_be_bytes (from_be_bytes bs :: u128) = bs"
  by (rule to_be_from_be [of 2] to_be_from_be [of 4] to_be_from_be [of 8] to_be_from_be [of 16];
      simp)+

lemma to_be_bytes_inj [simp]:
  "to_be_bytes (a :: u16) = to_be_bytes a' \<longleftrightarrow> a = a'"
  "to_be_bytes (b :: u32) = to_be_bytes b' \<longleftrightarrow> b = b'"
  "to_be_bytes (c :: u64) = to_be_bytes c' \<longleftrightarrow> c = c'"
  "to_be_bytes (d :: u128) = to_be_bytes d' \<longleftrightarrow> d = d'"
  by (metis from_be_to_be_widths)+

section \<open>HashMap\<close>

text \<open>
  \<open>std::collections::HashMap\<close> as an association list with distinct keys (\<open>hm_wf\<close>).  The
  order of the list stands for the unspecified iteration order; no result below depends on it.
\<close>

type_synonym ('k, 'v) hmap = "('k \<times> 'v) list"

definition hm_wf :: "('k, 'v) hmap \<Rightarrow> bool" where
  "hm_wf m \<longleftrightarrow> distinct (map fst m)"

abbreviation hm_empty :: "('k, 'v) hmap" where "hm_empty \<equiv> []"
abbreviation hm_get :: "('k, 'v) hmap \<Rightarrow> 'k \<Rightarrow> 'v option" where "hm_get \<equiv> map_of"
abbreviation hm_insert :: "'k \<Rightarrow> 'v \<Rightarrow> ('k, 'v) hmap \<Rightarrow> ('k, 'v) hmap" where "hm_insert \<equiv> AList.update"
abbreviation hm_len :: "('k, 'v) hmap \<Rightarrow> nat" where "hm_len \<equiv> length"

definition hm_remove_all :: "'k list \<Rightarrow> ('k, 'v) hmap \<Rightarrow> ('k, 'v) hmap" where
  "hm_remove_all ks m = fold AList.delete ks m"

definition hm_retain :: "('k \<Rightarrow> 'v \<Rightarrow> bool) \<Rightarrow> ('k, 'v) hmap \<Rightarrow> ('k, 'v) hmap" where
  "hm_retain P m = filter (\<lambda>(k, v). P k v) m"

lemma hm_wf_empty [simp]: "hm_wf []"
  by (simp add: hm_wf_def)

lemma hm_wf_insert [simp]: "hm_wf m \<Longrightarrow> hm_wf (hm_insert k v m)"
  by (simp add: hm_wf_def distinct_update)

lemma hm_wf_retain [simp]: "hm_wf m \<Longrightarrow> hm_wf (hm_retain P m)"
  unfolding hm_wf_def hm_retain_def by (induction m) auto

lemma hm_get_insert [simp]: "hm_get (hm_insert k v m) = (hm_get m)(k \<mapsto> v)"
  by (simp add: update_conv')

lemma hm_get_retain:
  "hm_wf m \<Longrightarrow> hm_get (hm_retain P m) k =
     (case hm_get m k of None \<Rightarrow> None | Some v \<Rightarrow> if P k v then Some v else None)"
proof (induction m)
  case (Cons x m)
  moreover have "fst x \<notin> fst ` set m \<Longrightarrow> map_of m (fst x) = None"
    by (simp add: map_of_eq_None_iff)
  ultimately show ?case
    by (cases x) (auto simp: hm_wf_def hm_retain_def split: option.splits)
qed (simp add: hm_retain_def)

lemma hm_len_retain: "hm_len (hm_retain P m) \<le> hm_len m"
  by (simp add: hm_retain_def)

lemma hm_len_insert:
  "hm_len (hm_insert k v m) = (if hm_get m k = None then Suc (hm_len m) else hm_len m)"
  by (induction m) auto

lemma hm_len_insert_le: "hm_len (hm_insert k v m) \<le> Suc (hm_len m)"
  by (simp add: hm_len_insert)

lemma hm_get_remove_all:
  "hm_get (hm_remove_all ks m) k = (if k \<in> set ks then None else hm_get m k)"
  by (induction ks arbitrary: m) (auto simp: hm_remove_all_def delete_conv')

lemma hm_wf_remove_all [simp]: "hm_wf m \<Longrightarrow> hm_wf (hm_remove_all ks m)"
  unfolding hm_wf_def hm_remove_all_def by (induction ks arbitrary: m) (auto simp: distinct_delete)

lemma hm_len_remove_all: "hm_len (hm_remove_all ks m) \<le> hm_len m"
  unfolding hm_remove_all_def
  by (induction ks arbitrary: m) (auto intro: order_trans [OF _ length_delete_le])

lemma hm_entry_get: "hm_wf m \<Longrightarrow> (k, v) \<in> set m \<longleftrightarrow> hm_get m k = Some v"
  by (simp add: hm_wf_def)

text \<open>
  Collecting the keys of the entries a predicate selects and then removing them, as the idle
  reapers do in two passes, is one \<open>retain\<close> with the negated predicate.
\<close>

definition hm_select :: "('k \<Rightarrow> 'v \<Rightarrow> bool) \<Rightarrow> ('k, 'v) hmap \<Rightarrow> 'k list" where
  "hm_select P m = map fst (filter (\<lambda>(k, v). P k v) m)"

lemma hm_select_iff: "hm_wf m \<Longrightarrow> k \<in> set (hm_select P m) \<longleftrightarrow> (\<exists>v. hm_get m k = Some v \<and> P k v)"
  by (force simp: hm_select_def hm_entry_get)

lemma hm_get_remove_select:
  assumes "hm_wf m"
  shows "hm_get (hm_remove_all (hm_select P m) m) k =
    (case hm_get m k of None \<Rightarrow> None | Some v \<Rightarrow> if P k v then None else Some v)"
  using assms by (auto simp: hm_get_remove_all hm_select_iff split: option.splits)

section \<open>Instants\<close>

text \<open>
  \<open>std::time::Instant\<close> in nanoseconds.  Subtracting a \<open>Duration\<close> panics when the result
  lies before the least instant the platform can represent: \<open>lo\<close> is 0 on Windows (time since
  boot) and about \<open>-2^63\<close> seconds on Unix.
\<close>

type_synonym instant = int

definition instant_sub :: "instant \<Rightarrow> instant \<Rightarrow> int \<Rightarrow> (instant, 'e) rs" where
  "instant_sub lo t d = (if t - d < lo then Panic else Ok (t - d))"

definition secs :: "u64 \<Rightarrow> int" where
  "secs n = uint n * 1000000000"

lemma secs_nonneg [simp]: "0 \<le> secs n"
  by (simp add: secs_def)

section \<open>Interfaces\<close>

text \<open>A codec whose decoder reads a value from the front of a buffer and ignores the rest.\<close>

locale prefix_codec =
  fixes enc :: "'a \<Rightarrow> bytes"
    and dec :: "bytes \<Rightarrow> ('a, 'e) rs"
    and ok :: "'a \<Rightarrow> bool"
  assumes dec_enc: "ok x \<Longrightarrow> dec (enc x @ rest) = Ok x"
begin

lemma dec_enc_only: "ok x \<Longrightarrow> dec (enc x) = Ok x"
  using dec_enc [of x "[]"] by simp

lemma prefix_free:
  assumes "ok x" and "ok y" and "enc x @ r = enc y @ r'"
  shows "x = y \<and> r = r'"
proof -
  have "Ok x = (Ok y :: ('a, 'e) rs)"
    using dec_enc [OF assms(1), of r] dec_enc [OF assms(2), of r'] assms(3) by metis
  then show ?thesis using assms(3) by simp
qed

lemma enc_inj: "ok x \<Longrightarrow> ok y \<Longrightarrow> enc x = enc y \<Longrightarrow> x = y"
  using prefix_free [of x y "[]" "[]"] by simp

end

text \<open>
  A codec that is also canonical: whatever decodes was produced by the encoder, and no input
  makes the decoder panic.
\<close>

locale canonical_codec = prefix_codec +
  assumes dec_sound: "dec bs = Ok x \<Longrightarrow> ok x \<and> (\<exists>rest. bs = enc x @ rest)"
    and dec_no_panic: "dec bs \<noteq> Panic"
begin

lemma dec_Ok_iff: "dec bs = Ok x \<longleftrightarrow> ok x \<and> (\<exists>rest. bs = enc x @ rest)"
  using dec_enc dec_sound by blast

lemma dec_extend: "dec bs = Ok x \<Longrightarrow> dec (bs @ more) = Ok x"
  by (auto simp: dec_Ok_iff)

lemma dec_error_or_value: "(\<exists>e. dec bs = Err e) \<or> (\<exists>x rest. ok x \<and> bs = enc x @ rest)"
  using dec_no_panic dec_sound by (cases "dec bs") (auto, blast)

end

text \<open>A codec over whole buffers: the decoder accepts exactly the encodings.\<close>

locale exact_codec =
  fixes enc :: "'a \<Rightarrow> bytes"
    and dec :: "bytes \<Rightarrow> ('a, 'e) rs"
    and ok :: "'a \<Rightarrow> bool"
  assumes dec_exact: "dec bs = Ok x \<longleftrightarrow> ok x \<and> bs = enc x"
    and exact_no_panic: "dec bs \<noteq> Panic"
begin

lemma roundtrip: "ok x \<Longrightarrow> dec (enc x) = Ok x"
  by (simp add: dec_exact)

lemma enc_inj: "ok x \<Longrightarrow> ok y \<Longrightarrow> enc x = enc y \<Longrightarrow> x = y"
  by (metis roundtrip rs.inject(1))

lemma reencode: "dec bs = Ok x \<Longrightarrow> enc x = bs"
  by (simp add: dec_exact)

end

text \<open>
  A keyed table whose entries carry the instant of their last activity.  \<open>reap c\<close> drops the
  entries stamped before the cutoff \<open>c\<close>, except those the table may not inspect
  (\<open>protected\<close>: a session whose mutex is held).
\<close>

locale idle_table =
  fixes get :: "'s \<Rightarrow> 'k \<Rightarrow> 'v option"
    and put :: "'k \<Rightarrow> 'v \<Rightarrow> 's \<Rightarrow> 's"
    and reap :: "instant \<Rightarrow> 's \<Rightarrow> 's"
    and stamp :: "'v \<Rightarrow> instant"
    and protected :: "'s \<Rightarrow> 'k \<Rightarrow> bool"
    and wf :: "'s \<Rightarrow> bool"
  assumes get_put: "wf s \<Longrightarrow> get (put k v s) = (get s)(k \<mapsto> v)"
    and get_reap: "wf s \<Longrightarrow> get (reap c s) k =
      (case get s k of None \<Rightarrow> None
       | Some v \<Rightarrow> if stamp v < c \<and> \<not> protected s k then None else Some v)"
    and wf_put: "wf s \<Longrightarrow> wf (put k v s)"
    and wf_reap: "wf s \<Longrightarrow> wf (reap c s)"
    and protected_put: "wf s \<Longrightarrow> k' \<noteq> k \<Longrightarrow> protected (put k v s) k' = protected s k'"
    and protected_reap: "wf s \<Longrightarrow> get (reap c s) k \<noteq> None \<Longrightarrow> protected (reap c s) k = protected s k"
begin

lemma reap_fresh: "wf s \<Longrightarrow> get s k = Some v \<Longrightarrow> c \<le> stamp v \<Longrightarrow> get (reap c s) k = Some v"
  by (simp add: get_reap)

lemma reap_stale:
  "wf s \<Longrightarrow> get s k = Some v \<Longrightarrow> stamp v < c \<Longrightarrow> \<not> protected s k \<Longrightarrow> get (reap c s) k = None"
  by (simp add: get_reap)

lemma reap_only_removes: "wf s \<Longrightarrow> get (reap c s) k = Some v \<Longrightarrow> get s k = Some v"
  by (auto simp: get_reap split: option.splits if_splits)

lemma reap_survivor:
  "wf s \<Longrightarrow> get (reap c s) k = Some v \<Longrightarrow> \<not> protected s k \<Longrightarrow> c \<le> stamp v"
  by (auto simp: get_reap split: option.splits if_splits)

lemma reap_reap: "wf s \<Longrightarrow> get (reap c (reap c' s)) k = get (reap (max c c') s) k"
proof (cases "get s k")
  case None
  assume "wf s"
  then show ?thesis using None by (simp add: get_reap wf_reap)
next
  case (Some v)
  assume wf: "wf s"
  then show ?thesis
    using Some protected_reap [OF wf, of c' k]
    by (cases "stamp v < c' \<and> \<not> protected s k") (auto simp: get_reap wf_reap)
qed

lemma put_survives: "wf s \<Longrightarrow> c \<le> stamp v \<Longrightarrow> get (reap c (put k v s)) k = Some v"
  by (simp add: get_reap get_put wf_put)

lemma put_reap_other: "wf s \<Longrightarrow> k' \<noteq> k \<Longrightarrow> get (reap c (put k v s)) k' = get (reap c s) k'"
  by (cases "get s k'") (simp_all add: get_reap get_put wf_put protected_put)

end

end
