(* ===== verification/Lp_Net.thy ===== *)
theory Lp_Net
  imports Lp_Base
begin

text \<open>
  The parts of \<open>std::net\<close> the source uses: \<open>IpAddr\<close> (an IPv4 address is the 32-bit number its
  octets spell, an IPv6 address the 128-bit one), \<open>SocketAddr\<close> (without the IPv6 flow and
  scope fields, which the program never reads), the octet conversions, and
  \<open>str::parse::<Ipv4Addr>\<close> and \<open>str::parse::<u8>\<close>.
\<close>

datatype ip_addr = V4 u32 | V6 u128

record sock_addr =
  sa_ip :: ip_addr
  sa_port :: u16

definition sock_addr_new :: "ip_addr \<Rightarrow> u16 \<Rightarrow> sock_addr" where
  "sock_addr_new a p = \<lparr>sa_ip = a, sa_port = p\<rparr>"

fun is_ipv4 :: "ip_addr \<Rightarrow> bool" where
  "is_ipv4 (V4 _) = True"
| "is_ipv4 (V6 _) = False"

definition localhost :: ip_addr where
  "localhost = V4 0x7F000001"

text \<open>\<open>octets\<close> and the conversion from an octet array.\<close>

fun octets :: "ip_addr \<Rightarrow> bytes" where
  "octets (V4 a) = to_be_bytes a"
| "octets (V6 a) = to_be_bytes a"

lemma length_octets: "length (octets a) = (if is_ipv4 a then 4 else 16)"
  by (cases a) simp_all

section \<open>Parsing\<close>

definition digit_val :: "char \<Rightarrow> nat option" where
  "digit_val c = (let n = of_char c in if 48 \<le> n \<and> n \<le> 57 then Some (n - 48) else None)"

fun digits_val :: "nat \<Rightarrow> string \<Rightarrow> nat option" where
  "digits_val acc [] = Some acc"
| "digits_val acc (c # cs) =
     (case digit_val c of None \<Rightarrow> None | Some d \<Rightarrow> digits_val (acc * 10 + d) cs)"

text \<open>
  \<open>u8::from_str\<close>: an optional plus sign, at least one decimal digit, and a value that fits.
\<close>

definition parse_u8 :: "string \<Rightarrow> u8 option" where
  "parse_u8 s =
     (let ds = (case s of c # cs \<Rightarrow> if c = CHR ''+'' then cs else s | [] \<Rightarrow> []) in
      if ds = [] then None
      else case digits_val 0 ds of
             None \<Rightarrow> None
           | Some n \<Rightarrow> if n < 256 then Some (of_nat n) else None)"

text \<open>\<open>str::split\<close> at every occurrence of a character, and \<open>split_once\<close> at the first.\<close>

fun split_on :: "char \<Rightarrow> string \<Rightarrow> string list" where
  "split_on d [] = [[]]"
| "split_on d (c # cs) =
     (if c = d then [] # split_on d cs
      else case split_on d cs of [] \<Rightarrow> [[c]] | p # ps \<Rightarrow> (c # p) # ps)"

definition split_once :: "char \<Rightarrow> string \<Rightarrow> (string \<times> string) option" where
  "split_once d s =
     (if d \<in> set s then Some (takeWhile (\<lambda>c. c \<noteq> d) s, tl (dropWhile (\<lambda>c. c \<noteq> d) s)) else None)"

text \<open>
  One octet of a dotted-decimal address: one to three digits, no superfluous leading zero, at
  most 255.  An address is four of them.
\<close>

definition parse_octet :: "string \<Rightarrow> u8 option" where
  "parse_octet s =
     (if s = [] \<or> 3 < length s \<or> (1 < length s \<and> hd s = CHR ''0'') then None
      else case digits_val 0 s of
             None \<Rightarrow> None
           | Some n \<Rightarrow> if n < 256 then Some (of_nat n) else None)"

definition parse_ipv4 :: "string \<Rightarrow> u32 option" where
  "parse_ipv4 s =
     (case map parse_octet (split_on CHR ''.'' s) of
        [Some a, Some b, Some c, Some d] \<Rightarrow> Some (from_be_bytes [a, b, c, d])
      | _ \<Rightarrow> None)"

lemma split_once_eq:
  "split_once d s = Some (a, b) \<longleftrightarrow> s = a @ d # b \<and> d \<notin> set a"
proof
  assume "split_once d s = Some (a, b)"
  then have d: "d \<in> set s" and a: "a = takeWhile (\<lambda>c. c \<noteq> d) s"
    and b: "b = tl (dropWhile (\<lambda>c. c \<noteq> d) s)"
    by (auto simp: split_once_def split: if_splits)
  have ne: "dropWhile (\<lambda>c. c \<noteq> d) s \<noteq> []"
    using d by (simp add: dropWhile_eq_Nil_conv)
  have "hd (dropWhile (\<lambda>c. c \<noteq> d) s) = d"
    using hd_dropWhile [OF ne] by simp
  then have "dropWhile (\<lambda>c. c \<noteq> d) s = d # b"
    using ne b by (metis list.collapse)
  then have "s = a @ d # b"
    using a takeWhile_dropWhile_id [of "\<lambda>c. c \<noteq> d" s] by simp
  then show "s = a @ d # b \<and> d \<notin> set a"
    using a by (auto dest: set_takeWhileD)
next
  assume "s = a @ d # b \<and> d \<notin> set a"
  moreover have "d \<notin> set a \<Longrightarrow> takeWhile (\<lambda>c. c \<noteq> d) (a @ d # b) = a"
    by (induction a) auto
  moreover have "d \<notin> set a \<Longrightarrow> dropWhile (\<lambda>c. c \<noteq> d) (a @ d # b) = d # b"
    by (induction a) auto
  ultimately show "split_once d s = Some (a, b)"
    by (auto simp: split_once_def)
qed

end
