(* ===== verification/Lp_F64.thy ===== *)
theory Lp_F64
  imports Lp_Base Complex_Main "HOL-Library.Log_Nat"
begin

text \<open>
  The \<open>f64\<close> operations the route picker uses: addition with IEEE rounding to nearest, ties to
  even, and the comparison \<open><\<close>.  A finite value is the rational number it denotes; the two
  zeros are one value, since neither operation distinguishes them.  \<open>f64_round\<close> rounds an exact
  sum to 53 significant bits (fewer below \<open>2^-1022\<close>) and overflows to
  infinity: the significand \<open>q\<close> is at most \<open>2^53\<close>, so the value reaches \<open>2^1024\<close> just when
  the exponent is above 971, or is 971 with \<open>q = 2^53\<close>.
\<close>

datatype f64 = Fin rat | PosInf | NegInf | NaN

text \<open>\<open>\<lfloor>log2 r\<rfloor>\<close> for positive \<open>r\<close>.\<close>

definition ilog2 :: "rat \<Rightarrow> int" where
  "ilog2 r = (let (n, d) = quotient_of r; k = bitlen n - bitlen d in if r < 2 powi k then k - 1 else k)"

definition round_half_even :: "rat \<Rightarrow> int" where
  "round_half_even x =
     (let f = \<lfloor>x\<rfloor>; r = x - of_int f in
      if r < 1 / 2 then f else if 1 / 2 < r then f + 1 else if even f then f else f + 1)"

definition f64_round :: "rat \<Rightarrow> f64" where
  "f64_round r =
     (if r = 0 then Fin 0
      else let a = \<bar>r\<bar>;
               e = max (ilog2 a - 52) (- 1074);
               q = round_half_even (a / 2 powi e);
               v = of_int q * 2 powi e
           in if 971 < e \<or> e = 971 \<and> q = 9007199254740992 then (if r < 0 then NegInf else PosInf)
              else Fin (if r < 0 then - v else v))"

fun f64_add :: "f64 \<Rightarrow> f64 \<Rightarrow> f64" where
  "f64_add NaN y = NaN"
| "f64_add x NaN = NaN"
| "f64_add (Fin a) (Fin b) = f64_round (a + b)"
| "f64_add PosInf NegInf = NaN"
| "f64_add NegInf PosInf = NaN"
| "f64_add PosInf y = PosInf"
| "f64_add NegInf y = NegInf"
| "f64_add x PosInf = PosInf"
| "f64_add x NegInf = NegInf"

fun f64_lt :: "f64 \<Rightarrow> f64 \<Rightarrow> bool" where
  "f64_lt (Fin a) (Fin b) = (a < b)"
| "f64_lt NegInf (Fin b) = True"
| "f64_lt NegInf PosInf = True"
| "f64_lt (Fin a) PosInf = True"
| "f64_lt x y = False"

fun f64_is_nan :: "f64 \<Rightarrow> bool" where
  "f64_is_nan NaN = True"
| "f64_is_nan x = False"

fun f64_is_finite :: "f64 \<Rightarrow> bool" where
  "f64_is_finite (Fin a) = True"
| "f64_is_finite x = False"

text \<open>On values other than NaN, \<open>f64_lt\<close> is a strict linear order.\<close>

lemma f64_lt_irrefl [simp]: "\<not> f64_lt x x"
  by (cases x) auto

lemma f64_lt_trans: "f64_lt x y \<Longrightarrow> f64_lt y z \<Longrightarrow> f64_lt x z"
  by (cases x; cases y; cases z) auto

lemma f64_lt_total:
  "\<not> f64_is_nan x \<Longrightarrow> \<not> f64_is_nan y \<Longrightarrow> f64_lt x y \<or> x = y \<or> f64_lt y x"
  by (cases x; cases y) auto

lemma f64_lt_asym: "f64_lt x y \<Longrightarrow> \<not> f64_lt y x"
  by (cases x; cases y) auto

lemma f64_not_lt_trans:
  assumes "\<not> f64_is_nan y" and "\<not> f64_lt y x" and "\<not> f64_lt z y"
  shows "\<not> f64_lt z x"
  using assms by (cases x; cases y; cases z) auto

lemma f64_lt_nan [simp]: "\<not> f64_lt NaN y" "\<not> f64_lt x NaN"
  by (cases y; simp) (cases x; simp)

lemma f64_lt_PosInf: "f64_lt x PosInf \<longleftrightarrow> x \<noteq> PosInf \<and> x \<noteq> NaN"
  by (cases x) auto

lemma f64_not_lt_NegInf [simp]: "\<not> f64_lt x NegInf" "\<not> f64_lt PosInf x"
  by (cases x; simp)+

end
