(* ===== verification/Lp_Crypto.thy ===== *)
theory Lp_Crypto
  imports Lp_Base
begin

text \<open>
  The third-party primitives the program calls, as a record of functions every definition that
  uses them takes as an argument: ChaCha20-Poly1305 (crate \<open>chacha20poly1305\<close>), X25519
  (\<open>x25519_dalek\<close>), HKDF-SHA256 (\<open>hkdf\<close>), Ed25519 (\<open>ed25519_dalek\<close>), and the text encodings of
  \<open>base64\<close> and \<open>hex\<close>.  The predicates below name what the program relies on; each is the
  documented behaviour of the primitive as a function, not a computational assumption.  A toy
  instance shows that all of them can hold together.
\<close>

record crypto =
  aead_encrypt :: "bytes \<Rightarrow> bytes \<Rightarrow> bytes \<Rightarrow> bytes \<Rightarrow> bytes option" \<comment> \<open>key, nonce, aad, message\<close>
  aead_decrypt :: "bytes \<Rightarrow> bytes \<Rightarrow> bytes \<Rightarrow> bytes \<Rightarrow> bytes option" \<comment> \<open>key, nonce, aad, ciphertext\<close>
  diffie_hellman :: "bytes \<Rightarrow> bytes \<Rightarrow> bytes" \<comment> \<open>secret, peer's public key\<close>
  x25519_public :: "bytes \<Rightarrow> bytes"
  hkdf_expand :: "bytes \<Rightarrow> bytes \<Rightarrow> nat \<Rightarrow> bytes option" \<comment> \<open>key material, info, output length\<close>
  ed_public :: "bytes \<Rightarrow> bytes"
  ed_sign :: "bytes \<Rightarrow> bytes \<Rightarrow> bytes" \<comment> \<open>secret, message\<close>
  ed_verify :: "bytes \<Rightarrow> bytes \<Rightarrow> bytes \<Rightarrow> bool" \<comment> \<open>public key, message, signature\<close>
  ed_key_valid :: "bytes \<Rightarrow> bool" \<comment> \<open>\<open>VerifyingKey::from_bytes\<close> accepts the 32 bytes\<close>
  b64_encode :: "bytes \<Rightarrow> string"
  b64_decode :: "string \<Rightarrow> (bytes, string) rs"
  hex_encode :: "bytes \<Rightarrow> string"
  hex_decode :: "string \<Rightarrow> (bytes, string) rs"

text \<open>
  The AEAD encrypts every message short of the cipher's limit (any bound above the program's
  1200 bytes will do), appends a 16-byte tag, and decrypts exactly what it encrypted under the
  same key, nonce and associated data: decryption recomputes the tag and compares.
\<close>

definition aead_ok :: "crypto \<Rightarrow> bool" where
  "aead_ok C \<longleftrightarrow>
     (\<forall>k n a m. length k = 32 \<and> length n = 12 \<and> length m \<le> 65536 \<longrightarrow>
        (\<exists>c. aead_encrypt C k n a m = Some c)) \<and>
     (\<forall>k n a m c. aead_encrypt C k n a m = Some c \<longrightarrow> length c = length m + 16) \<and>
     (\<forall>k n a m c. aead_decrypt C k n a c = Some m \<longleftrightarrow> aead_encrypt C k n a m = Some c)"

definition dh_ok :: "crypto \<Rightarrow> bool" where
  "dh_ok C \<longleftrightarrow>
     (\<forall>s t. length s = 32 \<and> length t = 32 \<longrightarrow>
        diffie_hellman C s (x25519_public C t) = diffie_hellman C t (x25519_public C s)) \<and>
     (\<forall>s. length s = 32 \<longrightarrow> length (x25519_public C s) = 32)"

definition hkdf_ok :: "crypto \<Rightarrow> bool" where
  "hkdf_ok C \<longleftrightarrow> (\<forall>ikm info. \<exists>out. hkdf_expand C ikm info 32 = Some out \<and> length out = 32)"

definition ed_ok :: "crypto \<Rightarrow> bool" where
  "ed_ok C \<longleftrightarrow>
     (\<forall>s m. length s = 32 \<longrightarrow> ed_verify C (ed_public C s) m (ed_sign C s m)) \<and>
     (\<forall>s m. length (ed_sign C s m) = 64)"

definition b64_ok :: "crypto \<Rightarrow> bool" where
  "b64_ok C \<longleftrightarrow> (\<forall>bs. b64_decode C (b64_encode C bs) = Ok bs) \<and> (\<forall>s. b64_decode C s \<noteq> Panic)"

definition hex_ok :: "crypto \<Rightarrow> bool" where
  "hex_ok C \<longleftrightarrow> (\<forall>bs. hex_decode C (hex_encode C bs) = Ok bs) \<and> (\<forall>s. hex_decode C s \<noteq> Panic)"

section \<open>Consequences\<close>

lemma aead_encrypt_total:
  "aead_ok C \<Longrightarrow> length k = 32 \<Longrightarrow> length n = 12 \<Longrightarrow> length m \<le> 65536 \<Longrightarrow>
     \<exists>c. aead_encrypt C k n a m = Some c \<and> length c = length m + 16"
  unfolding aead_ok_def by blast

lemma aead_decrypt_iff:
  "aead_ok C \<Longrightarrow> aead_decrypt C k n a c = Some m \<longleftrightarrow> aead_encrypt C k n a m = Some c"
  unfolding aead_ok_def by blast

lemma aead_encrypt_length: "aead_ok C \<Longrightarrow> aead_encrypt C k n a m = Some c \<Longrightarrow> length c = length m + 16"
  unfolding aead_ok_def by blast

lemma dh_agree:
  "dh_ok C \<Longrightarrow> length s = 32 \<Longrightarrow> length t = 32 \<Longrightarrow>
     diffie_hellman C s (x25519_public C t) = diffie_hellman C t (x25519_public C s)"
  unfolding dh_ok_def by blast

lemma length_x25519_public: "dh_ok C \<Longrightarrow> length s = 32 \<Longrightarrow> length (x25519_public C s) = 32"
  unfolding dh_ok_def by blast

lemma hkdf_32: "hkdf_ok C \<Longrightarrow> \<exists>out. hkdf_expand C ikm info 32 = Some out \<and> length out = 32"
  unfolding hkdf_ok_def by blast

lemma ed_verify_sign:
  "ed_ok C \<Longrightarrow> length s = 32 \<Longrightarrow> ed_verify C (ed_public C s) m (ed_sign C s m)"
  unfolding ed_ok_def by blast

lemma length_ed_sign: "ed_ok C \<Longrightarrow> length (ed_sign C s m) = 64"
  unfolding ed_ok_def by blast

section \<open>An instance\<close>

text \<open>
  Not cryptography: a checksum stands for the tag and the signature, and a key is its own
  public key.  It satisfies every hypothesis above, so the theorems that rest on them are not
  vacuous.
\<close>

definition toy_tag :: "bytes \<Rightarrow> bytes \<Rightarrow> bytes \<Rightarrow> bytes \<Rightarrow> bytes" where
  "toy_tag k n a m = replicate 15 0 @ [sum_list (k @ n @ a @ m)]"

definition toy :: crypto where
  "toy = \<lparr>
     aead_encrypt = (\<lambda>k n a m. Some (m @ toy_tag k n a m)),
     aead_decrypt = (\<lambda>k n a c.
       let m = take (length c - 16) c in
       if 16 \<le> length c \<and> drop (length c - 16) c = toy_tag k n a m then Some m else None),
     diffie_hellman = (\<lambda>s p. map2 (+) s p),
     x25519_public = (\<lambda>s. s),
     hkdf_expand = (\<lambda>ikm info n. Some (take n (ikm @ replicate n 0))),
     ed_public = (\<lambda>s. s),
     ed_sign = (\<lambda>s m. replicate 63 0 @ [sum_list (s @ m)]),
     ed_verify = (\<lambda>p m s. s = replicate 63 0 @ [sum_list (p @ m)]),
     ed_key_valid = (\<lambda>p. True),
     b64_encode = map (\<lambda>b. char_of (unat b)),
     b64_decode = (\<lambda>s. Ok (map (\<lambda>c. of_nat (of_char c)) s)),
     hex_encode = map (\<lambda>b. char_of (unat b)),
     hex_decode = (\<lambda>s. Ok (map (\<lambda>c. of_nat (of_char c)) s))\<rparr>"

lemma length_toy_tag [simp]: "length (toy_tag k n a m) = 16"
  by (simp add: toy_tag_def)

lemma toy_aead: "aead_ok toy"
  unfolding aead_ok_def
proof (intro conjI allI impI)
  fix k n a m c
  show "aead_decrypt toy k n a c = Some m \<longleftrightarrow> aead_encrypt toy k n a m = Some c"
  proof
    assume "aead_decrypt toy k n a c = Some m"
    then have "m = take (length c - 16) c" "drop (length c - 16) c = toy_tag k n a m"
      by (auto simp: toy_def Let_def split: if_splits)
    then have "m @ toy_tag k n a m = c" by (metis append_take_drop_id)
    then show "aead_encrypt toy k n a m = Some c" by (simp add: toy_def)
  next
    assume "aead_encrypt toy k n a m = Some c"
    then have "c = m @ toy_tag k n a m" by (simp add: toy_def)
    then show "aead_decrypt toy k n a c = Some m" by (simp add: toy_def Let_def)
  qed
qed (auto simp: toy_def)

lemma toy_dh: "dh_ok toy"
  unfolding dh_ok_def toy_def
  by (simp, intro allI impI nth_equalityI) (simp_all add: add.commute)

lemma toy_hkdf: "hkdf_ok toy"
  by (auto simp: hkdf_ok_def toy_def min_def)

lemma toy_ed: "ed_ok toy"
  by (simp add: ed_ok_def toy_def)

lemma toy_char_roundtrip: "map (\<lambda>c. of_nat (of_char c) :: u8) (map (\<lambda>b. char_of (unat (b :: u8))) bs) = bs"
proof -
  have "of_nat (of_char (char_of (unat b) :: char)) = b" for b :: u8
    using unat_u8_lt [of b] by simp
  then show ?thesis by (induction bs) auto
qed

lemma toy_b64: "b64_ok toy"
  using toy_char_roundtrip by (simp add: b64_ok_def toy_def)

lemma toy_hex: "hex_ok toy"
  using toy_char_roundtrip by (simp add: hex_ok_def toy_def)

lemmas toy_ok = toy_aead toy_dh toy_hkdf toy_ed toy_b64 toy_hex

end
