(* ===== verification/Lp_Wire.thy ===== *)
theory Lp_Wire
  imports Lp_Net Lp_Crypto
begin

text \<open>
  The wire protocol (\<open>crates/gr-protocol/src/lib.rs\<close>): frame headers, data frames, SYN frames
  and the CONNECT message, in the order of the source.  The codecs are interpreted as
  \<open>canonical_codec\<close>s; the frame lemmas say that decryption accepts exactly the frames that
  encryption produces, so every accepted frame is byte for byte the one its sender made.
\<close>

named_theorems wire_defs \<open>constants and layout of the wire format\<close>

section \<open>Constants and errors\<close>

definition HEADER_LEN :: nat where [wire_defs]: "HEADER_LEN = 13"
definition NONCE_LEN :: nat where [wire_defs]: "NONCE_LEN = 12"
definition TAG_LEN :: nat where [wire_defs]: "TAG_LEN = 16"
definition MIN_FRAME_LEN :: nat where [wire_defs]: "MIN_FRAME_LEN = HEADER_LEN + TAG_LEN"
definition MAX_PAYLOAD_LEN :: nat where [wire_defs]: "MAX_PAYLOAD_LEN = 1200"
definition PUBKEY_LEN :: nat where [wire_defs]: "PUBKEY_LEN = 32"
definition SYN_HEADER_LEN :: nat where [wire_defs]: "SYN_HEADER_LEN = HEADER_LEN + PUBKEY_LEN"
definition MIN_SYN_FRAME_LEN :: nat where [wire_defs]: "MIN_SYN_FRAME_LEN = SYN_HEADER_LEN + TAG_LEN"
definition PROTO_VERSION :: u8 where [wire_defs]: "PROTO_VERSION = 1"

datatype protocol_error =
  Truncated nat nat \<comment> \<open>\<open>got\<close>, \<open>need\<close>\<close>
| UnknownVersion u8
| PayloadTooLarge nat
| AeadFailed

text \<open>The \<open>bitflags\<close> of a header: a byte whose low nibble is clear.\<close>

type_synonym flags = u8

definition FEC_PARITY :: flags where "FEC_PARITY = 0x10"
definition SYN :: flags where "SYN = 0x20"
definition FIN :: flags where "FIN = 0x40"
definition REDUNDANT :: flags where "REDUNDANT = 0x80"
definition flags_empty :: flags where "flags_empty = 0"

definition from_bits_truncate :: "u8 \<Rightarrow> flags" where
  "from_bits_truncate b = b AND (FEC_PARITY OR SYN OR FIN OR REDUNDANT)"

definition contains_flag :: "flags \<Rightarrow> flags \<Rightarrow> bool" where
  "contains_flag f g \<longleftrightarrow> f AND g = g"

section \<open>Header\<close>

record header =
  h_version :: u8
  h_flags :: flags
  h_connection_id :: u32
  h_sequence :: u64

definition header_encode :: "header \<Rightarrow> bytes" where
  "header_encode h =
     ((h_version h AND 0x0F) OR h_flags h) # to_be_bytes (h_connection_id h) @ to_be_bytes (h_sequence h)"

definition header_decode :: "bytes \<Rightarrow> (header, protocol_error) rs" where
  "header_decode buf =
     (if length buf < HEADER_LEN then Err (Truncated (length buf) HEADER_LEN)
      else rs_bind (index buf 0) (\<lambda>b.
        let v = b AND 0x0F in
        if v \<noteq> PROTO_VERSION then Err (UnknownVersion v)
        else
          let fl = from_bits_truncate (b AND 0xF0) in
          rs_bind (slice buf 1 5) (\<lambda>cid.
          rs_bind (slice buf 5 13) (\<lambda>sq.
          Ok \<lparr>h_version = v, h_flags = fl,
              h_connection_id = from_be_bytes cid, h_sequence = from_be_bytes sq\<rparr>))))"

text \<open>The headers the wire format can carry: the current version, and flags in the high nibble.\<close>

definition header_ok :: "header \<Rightarrow> bool" where
  "header_ok h \<longleftrightarrow> h_version h = PROTO_VERSION \<and> h_flags h AND 0x0F = 0"

section \<open>Data frames\<close>

definition derive_nonce :: "u32 \<Rightarrow> u64 \<Rightarrow> bytes" where
  "derive_nonce cid sq = to_be_bytes cid @ to_be_bytes sq"

definition encrypt_frame :: "crypto \<Rightarrow> bytes \<Rightarrow> header \<Rightarrow> bytes \<Rightarrow> (bytes, protocol_error) rs" where
  "encrypt_frame C key h payload =
     (if MAX_PAYLOAD_LEN < length payload then Err (PayloadTooLarge (length payload))
      else
        let nonce = derive_nonce (h_connection_id h) (h_sequence h);
            header_bytes = header_encode h
        in rs_bind (ok_or AeadFailed (aead_encrypt C key nonce header_bytes payload)) (\<lambda>ct.
           Ok (header_bytes @ ct)))"

definition decrypt_frame :: "crypto \<Rightarrow> bytes \<Rightarrow> bytes \<Rightarrow> (header \<times> bytes, protocol_error) rs" where
  "decrypt_frame C key wire =
     (if length wire < MIN_FRAME_LEN then Err (Truncated (length wire) MIN_FRAME_LEN)
      else rs_bind (slice wire 0 HEADER_LEN) (\<lambda>hb.
        rs_bind (header_decode hb) (\<lambda>h.
        let nonce = derive_nonce (h_connection_id h) (h_sequence h) in
        rs_bind (slice wire HEADER_LEN (length wire)) (\<lambda>ct.
        rs_bind (ok_or AeadFailed (aead_decrypt C key nonce hb ct)) (\<lambda>pt.
        Ok (h, pt))))))"

section \<open>SYN frames\<close>

definition encrypt_syn_frame ::
  "crypto \<Rightarrow> bytes \<Rightarrow> header \<Rightarrow> bytes \<Rightarrow> bytes \<Rightarrow> (bytes, protocol_error) rs" where
  "encrypt_syn_frame C key h client_pubkey payload =
     (if MAX_PAYLOAD_LEN < length payload then Err (PayloadTooLarge (length payload))
      else
        let aad = header_encode h @ client_pubkey;
            nonce = derive_nonce (h_connection_id h) (h_sequence h)
        in rs_bind (ok_or AeadFailed (aead_encrypt C key nonce aad payload)) (\<lambda>ct.
           Ok (aad @ ct)))"

definition parse_syn_front :: "bytes \<Rightarrow> (header \<times> bytes, protocol_error) rs" where
  "parse_syn_front wire =
     (if length wire < MIN_SYN_FRAME_LEN then Err (Truncated (length wire) MIN_SYN_FRAME_LEN)
      else rs_bind (slice wire 0 HEADER_LEN) (\<lambda>hb.
        rs_bind (header_decode hb) (\<lambda>h.
        rs_bind (slice wire HEADER_LEN SYN_HEADER_LEN) (\<lambda>pk.
        Ok (h, pk)))))"

definition decrypt_syn_payload :: "crypto \<Rightarrow> bytes \<Rightarrow> bytes \<Rightarrow> (bytes, protocol_error) rs" where
  "decrypt_syn_payload C key wire =
     (if length wire < MIN_SYN_FRAME_LEN then Err (Truncated (length wire) MIN_SYN_FRAME_LEN)
      else rs_bind (slice wire 0 HEADER_LEN) (\<lambda>hb.
        rs_bind (header_decode hb) (\<lambda>h.
        let nonce = derive_nonce (h_connection_id h) (h_sequence h) in
        rs_bind (slice wire SYN_HEADER_LEN (length wire)) (\<lambda>ct.
        rs_bind (slice wire 0 SYN_HEADER_LEN) (\<lambda>aad.
        ok_or AeadFailed (aead_decrypt C key nonce aad ct))))))"

section \<open>CONNECT\<close>

datatype transport_protocol = Tcp | Udp

fun transport_byte :: "transport_protocol \<Rightarrow> u8" where
  "transport_byte Tcp = 1"
| "transport_byte Udp = 2"

definition transport_from_byte :: "u8 \<Rightarrow> transport_protocol option" where
  "transport_from_byte b = (if b = 1 then Some Tcp else if b = 2 then Some Udp else None)"

record connect_request =
  cr_protocol :: transport_protocol
  cr_dest_ip :: ip_addr
  cr_dest_port :: u16

definition connect_encode :: "connect_request \<Rightarrow> bytes" where
  "connect_encode r =
     (let (addr_bytes, addr_len) =
        (case cr_dest_ip r of V4 v \<Rightarrow> (octets (V4 v), 4) | V6 v \<Rightarrow> (octets (V6 v), 16))
      in [transport_byte (cr_protocol r), addr_len] @ addr_bytes @ to_be_bytes (cr_dest_port r))"

definition connect_decode :: "bytes \<Rightarrow> (connect_request, protocol_error) rs" where
  "connect_decode buf =
     (if length buf < 4 then Err (Truncated (length buf) 4)
      else rs_bind (index buf 0) (\<lambda>b.
        rs_bind (ok_or (Truncated (length buf) 4) (transport_from_byte b)) (\<lambda>proto.
        rs_bind (index buf 1) (\<lambda>l.
        let addr_len = unat l in
        if \<not> (addr_len = 4 \<or> addr_len = 16) then Err (Truncated (length buf) (4 + addr_len))
        else
          let need = 2 + addr_len + 2 in
          if length buf < need then Err (Truncated (length buf) need)
          else
            rs_bind (if addr_len = 4 then rs_bind (slice buf 2 6) (\<lambda>a. Ok (V4 (from_be_bytes a)))
                     else rs_bind (slice buf 2 18) (\<lambda>a. Ok (V6 (from_be_bytes a)))) (\<lambda>dest_ip.
            let port_off = 2 + addr_len in
            rs_bind (slice buf port_off (port_off + 2)) (\<lambda>p.
            Ok \<lparr>cr_protocol = proto, cr_dest_ip = dest_ip, cr_dest_port = from_be_bytes p\<rparr>))))))"

section \<open>The header codec\<close>

lemma length_header_encode [simp]: "length (header_encode h) = 13"
  by (simp add: header_encode_def)

lemma all_flags [simp]: "FEC_PARITY OR SYN OR FIN OR REDUNDANT = 0xF0"
  by (simp add: FEC_PARITY_def SYN_def FIN_def REDUNDANT_def)

lemma nibbles:
  fixes b f :: u8
  shows "(b AND 15) OR (b AND 240) = b"
    and "f AND 15 = 0 \<Longrightarrow> (1 OR f) AND 15 = 1"
    and "f AND 15 = 0 \<Longrightarrow> (1 OR f) AND 240 = f"
    and "(b AND 240) AND 15 = 0"
    and "(1 :: u8) AND 15 = 1"
proof -
  have g: "(x AND m) OR (x AND NOT m) = x" for x m :: u8
    by (rule bit_word_eqI) (auto simp: bit_and_iff bit_or_iff bit_not_iff)
  have n: "(240 :: u8) = NOT 15" by simp
  show split: "(b AND 15) OR (b AND 240) = b" for b :: u8
    unfolding n by (rule g)
  show "(1 OR f) AND 15 = 1" if f: "f AND 15 = 0"
    using f by (simp add: bit.conj_disj_distrib2)
  show "(1 OR f) AND 240 = f" if f: "f AND 15 = 0"
    using f split [of f] by (simp add: bit.conj_disj_distrib2)
  show "(b AND 240) AND 15 = 0" by (simp add: and.assoc)
  show "(1 :: u8) AND 15 = 1" by simp
qed

lemma header_decode_long:
  assumes "13 \<le> length buf"
  shows "header_decode buf =
    (if buf ! 0 AND 15 \<noteq> 1 then Err (UnknownVersion (buf ! 0 AND 15))
     else Ok \<lparr>h_version = 1, h_flags = buf ! 0 AND 240,
        h_connection_id = from_be_bytes (take 4 (drop 1 buf)),
        h_sequence = from_be_bytes (take 8 (drop 5 buf))\<rparr>)"
proof -
  have "0 < length buf" using assms by linarith
  with assms show ?thesis
    by (simp add: header_decode_def wire_defs rs_simps Let_def from_bits_truncate_def and.assoc)
qed

interpretation header_codec: canonical_codec header_encode header_decode header_ok
proof
  fix h rest
  assume "header_ok h"
  then show "header_decode (header_encode h @ rest) = Ok h"
    by (simp add: header_decode_long header_encode_def header_ok_def wire_defs nibbles)
next
  fix bs h
  assume dec: "header_decode bs = Ok h"
  then have len: "13 \<le> length bs"
    by (auto simp: header_decode_def wire_defs split: if_splits)
  with dec have v: "bs ! 0 AND 15 = 1"
    and h: "h = \<lparr>h_version = 1, h_flags = bs ! 0 AND 240,
        h_connection_id = from_be_bytes (take 4 (drop 1 bs)),
        h_sequence = from_be_bytes (take 8 (drop 5 bs))\<rparr>"
    by (auto simp: header_decode_long split: if_splits)
  have "bs ! 0 = 1 OR (bs ! 0 AND 240)"
    using nibbles(1) [of "bs ! 0"] v by simp
  moreover have "bs = bs ! 0 # take 4 (drop 1 bs) @ take 8 (drop 5 bs) @ drop 13 bs"
    using len by (cases bs) (simp_all add: take_Cons' drop_Cons' flip: take_add append_assoc)
  ultimately have "bs = header_encode h @ drop 13 bs"
    using len h by (simp add: header_encode_def)
  then show "header_ok h \<and> (\<exists>rest. bs = header_encode h @ rest)"
    using h by (auto simp: header_ok_def wire_defs nibbles)
next
  fix bs
  show "header_decode bs \<noteq> Panic"
    by (cases "13 \<le> length bs") (auto simp: header_decode_long, auto simp: header_decode_def wire_defs)
qed

section \<open>The CONNECT codec\<close>

lemma transport_from_byte_eq: "transport_from_byte b = Some t \<longleftrightarrow> b = transport_byte t"
  by (cases t) (auto simp: transport_from_byte_def)

lemma connect_encode_eq:
  "connect_encode r =
     transport_byte (cr_protocol r) # (if is_ipv4 (cr_dest_ip r) then 4 else 16)
       # octets (cr_dest_ip r) @ to_be_bytes (cr_dest_port r)"
  by (cases "cr_dest_ip r") (simp_all add: connect_encode_def)

lemma length_connect_encode:
  "length (connect_encode r) = (if is_ipv4 (cr_dest_ip r) then 8 else 20)"
  by (simp add: connect_encode_eq length_octets)

lemma connect_decode_encode: "connect_decode (connect_encode r @ rest) = Ok r"
proof (cases "cr_dest_ip r")
  case (V4 a)
  have "transport_from_byte (transport_byte (cr_protocol r)) = Some (cr_protocol r)"
    by (simp add: transport_from_byte_eq)
  with V4 show ?thesis
    by (simp add: connect_decode_def connect_encode_eq rs_simps Let_def numeral_2_eq_2 [symmetric])
next
  case (V6 a)
  have "transport_from_byte (transport_byte (cr_protocol r)) = Some (cr_protocol r)"
    by (simp add: transport_from_byte_eq)
  with V6 show ?thesis
    by (simp add: connect_decode_def connect_encode_eq rs_simps Let_def)
qed

lemma connect_decode_cases:
  assumes "connect_decode bs = Ok r"
  obtains (v4) "6 + 2 \<le> length bs" "bs ! 0 = transport_byte (cr_protocol r)" "bs ! 1 = 4"
      "cr_dest_ip r = V4 (from_be_bytes (take 4 (drop 2 bs)))"
      "cr_dest_port r = from_be_bytes (take 2 (drop 6 bs))"
    | (v6) "18 + 2 \<le> length bs" "bs ! 0 = transport_byte (cr_protocol r)" "bs ! 1 = 16"
      "cr_dest_ip r = V6 (from_be_bytes (take 16 (drop 2 bs)))"
      "cr_dest_port r = from_be_bytes (take 2 (drop 18 bs))"
proof -
  have four: "4 \<le> length bs"
    using assms by (auto simp: connect_decode_def split: if_splits)
  have t: "transport_from_byte (bs ! 0) = Some (cr_protocol r)"
    and al: "unat (bs ! 1) = 4 \<or> unat (bs ! 1) = 16"
    and len: "unat (bs ! 1) + 4 \<le> length bs"
    using assms four
    by (auto simp: connect_decode_def Let_def index_def split: if_splits)
  have b1: "bs ! 1 = 4 \<or> bs ! 1 = 16"
    using al by (auto simp: word_unat_eq_iff)
  show thesis
    using b1
  proof
    assume "bs ! 1 = 4"
    then show thesis
      using assms four len t by (intro v4)
        (auto simp: connect_decode_def Let_def rs_simps transport_from_byte_eq split: if_splits)
  next
    assume "bs ! 1 = 16"
    then show thesis
      using assms four len t by (intro v6)
        (auto simp: connect_decode_def Let_def rs_simps transport_from_byte_eq split: if_splits)
  qed
qed

lemma split_at_2: "2 \<le> length bs \<Longrightarrow> bs = bs ! 0 # bs ! 1 # drop 2 bs"
  by (cases bs; cases "tl bs") auto

lemma connect_decode_sound:
  assumes "connect_decode bs = Ok r"
  shows "\<exists>rest. bs = connect_encode r @ rest"
  using assms
proof (cases rule: connect_decode_cases)
  case v4
  have "bs = bs ! 0 # bs ! 1 # take 4 (drop 2 bs) @ take 2 (drop 6 bs) @ drop 8 bs"
    using split_at_2 [of bs] drop_split [of 2 bs 4] drop_split [of 6 bs 2] v4(1) by simp
  then show ?thesis using v4 by (intro exI [of _ "drop 8 bs"]) (simp add: connect_encode_eq)
next
  case v6
  have "bs = bs ! 0 # bs ! 1 # take 16 (drop 2 bs) @ take 2 (drop 18 bs) @ drop 20 bs"
    using split_at_2 [of bs] drop_split [of 2 bs 16] drop_split [of 18 bs 2] v6(1) by simp
  then show ?thesis using v6 by (intro exI [of _ "drop 20 bs"]) (simp add: connect_encode_eq)
qed

lemma connect_decode_no_panic: "connect_decode bs \<noteq> Panic"
  by (auto simp: connect_decode_def Let_def slice_def index_def split: if_splits)

interpretation connect_codec: canonical_codec connect_encode connect_decode "\<lambda>_. True"
  by unfold_locales
    (use connect_decode_encode connect_decode_sound connect_decode_no_panic in auto)

section \<open>What the frame functions accept and produce\<close>

text \<open>
  Each decoder is characterised by the encoder: it accepts a buffer just when the buffer is a
  well-formed header followed by what the AEAD produced for it.
\<close>

lemma length_derive_nonce [simp]: "length (derive_nonce cid sq) = NONCE_LEN"
  by (simp add: derive_nonce_def wire_defs)

lemma derive_nonce_inj: "derive_nonce c s = derive_nonce c' s' \<longleftrightarrow> c = c' \<and> s = s'"
  by (simp add: derive_nonce_def)

lemma encrypt_frame_Ok_iff:
  "encrypt_frame C k h p = Ok w \<longleftrightarrow>
     length p \<le> MAX_PAYLOAD_LEN \<and>
     (\<exists>ct. aead_encrypt C k (derive_nonce (h_connection_id h) (h_sequence h)) (header_encode h) p = Some ct
        \<and> w = header_encode h @ ct)"
  by (auto simp: encrypt_frame_def Let_def)

lemma header_decode_13:
  assumes "header_decode bs = Ok h" and "length bs = 13"
  shows "header_ok h \<and> bs = header_encode h"
proof -
  obtain rest where "header_ok h" and "bs = header_encode h @ rest"
    using header_codec.dec_sound [OF assms(1)] by blast
  moreover from this assms(2) have "rest = []" by simp
  ultimately show ?thesis by simp
qed

lemma decrypt_frame_Ok_iff:
  assumes C: "aead_ok C"
  shows "decrypt_frame C k w = Ok (h, p) \<longleftrightarrow>
     header_ok h \<and>
     (\<exists>ct. aead_encrypt C k (derive_nonce (h_connection_id h) (h_sequence h)) (header_encode h) p = Some ct
        \<and> w = header_encode h @ ct)"
    (is "?L = ?R")
proof
  assume L: ?L
  then have len: "29 \<le> length w"
    by (auto simp: decrypt_frame_def wire_defs split: if_splits)
  with L have dec: "header_decode (take 13 w) = Ok h"
    and aead: "aead_decrypt C k (derive_nonce (h_connection_id h) (h_sequence h)) (take 13 w) (drop 13 w) = Some p"
    by (auto simp: decrypt_frame_def wire_defs rs_simps Let_def)
  have "header_ok h" and "take 13 w = header_encode h"
    using header_decode_13 [OF dec] len by simp_all
  then show ?R
    using aead aead_decrypt_iff [OF C] by (metis append_take_drop_id)
next
  assume ?R
  then obtain ct where ok: "header_ok h" and w: "w = header_encode h @ ct"
    and enc: "aead_encrypt C k (derive_nonce (h_connection_id h) (h_sequence h)) (header_encode h) p = Some ct"
    by blast
  have "length ct = length p + 16"
    using aead_encrypt_length [OF C enc] .
  then show ?L
    using ok w enc aead_decrypt_iff [OF C] header_codec.dec_enc_only
    by (simp add: decrypt_frame_def wire_defs rs_simps Let_def)
qed

lemma encrypt_syn_frame_Ok_iff:
  "encrypt_syn_frame C k h pk p = Ok w \<longleftrightarrow>
     length p \<le> MAX_PAYLOAD_LEN \<and>
     (\<exists>ct. aead_encrypt C k (derive_nonce (h_connection_id h) (h_sequence h)) (header_encode h @ pk) p = Some ct
        \<and> w = header_encode h @ pk @ ct)"
  by (auto simp: encrypt_syn_frame_def Let_def)

lemma parse_syn_front_Ok_iff:
  "parse_syn_front w = Ok (h, pk) \<longleftrightarrow>
     header_ok h \<and> length pk = 32 \<and> (\<exists>ct. w = header_encode h @ pk @ ct \<and> 16 \<le> length ct)"
    (is "?L = ?R")
proof
  assume L: ?L
  then have len: "61 \<le> length w"
    by (auto simp: parse_syn_front_def wire_defs split: if_splits)
  with L have dec: "header_decode (take 13 w) = Ok h" and pk: "pk = take 32 (drop 13 w)"
    by (auto simp: parse_syn_front_def wire_defs rs_simps)
  have "header_ok h" and "take 13 w = header_encode h"
    using header_decode_13 [OF dec] len by simp_all
  moreover have "w = take 13 w @ pk @ drop 45 w"
    using drop_split [of 13 w 32] append_take_drop_id [of 13 w] pk by simp
  ultimately show ?R
    using len pk by (intro conjI exI [of _ "drop 45 w"]) auto
next
  assume ?R
  then show ?L
    using header_codec.dec_enc_only
    by (auto simp: parse_syn_front_def wire_defs rs_simps)
qed

lemma decrypt_syn_payload_Ok_iff:
  assumes C: "aead_ok C"
  shows "decrypt_syn_payload C k w = Ok p \<longleftrightarrow>
     (\<exists>h pk ct. header_ok h \<and> length pk = 32 \<and>
        aead_encrypt C k (derive_nonce (h_connection_id h) (h_sequence h)) (header_encode h @ pk) p = Some ct
        \<and> w = header_encode h @ pk @ ct)"
    (is "?L = ?R")
proof
  assume L: ?L
  then have len: "61 \<le> length w"
    by (auto simp: decrypt_syn_payload_def wire_defs split: if_splits)
  with L obtain h where dec: "header_decode (take 13 w) = Ok h"
    and aead: "aead_decrypt C k (derive_nonce (h_connection_id h) (h_sequence h)) (take 45 w) (drop 45 w) = Some p"
    by (auto simp: decrypt_syn_payload_def wire_defs rs_simps Let_def)
  have h: "header_ok h" "take 13 w = header_encode h"
    using header_decode_13 [OF dec] len by simp_all
  have "take 45 w = header_encode h @ take 32 (drop 13 w)"
    using h take_add [of 13 32 w] by simp
  moreover have "w = take 45 w @ drop 45 w" by simp
  ultimately show ?R
    using h aead aead_decrypt_iff [OF C] len
    by (intro exI [of _ h] exI [of _ "take 32 (drop 13 w)"] exI [of _ "drop 45 w"]) simp
next
  assume ?R
  then obtain h pk ct where ok: "header_ok h" "length pk = 32" "w = header_encode h @ pk @ ct"
    and enc: "aead_encrypt C k (derive_nonce (h_connection_id h) (h_sequence h)) (header_encode h @ pk) p = Some ct"
    by blast
  have "length ct = length p + 16"
    using aead_encrypt_length [OF C enc] .
  then show ?L
    using ok enc aead_decrypt_iff [OF C] header_codec.dec_enc_only
    by (simp add: decrypt_syn_payload_def wire_defs rs_simps Let_def)
qed

lemma encrypt_frame_total:
  assumes "aead_ok C" and "length k = 32" and "length p \<le> MAX_PAYLOAD_LEN"
  obtains w where "encrypt_frame C k h p = Ok w" and "length w = MIN_FRAME_LEN + length p"
proof -
  obtain ct where ct: "aead_encrypt C k (derive_nonce (h_connection_id h) (h_sequence h)) (header_encode h) p = Some ct"
    and "length ct = length p + 16"
    using aead_encrypt_total [OF assms(1,2), of "derive_nonce (h_connection_id h) (h_sequence h)" p] assms(3)
    by (auto simp: wire_defs)
  then show thesis
    using assms(3) by (intro that [of "header_encode h @ ct"])
      (auto simp: encrypt_frame_Ok_iff wire_defs)
qed

lemma encrypt_syn_frame_total:
  assumes "aead_ok C" and "length k = 32" and "length p \<le> MAX_PAYLOAD_LEN"
  obtains w where "encrypt_syn_frame C k h pk p = Ok w"
    and "length w = HEADER_LEN + length pk + TAG_LEN + length p"
proof -
  obtain ct where ct: "aead_encrypt C k (derive_nonce (h_connection_id h) (h_sequence h)) (header_encode h @ pk) p = Some ct"
    and "length ct = length p + 16"
    using aead_encrypt_total [OF assms(1,2), of "derive_nonce (h_connection_id h) (h_sequence h)" p] assms(3)
    by (auto simp: wire_defs)
  then show thesis
    using assms(3) by (intro that [of "header_encode h @ pk @ ct"])
      (auto simp: encrypt_syn_frame_Ok_iff wire_defs)
qed

lemma decrypt_encrypt_frame:
  "aead_ok C \<Longrightarrow> header_ok h \<Longrightarrow> encrypt_frame C k h p = Ok w \<Longrightarrow> decrypt_frame C k w = Ok (h, p)"
  by (auto simp: decrypt_frame_Ok_iff encrypt_frame_Ok_iff)

lemma decrypt_frame_no_panic: "decrypt_frame C k w \<noteq> Panic"
  by (auto simp: decrypt_frame_def wire_defs slice_def Let_def header_codec.dec_no_panic)

lemma parse_syn_front_no_panic: "parse_syn_front w \<noteq> Panic"
  by (auto simp: parse_syn_front_def wire_defs slice_def header_codec.dec_no_panic)

lemma decrypt_syn_payload_no_panic: "decrypt_syn_payload C k w \<noteq> Panic"
  by (auto simp: decrypt_syn_payload_def wire_defs slice_def Let_def header_codec.dec_no_panic)

text \<open>The sequence number a frame shows in its clear-text header.\<close>

definition frame_sequence :: "bytes \<Rightarrow> u64" where
  "frame_sequence w = (case header_decode w of Ok h \<Rightarrow> h_sequence h | _ \<Rightarrow> 0)"

lemma frame_sequence_encrypt:
  "header_ok h \<Longrightarrow> encrypt_frame C k h p = Ok w \<Longrightarrow> frame_sequence w = h_sequence h"
  using header_codec.dec_enc by (auto simp: frame_sequence_def encrypt_frame_Ok_iff)

lemma frame_sequence_encrypt_syn:
  "header_ok h \<Longrightarrow> encrypt_syn_frame C k h pk p = Ok w \<Longrightarrow> frame_sequence w = h_sequence h"
  using header_codec.dec_enc by (auto simp: frame_sequence_def encrypt_syn_frame_Ok_iff)

section \<open>Properties of the wire format\<close>

text \<open>C13: A data frame survives the wire: for a header of the current version and a payload of
  at most 1200 bytes, \<open>encrypt_frame\<close> succeeds, the frame is 29 bytes longer than the payload,
  and \<open>decrypt_frame\<close> under the same key returns exactly that header and payload.\<close>

theorem frame_roundtrip:
  assumes "aead_ok C" and "length k = 32" and "header_ok h" and "length p \<le> MAX_PAYLOAD_LEN"
  shows "\<exists>w. encrypt_frame C k h p = Ok w \<and> length w = MIN_FRAME_LEN + length p
    \<and> decrypt_frame C k w = Ok (h, p)"
  using encrypt_frame_total [OF assms(1,2,4), of h] decrypt_encrypt_frame [OF assms(1,3)] by metis

theorem frame_roundtrip_witness:
  "\<exists>w. encrypt_frame toy (replicate 32 7)
        \<lparr>h_version = 1, h_flags = SYN, h_connection_id = 0xCAFEBABE, h_sequence = 42\<rparr> [1, 2, 3] = Ok w
    \<and> length w = MIN_FRAME_LEN + length [1 :: u8, 2, 3]
    \<and> decrypt_frame toy (replicate 32 7) w
      = Ok (\<lparr>h_version = 1, h_flags = SYN, h_connection_id = 0xCAFEBABE, h_sequence = 42\<rparr>, [1, 2, 3])"
  by (rule frame_roundtrip [OF toy_aead]) (simp_all add: header_ok_def wire_defs SYN_def)



text \<open>C15: No datagram can crash a peer in the protocol decoders: on every byte string and key,
  the five parsers of the wire format return a value or an error and never panic (every slice
  and index they take is in range).\<close>

theorem decoders_never_panic:
  "header_decode w \<noteq> Panic \<and> decrypt_frame C k w \<noteq> Panic \<and> parse_syn_front w \<noteq> Panic
   \<and> decrypt_syn_payload C k w \<noteq> Panic \<and> connect_decode w \<noteq> Panic"
  by (simp add: header_codec.dec_no_panic decrypt_frame_no_panic parse_syn_front_no_panic
      decrypt_syn_payload_no_panic connect_decode_no_panic)

text \<open>The 13-byte header codec is exact: \<open>Header::decode\<close> accepts a buffer just when it
  starts with the encoding of a version-1 header whose flags lie in the high nibble, and returns
  that header; version and flags share the first byte without interfering.\<close>

theorem header_codec_exact:
  "header_decode bs = Ok h \<longleftrightarrow>
     h_version h = PROTO_VERSION \<and> h_flags h AND 0x0F = 0 \<and> (\<exists>rest. bs = header_encode h @ rest)"
  using header_codec.dec_Ok_iff by (simp add: header_ok_def)

text \<open>CONNECT messages round-trip for both transports and both address families, whatever
  follows them in the buffer; and \<open>ConnectRequest::decode\<close> accepts nothing but an encoding.\<close>

theorem connect_codec_exact:
  "connect_decode bs = Ok r \<longleftrightarrow> (\<exists>rest. bs = connect_encode r @ rest)"
  using connect_codec.dec_Ok_iff by simp

text \<open>Every frame fits one packet of the IPv6 minimum MTU: header, ciphertext and tag come to
  at most \<open>1280 - 40 - 8\<close> bytes, and longer payloads are refused rather than truncated.\<close>

theorem frame_fits_mtu:
  assumes "aead_ok C" and "length k = 32"
  shows "(case encrypt_frame C k h p of
      Ok w \<Rightarrow> length p \<le> MAX_PAYLOAD_LEN \<and> length w \<le> 1280 - 40 - 8
    | Err e \<Rightarrow> MAX_PAYLOAD_LEN < length p \<and> e = PayloadTooLarge (length p)
    | Panic \<Rightarrow> False)"
proof (cases "length p \<le> MAX_PAYLOAD_LEN")
  case True
  then show ?thesis
    by (rule encrypt_frame_total [OF assms, of p h]) (use True in \<open>simp add: wire_defs\<close>)
next
  case False
  then show ?thesis by (simp add: encrypt_frame_def)
qed

theorem frame_fits_mtu_witness:
  "case encrypt_frame toy (replicate 32 1)
       \<lparr>h_version = 1, h_flags = 0, h_connection_id = 1, h_sequence = 1\<rparr> (replicate 1201 0) of
      Ok w \<Rightarrow> length (replicate 1201 (0 :: u8)) \<le> MAX_PAYLOAD_LEN \<and> length w \<le> 1280 - 40 - 8
    | Err e \<Rightarrow> MAX_PAYLOAD_LEN < length (replicate 1201 (0 :: u8))
        \<and> e = PayloadTooLarge (length (replicate 1201 (0 :: u8)))
    | Panic \<Rightarrow> False"
  by (rule frame_fits_mtu [OF toy_aead]) simp

end
