(* ===== verification/Lp_Handshake.thy ===== *)
theory Lp_Handshake
  imports Lp_Wire
begin

text \<open>
  Session-key derivation (\<open>crates/gr-protocol/src/handshake.rs\<close>): the X25519 exchange and
  HKDF expansion both sides run, and the parsing of raw keys.  The main result composes it with
  the SYN frames of \<open>Lp_Wire\<close>: what the client sends, the bridge decrypts.
\<close>

datatype handshake_error = BadPubkeyLength nat | HkdfExpand

definition HKDF_INFO :: bytes where
  "HKDF_INFO = bytes_of_string ''lowping-v1-aead''"

definition derive_aead_key :: "crypto \<Rightarrow> bytes \<Rightarrow> (bytes, 'e) rs" where
  "derive_aead_key C shared_secret = expect (hkdf_expand C shared_secret HKDF_INFO 32)"

definition bridge_derive_session_key :: "crypto \<Rightarrow> bytes \<Rightarrow> bytes \<Rightarrow> (bytes, 'e) rs" where
  "bridge_derive_session_key C bridge_secret client_ephemeral_pub =
     derive_aead_key C (diffie_hellman C bridge_secret client_ephemeral_pub)"

definition client_derive_session_key :: "crypto \<Rightarrow> bytes \<Rightarrow> bytes \<Rightarrow> (bytes, 'e) rs" where
  "client_derive_session_key C client_ephemeral_secret bridge_pub =
     derive_aead_key C (diffie_hellman C client_ephemeral_secret bridge_pub)"

text \<open>\<open>generate_keypair\<close>, with the 32 random bytes it draws from the system as an argument.\<close>

definition generate_keypair :: "crypto \<Rightarrow> bytes \<Rightarrow> bytes \<times> bytes" where
  "generate_keypair C random = (random, x25519_public C random)"

definition pubkey_from_bytes :: "bytes \<Rightarrow> (bytes, handshake_error) rs" where
  "pubkey_from_bytes bs = (if length bs \<noteq> 32 then Err (BadPubkeyLength (length bs)) else Ok bs)"

definition secret_from_bytes :: "bytes \<Rightarrow> (bytes, handshake_error) rs" where
  "secret_from_bytes bs = (if length bs \<noteq> 32 then Err (BadPubkeyLength (length bs)) else Ok bs)"

lemma derive_aead_key_Ok:
  assumes "hkdf_ok C"
  obtains k where "derive_aead_key C s = Ok k" and "length k = 32"
  using hkdf_32 [OF assms, of s HKDF_INFO] that by (auto simp: derive_aead_key_def)

lemma both_sides_derive_same_key:
  assumes "dh_ok C" and "length sb = 32" and "length sc = 32"
  shows "bridge_derive_session_key C sb (x25519_public C sc)
       = client_derive_session_key C sc (x25519_public C sb)"
  using dh_agree [OF assms] by (simp add: bridge_derive_session_key_def client_derive_session_key_def)

lemma derive_length:
  "hkdf_ok C \<Longrightarrow> bridge_derive_session_key C s p = Ok k \<Longrightarrow> length k = 32"
  "hkdf_ok C \<Longrightarrow> client_derive_session_key C s p = Ok k \<Longrightarrow> length k = 32"
  by (metis bridge_derive_session_key_def derive_aead_key_Ok rs.inject(1))
    (metis client_derive_session_key_def derive_aead_key_Ok rs.inject(1))

text \<open>
  The bridge's view of a SYN frame the client built: front, key and payload all come out.
\<close>

lemma syn_decodes:
  assumes "aead_ok C" and "header_ok h" and "length pk = 32"
    and "encrypt_syn_frame C k h pk p = Ok w"
  shows "parse_syn_front w = Ok (h, pk) \<and> decrypt_syn_payload C k w = Ok p \<and> header_decode w = Ok h"
proof -
  obtain ct where ct: "aead_encrypt C k (derive_nonce (h_connection_id h) (h_sequence h)) (header_encode h @ pk) p = Some ct"
    and w: "w = header_encode h @ pk @ ct"
    using assms(4) by (auto simp: encrypt_syn_frame_Ok_iff)
  have "16 \<le> length ct"
    using aead_encrypt_length [OF assms(1) ct] by simp
  then show ?thesis
    using assms(2,3) ct w header_codec.dec_enc [OF assms(2)]
    by (auto simp: parse_syn_front_Ok_iff decrypt_syn_payload_Ok_iff [OF assms(1)])
qed

text \<open>C5: The SYN handshake works end to end: for any 32-byte client and bridge secrets, both
  sides derive the same session key, the client's SYN frame (its public key in clear, the payload
  encrypted) is accepted by the bridge, which reads back the header, the client's public key and,
  with the key it derives from them, the payload.\<close>

theorem syn_handshake:
  assumes "aead_ok C" and "dh_ok C" and "hkdf_ok C"
    and "length sb = 32" and "length sc = 32"
    and "header_ok h" and "length p \<le> MAX_PAYLOAD_LEN"
  shows "\<exists>k w. client_derive_session_key C sc (snd (generate_keypair C sb)) = (Ok k :: (bytes, handshake_error) rs)
    \<and> encrypt_syn_frame C k h (snd (generate_keypair C sc)) p = Ok w
    \<and> parse_syn_front w = Ok (h, snd (generate_keypair C sc))
    \<and> rs_bind (pubkey_from_bytes (snd (generate_keypair C sc))) (bridge_derive_session_key C sb) = Ok k
    \<and> decrypt_syn_payload C k w = Ok p"
proof -
  obtain k where "derive_aead_key C (diffie_hellman C sc (x25519_public C sb)) = (Ok k :: (bytes, handshake_error) rs)"
    and len: "length k = 32"
    by (rule derive_aead_key_Ok [OF assms(3)])
  then have k: "client_derive_session_key C sc (x25519_public C sb) = (Ok k :: (bytes, handshake_error) rs)"
    by (simp add: client_derive_session_key_def)
  have pk: "length (x25519_public C sc) = 32"
    using length_x25519_public [OF assms(2,5)] .
  obtain w where w: "encrypt_syn_frame C k h (x25519_public C sc) p = Ok w"
    using encrypt_syn_frame_total [OF assms(1) len assms(7)] by metis
  then show ?thesis
    using k pk syn_decodes [OF assms(1,6) pk w]
      both_sides_derive_same_key [OF assms(2,4,5), where 'a = handshake_error]
    by (rule_tac x = k in exI, rule_tac x = w in exI)
      (simp add: generate_keypair_def pubkey_from_bytes_def)
qed

theorem syn_handshake_witness:
  "\<exists>k w. client_derive_session_key toy (replicate 32 3) (snd (generate_keypair toy (replicate 32 9)))
        = (Ok k :: (bytes, handshake_error) rs)
    \<and> encrypt_syn_frame toy k \<lparr>h_version = 1, h_flags = SYN, h_connection_id = 7, h_sequence = 0\<rparr>
        (snd (generate_keypair toy (replicate 32 3))) [1, 2] = Ok w
    \<and> parse_syn_front w = Ok (\<lparr>h_version = 1, h_flags = SYN, h_connection_id = 7, h_sequence = 0\<rparr>,
        snd (generate_keypair toy (replicate 32 3)))
    \<and> rs_bind (pubkey_from_bytes (snd (generate_keypair toy (replicate 32 3))))
        (bridge_derive_session_key toy (replicate 32 9)) = Ok k
    \<and> decrypt_syn_payload toy k w = Ok [1, 2]"
  by (rule syn_handshake [OF toy_aead toy_dh toy_hkdf]) (simp_all add: header_ok_def wire_defs SYN_def)

end
