(* ===== verification/Lp_License.thy ===== *)
theory Lp_License
  imports Lp_Crypto
begin

text \<open>
  License tokens (\<open>crates/gr-protocol/src/license.rs\<close>): the 24-byte payload, the signed token of
  88 bytes, its validity check and its text form.  Timestamps are \<open>i64\<close>: 64-bit words compared
  with \<open>sint\<close>.
\<close>

definition PAYLOAD_LEN :: nat where "PAYLOAD_LEN = 4 + 8 + 8 + 4"
definition SIG_LEN :: nat where "SIG_LEN = 64"
definition TOKEN_LEN :: nat where "TOKEN_LEN = PAYLOAD_LEN + SIG_LEN"

lemmas license_lens = PAYLOAD_LEN_def SIG_LEN_def TOKEN_LEN_def

datatype license_error =
  WrongLength nat
| Base64 string
| BadSignature
| Expired i64 i64 \<comment> \<open>\<open>expires_at\<close>, \<open>now\<close>\<close>
| NotYetValid i64 i64 \<comment> \<open>\<open>issued_at\<close>, \<open>now\<close>\<close>

record license_payload =
  lp_user_id :: u32
  lp_issued_at :: i64
  lp_expires_at :: i64
  lp_scope :: u32

definition payload_encode :: "license_payload \<Rightarrow> bytes" where
  "payload_encode p =
     to_be_bytes (lp_user_id p) @ to_be_bytes (lp_issued_at p)
     @ to_be_bytes (lp_expires_at p) @ to_be_bytes (lp_scope p)"

definition payload_decode :: "bytes \<Rightarrow> (license_payload, 'e) rs" where
  "payload_decode buf =
     (if length buf < PAYLOAD_LEN then Panic
      else
        rs_bind (slice buf 0 4) (\<lambda>u.
        rs_bind (slice buf 4 12) (\<lambda>i.
        rs_bind (slice buf 12 20) (\<lambda>x.
        rs_bind (slice buf 20 24) (\<lambda>s.
        Ok \<lparr>lp_user_id = from_be_bytes u, lp_issued_at = from_be_bytes i,
            lp_expires_at = from_be_bytes x, lp_scope = from_be_bytes s\<rparr>)))))"

record license_token =
  lt_payload :: license_payload
  lt_signature :: bytes

definition token_sign :: "crypto \<Rightarrow> license_payload \<Rightarrow> bytes \<Rightarrow> license_token" where
  "token_sign C payload key =
     \<lparr>lt_payload = payload, lt_signature = ed_sign C key (payload_encode payload)\<rparr>"

definition token_verify ::
  "crypto \<Rightarrow> license_token \<Rightarrow> bytes \<Rightarrow> i64 \<Rightarrow> (unit, license_error) rs" where
  "token_verify C t backend_pubkey now_unix =
     (let payload_bytes = payload_encode (lt_payload t);
          issued = lp_issued_at (lt_payload t);
          expires = lp_expires_at (lt_payload t) in
      if \<not> ed_verify C backend_pubkey payload_bytes (lt_signature t) then Err BadSignature
      else if sint now_unix < sint issued then Err (NotYetValid issued now_unix)
      else if sint expires \<le> sint now_unix then Err (Expired expires now_unix)
      else Ok ())"

definition token_to_bytes :: "license_token \<Rightarrow> bytes" where
  "token_to_bytes t = payload_encode (lt_payload t) @ lt_signature t"

definition token_from_bytes :: "bytes \<Rightarrow> (license_token, license_error) rs" where
  "token_from_bytes bs =
     (if length bs \<noteq> TOKEN_LEN then Err (WrongLength (length bs))
      else
        rs_bind (slice bs 0 PAYLOAD_LEN) (\<lambda>pb.
        rs_bind (payload_decode pb) (\<lambda>p.
        rs_bind (slice bs PAYLOAD_LEN (length bs)) (\<lambda>sb.
        Ok \<lparr>lt_payload = p, lt_signature = sb\<rparr>))))"

definition token_to_string_b64 :: "crypto \<Rightarrow> license_token \<Rightarrow> string" where
  "token_to_string_b64 C t = b64_encode C (token_to_bytes t)"

definition token_from_string_b64 :: "crypto \<Rightarrow> string \<Rightarrow> (license_token, license_error) rs" where
  "token_from_string_b64 C s = rs_bind (rs_map_err Base64 (b64_decode C s)) token_from_bytes"

section \<open>Codecs\<close>

lemma length_payload_encode [simp]: "length (payload_encode p) = 24"
  by (simp add: payload_encode_def)

lemma payload_decode_long:
  "24 \<le> length buf \<Longrightarrow> payload_decode buf =
     Ok \<lparr>lp_user_id = from_be_bytes (take 4 buf), lp_issued_at = from_be_bytes (take 8 (drop 4 buf)),
         lp_expires_at = from_be_bytes (take 8 (drop 12 buf)),
         lp_scope = from_be_bytes (take 4 (drop 20 buf))\<rparr>"
  by (simp add: payload_decode_def license_lens rs_simps)

interpretation payload_codec: prefix_codec payload_encode payload_decode "\<lambda>_. True"
  by unfold_locales (simp add: payload_decode_long payload_encode_def)

lemma payload_encode_decode:
  assumes "length bs = 24" and "payload_decode bs = Ok p"
  shows "payload_encode p = bs"
proof -
  have "bs = take 4 bs @ take 8 (drop 4 bs) @ take 8 (drop 12 bs) @ take 4 (drop 20 bs) @ drop 24 bs"
    using append_take_drop_id [of 4 bs] drop_split [of 4 bs 8] drop_split [of 12 bs 8]
      drop_split [of 20 bs 4] by simp
  then show ?thesis
    using assms by (auto simp: payload_decode_long payload_encode_def)
qed

interpretation token_codec: exact_codec token_to_bytes token_from_bytes
  "\<lambda>t. length (lt_signature t) = SIG_LEN"
proof
  fix bs t
  show "token_from_bytes bs = Ok t \<longleftrightarrow> length (lt_signature t) = SIG_LEN \<and> bs = token_to_bytes t"
    (is "?L = ?R")
  proof
    assume L: ?L
    then have len: "length bs = 88"
      by (auto simp: token_from_bytes_def license_lens split: if_splits)
    obtain p where p: "payload_decode (take 24 bs) = (Ok p :: (license_payload, license_error) rs)"
      and t: "t = \<lparr>lt_payload = p, lt_signature = drop 24 bs\<rparr>"
      using L len by (auto simp: token_from_bytes_def license_lens rs_simps)
    have "payload_encode p = take 24 bs"
      using payload_encode_decode [OF _ p] len by simp
    then show ?R using len t by (simp add: token_to_bytes_def license_lens)
  next
    assume ?R
    then show ?L
      using payload_codec.dec_enc_only [of "lt_payload t"]
      by (auto simp: token_from_bytes_def token_to_bytes_def license_lens rs_simps)
  qed
next
  fix bs
  show "token_from_bytes bs \<noteq> Panic"
    by (auto simp: token_from_bytes_def license_lens rs_simps payload_decode_long)
qed

lemma token_from_bytes_defined: "(\<exists>t. token_from_bytes bs = Ok t) \<longleftrightarrow> length bs = 88"
  by (auto simp: token_from_bytes_def license_lens rs_simps payload_decode_long)

lemma token_sign_wf: "ed_ok C \<Longrightarrow> length (lt_signature (token_sign C p k)) = SIG_LEN"
  by (simp add: token_sign_def SIG_LEN_def length_ed_sign)

lemma token_string_roundtrip:
  "b64_ok C \<Longrightarrow> length (lt_signature t) = SIG_LEN \<Longrightarrow>
     token_from_string_b64 C (token_to_string_b64 C t) = Ok t"
  by (simp add: token_from_string_b64_def token_to_string_b64_def b64_ok_def token_codec.roundtrip)

lemma length_token_to_bytes: "length (lt_signature t) = SIG_LEN \<Longrightarrow> length (token_to_bytes t) = TOKEN_LEN"
  by (simp add: token_to_bytes_def license_lens)

lemma token_verify_Ok_iff:
  "token_verify C t pk now = Ok () \<longleftrightarrow>
     ed_verify C pk (payload_encode (lt_payload t)) (lt_signature t)
     \<and> sint (lp_issued_at (lt_payload t)) \<le> sint now \<and> sint now < sint (lp_expires_at (lt_payload t))"
  by (auto simp: token_verify_def Let_def)

lemma token_verify_signed:
  assumes "ed_ok C" and "length sk = 32"
  shows "token_verify C (token_sign C p sk) (ed_public C sk) now =
    (if sint now < sint (lp_issued_at p) then Err (NotYetValid (lp_issued_at p) now)
     else if sint (lp_expires_at p) \<le> sint now then Err (Expired (lp_expires_at p) now)
     else Ok ())"
  using ed_verify_sign [OF assms] by (simp add: token_verify_def token_sign_def)

section \<open>Properties\<close>

text \<open>The token's byte form is exact: \<open>from_bytes\<close> accepts a buffer just when it is the
  88-byte encoding of a token with a 64-byte signature, returns that token, and panics on no
  input; so no two tokens share an encoding and no buffer decodes in two ways.\<close>

theorem token_bytes_exact:
  "(token_from_bytes bs = Ok t \<longleftrightarrow> length (lt_signature t) = 64 \<and> bs = token_to_bytes t)
   \<and> token_from_bytes bs \<noteq> Panic
   \<and> ((\<exists>t. token_from_bytes bs = Ok t) \<longleftrightarrow> length bs = 88)"
  using token_codec.dec_exact [of bs t] token_codec.exact_no_panic [of bs] token_from_bytes_defined [of bs]
  by (simp add: SIG_LEN_def)

text \<open>C35: Issue, transport, verify: a token signed by the backend's key, rendered as base64,
  parsed back and checked against the backend's public key is accepted at exactly the times
  \<open>issued_at <= now < expires_at\<close>; before them it is NotYetValid and after them Expired.\<close>

theorem token_issue_verify:
  assumes "ed_ok C" and "b64_ok C" and "length sk = 32"
  shows "rs_bind (token_from_string_b64 C (token_to_string_b64 C (token_sign C p sk)))
      (\<lambda>t. token_verify C t (ed_public C sk) now) =
    (if sint now < sint (lp_issued_at p) then Err (NotYetValid (lp_issued_at p) now)
     else if sint (lp_expires_at p) \<le> sint now then Err (Expired (lp_expires_at p) now)
     else Ok ())"
  using token_string_roundtrip [OF assms(2) token_sign_wf [OF assms(1)]] token_verify_signed [OF assms(1,3)]
  by simp

theorem token_issue_verify_witness:
  "rs_bind (token_from_string_b64 toy (token_to_string_b64 toy (token_sign toy
        \<lparr>lp_user_id = 42, lp_issued_at = 1000000, lp_expires_at = 2000000, lp_scope = 1\<rparr> (replicate 32 5))))
      (\<lambda>t. token_verify toy t (ed_public toy (replicate 32 5)) 1500000) = Ok ()"
  by (subst token_issue_verify [OF toy_ed toy_b64]) simp_all

text \<open>What a bridge checks is what it received: although \<open>verify\<close> re-encodes the parsed
  payload before it checks the signature, the bytes it checks are the first 24 bytes of the token
  as received and the signature its last 64, so a token is accepted just when the backend signed
  those very bytes and the clock is inside the window they carry.\<close>

theorem token_verify_received:
  assumes "token_from_bytes bs = Ok t"
  shows "token_verify C t pk now = Ok () \<longleftrightarrow>
    ed_verify C pk (take 24 bs) (drop 24 bs)
    \<and> sint (from_be_bytes (take 8 (drop 4 bs)) :: i64) \<le> sint now
    \<and> sint now < sint (from_be_bytes (take 8 (drop 12 bs)) :: i64)"
proof -
  have bs: "bs = payload_encode (lt_payload t) @ lt_signature t"
    using token_codec.dec_exact [of bs t] assms by (simp add: token_to_bytes_def)
  then show ?thesis
    by (simp add: token_verify_Ok_iff payload_encode_def)
qed

theorem token_verify_received_witness:
  "let t = token_sign toy \<lparr>lp_user_id = 1, lp_issued_at = 100, lp_expires_at = 200, lp_scope = 1\<rparr> (replicate 32 5)
   in token_verify toy t (replicate 32 5) 150 = Ok ()
    \<longleftrightarrow> ed_verify toy (replicate 32 5) (take 24 (token_to_bytes t)) (drop 24 (token_to_bytes t))
      \<and> sint (from_be_bytes (take 8 (drop 4 (token_to_bytes t))) :: i64) \<le> sint (150 :: i64)
      \<and> sint (150 :: i64) < sint (from_be_bytes (take 8 (drop 12 (token_to_bytes t))) :: i64)"
  unfolding Let_def
  by (rule token_verify_received, rule token_codec.roundtrip, rule token_sign_wf [OF toy_ed])

end
