(* ===== verification/Lp_Fec.thy ===== *)
theory Lp_Fec
  imports Lp_Base
begin

text \<open>
  Forward error correction (\<open>crates/gr-protocol/src/fec.rs\<close>): the block encoder and decoder
  around the crate \<open>reed_solomon_erasure\<close>.  The crate is a record of functions the definitions
  take as an argument; \<open>rs_code\<close> names what its documentation promises of one configured code.
\<close>

datatype fec_error =
  InvalidConfig nat nat \<comment> \<open>data, parity\<close>
| ReedSolomon string
| InsufficientShards nat nat \<comment> \<open>have, need\<close>
| InconsistentShardSize nat nat \<comment> \<open>expected, got\<close>

record 'r rs_lib =
  rs_new :: "nat \<Rightarrow> nat \<Rightarrow> ('r, string) rs"
  rs_encode :: "'r \<Rightarrow> bytes list \<Rightarrow> (bytes list, string) rs" \<comment> \<open>all shards, parity filled in\<close>
  rs_reconstruct :: "'r \<Rightarrow> bytes option list \<Rightarrow> (bytes option list, string) rs"

record 'r encoder =
  enc_rs :: 'r
  enc_data_shards :: nat
  enc_parity_shards :: nat

definition encoder_new :: "'r rs_lib \<Rightarrow> nat \<Rightarrow> nat \<Rightarrow> ('r encoder, fec_error) rs" where
  "encoder_new L data_shards parity_shards =
     (if data_shards = 0 \<or> parity_shards = 0 then Err (InvalidConfig data_shards parity_shards)
      else rs_bind (rs_map_err ReedSolomon (rs_new L data_shards parity_shards)) (\<lambda>r.
        Ok \<lparr>enc_rs = r, enc_data_shards = data_shards, enc_parity_shards = parity_shards\<rparr>))"

definition encoder_encode :: "'r rs_lib \<Rightarrow> 'r encoder \<Rightarrow> bytes list \<Rightarrow> (bytes list, fec_error) rs" where
  "encoder_encode L e data =
     (if length data \<noteq> enc_data_shards e then Err (InvalidConfig (length data) (enc_parity_shards e))
      else rs_bind (index data 0) (\<lambda>d0.
        let shard_len = length d0 in
        case find (\<lambda>s. length s \<noteq> shard_len) data of
          Some s \<Rightarrow> Err (InconsistentShardSize shard_len (length s))
        | None \<Rightarrow>
            let shards = data @ replicate (enc_parity_shards e) (replicate shard_len 0) in
            rs_bind (rs_map_err ReedSolomon (rs_encode L (enc_rs e) shards)) (\<lambda>out.
            slice out (enc_data_shards e) (length out))))"

record 'r decoder =
  dec_rs :: 'r
  dec_data_shards :: nat
  dec_parity_shards :: nat

definition decoder_new :: "'r rs_lib \<Rightarrow> nat \<Rightarrow> nat \<Rightarrow> ('r decoder, fec_error) rs" where
  "decoder_new L data_shards parity_shards =
     rs_bind (rs_map_err ReedSolomon (rs_new L data_shards parity_shards)) (\<lambda>r.
     Ok \<lparr>dec_rs = r, dec_data_shards = data_shards, dec_parity_shards = parity_shards\<rparr>)"

definition reconstruct_data ::
  "'r rs_lib \<Rightarrow> 'r decoder \<Rightarrow> bytes option list \<Rightarrow> (bytes option list, fec_error) rs" where
  "reconstruct_data L d shards =
     (let total = dec_data_shards d + dec_parity_shards d in
      if length shards \<noteq> total then Err (InvalidConfig (length shards) 0)
      else
        let present = length (filter (\<lambda>s. s \<noteq> None) shards) in
        if present < dec_data_shards d then Err (InsufficientShards present (dec_data_shards d))
        else rs_map_err ReedSolomon (rs_reconstruct L (dec_rs d) shards))"

section \<open>The library's contract\<close>

text \<open>The shards that arrive when \<open>kept\<close> says which of them survive.\<close>

definition receive :: "bool list \<Rightarrow> 'a list \<Rightarrow> 'a option list" where
  "receive kept xs = map2 (\<lambda>k x. if k then Some x else None) kept xs"

text \<open>
  A configured \<open>(d, p)\<close> code: on \<open>d + p\<close> shards of one positive length, encoding keeps the data
  shards and fills in the parity shards; and from any \<open>d\<close> of the encoded shards the data shards
  are reconstructed (the code is maximum distance separable).
\<close>

definition rs_recovers :: "'r rs_lib \<Rightarrow> nat \<Rightarrow> nat \<Rightarrow> 'r \<Rightarrow> bytes list \<Rightarrow> bytes list \<Rightarrow> bool" where
  "rs_recovers L d p r data par \<longleftrightarrow>
     (\<forall>kept. length kept = d + p \<and> d \<le> length (filter id kept) \<longrightarrow>
        (\<exists>out. rs_reconstruct L r (receive kept (data @ par)) = Ok out \<and> take d out = map Some data))"

definition rs_code :: "'r rs_lib \<Rightarrow> nat \<Rightarrow> nat \<Rightarrow> 'r \<Rightarrow> bool" where
  "rs_code L d p r \<longleftrightarrow>
     rs_new L d p = Ok r \<and>
     (\<forall>data zeros n. length data = d \<and> length zeros = p \<and> 0 < n \<and> (\<forall>s \<in> set (data @ zeros). length s = n) \<longrightarrow>
        (\<exists>par. rs_encode L r (data @ zeros) = Ok (data @ par) \<and> length par = p \<and> (\<forall>s \<in> set par. length s = n)
           \<and> rs_recovers L d p r data par))"

lemma length_receive [simp]: "length (receive kept xs) = min (length kept) (length xs)"
  by (simp add: receive_def)

lemma present_receive:
  "length kept = length xs \<Longrightarrow> length (filter (\<lambda>s. s \<noteq> None) (receive kept xs)) = length (filter id kept)"
  unfolding receive_def by (induction kept xs rule: list_induct2) auto

lemma encoder_encode_code:
  assumes code: "rs_code L d p r" and e: "e = \<lparr>enc_rs = r, enc_data_shards = d, enc_parity_shards = p\<rparr>"
    and "0 < d" and len: "length data = d" and n: "0 < n" "\<forall>s \<in> set data. length s = n"
  obtains par where "encoder_encode L e data = Ok par" and "length par = p"
    and "\<forall>s \<in> set par. length s = n"
    and "rs_recovers L d p r data par"
proof -
  let ?zeros = "replicate p (replicate n (0 :: u8))"
  have d0: "data \<noteq> []" and l0: "length (data ! 0) = n"
    using assms by auto
  have find: "find (\<lambda>s. length s \<noteq> n) data = None"
    using n by (auto simp: find_None_iff)
  have shape: "length data = d \<and> length ?zeros = p \<and> 0 < n \<and> (\<forall>s \<in> set (data @ ?zeros). length s = n)"
    using len n by auto
  obtain par where par: "rs_encode L r (data @ ?zeros) = Ok (data @ par)" "length par = p"
      "\<forall>s \<in> set par. length s = n"
      "rs_recovers L d p r data par"
    using code shape unfolding rs_code_def by blast
  have "encoder_encode L e data = Ok par"
    using e \<open>0 < d\<close> len d0 l0 find par(1) by (simp add: encoder_encode_def rs_simps)
  then show thesis using par that by blast
qed

section \<open>An instance\<close>

text \<open>
  Two data shards and one parity shard, their bytewise sum: the smallest configuration that
  reconstructs anything, written out to show the contract can be met.
\<close>

definition shard_add :: "bytes \<Rightarrow> bytes \<Rightarrow> bytes" where
  "shard_add a b = map2 (+) a b"

definition shard_sub :: "bytes \<Rightarrow> bytes \<Rightarrow> bytes" where
  "shard_sub a b = map2 (-) a b"

definition toy_rs :: "unit rs_lib" where
  "toy_rs = \<lparr>
     rs_new = (\<lambda>d p. if d = 2 \<and> p = 1 then Ok () else Err ''unsupported''),
     rs_encode = (\<lambda>_ xs. case xs of [a, b, _] \<Rightarrow> Ok [a, b, shard_add a b] | _ \<Rightarrow> Err ''shards''),
     rs_reconstruct = (\<lambda>_ xs. case xs of
         [Some a, Some b, _] \<Rightarrow> Ok xs
       | [None, Some b, Some s] \<Rightarrow> Ok [Some (shard_sub s b), Some b, Some s]
       | [Some a, None, Some s] \<Rightarrow> Ok [Some a, Some (shard_sub s a), Some s]
       | _ \<Rightarrow> Err ''too few'')\<rparr>"

lemma length_shard_add [simp]: "length (shard_add a b) = min (length a) (length b)"
  by (simp add: shard_add_def)

lemma shard_sub_add:
  "length a = length b \<Longrightarrow> shard_sub (shard_add a b) b = a"
  "length a = length b \<Longrightarrow> shard_sub (shard_add a b) a = b"
  unfolding shard_sub_def shard_add_def by (induction a b rule: list_induct2) auto

lemma toy_rs_reconstruct:
  assumes "length a = n" and "length b = n" and "length kept = 3" and "2 \<le> length (filter id kept)"
  shows "\<exists>out. rs_reconstruct toy_rs () (receive kept [a, b, shard_add a b]) = Ok out
    \<and> take 2 out = [Some a, Some b]"
proof -
  obtain x y z where "kept = [x, y, z]"
    using assms(3) by (auto simp: length_Suc_conv numeral_3_eq_3)
  then show ?thesis
    using assms by (cases x; cases y; cases z)
      (auto simp: toy_rs_def receive_def shard_sub_add numeral_2_eq_2)
qed

lemma toy_rs_code: "rs_code toy_rs 2 1 ()"
proof -
  have "\<exists>par. rs_encode toy_rs () (data @ zeros) = Ok (data @ par) \<and> length par = 1
      \<and> (\<forall>s \<in> set par. length s = n) \<and> rs_recovers toy_rs 2 1 () data par"
    if sh: "length data = 2 \<and> length zeros = 1 \<and> 0 < n \<and> (\<forall>s \<in> set (data @ zeros). length s = n)"
    for data zeros :: "bytes list" and n
  proof -
    obtain a b where ab: "data = [a, b]" using sh by (cases data; cases "tl data") auto
    obtain z where z: "zeros = [z]" using sh by (cases zeros) auto
    have n: "length a = n" "length b = n" using sh ab by auto
    have "rs_recovers toy_rs 2 1 () data [shard_add a b]"
      using toy_rs_reconstruct [OF n] ab by (simp add: rs_recovers_def)
    moreover have "rs_encode toy_rs () (data @ zeros) = Ok (data @ [shard_add a b])"
      by (simp add: toy_rs_def ab z)
    ultimately show ?thesis using n by (intro exI [of _ "[shard_add a b]"]) simp
  qed
  then show ?thesis
    unfolding rs_code_def by (simp add: toy_rs_def)
qed

section \<open>Properties\<close>

text \<open>C38: FEC recovers what it promises: a block of \<open>d\<close> equal-length shards is encoded into
  \<open>p\<close> parity shards of the same length, and whichever \<open>p\<close> (or fewer) of the \<open>d + p\<close> shards are
  lost, the decoder returns all \<open>d\<close> data shards; with more losses it reports
  \<open>InsufficientShards\<close> with the number that arrived, and never returns wrong data.\<close>

theorem fec_recovers:
  assumes code: "rs_code L d p r" and "0 < d" and "0 < p"
    and "length data = d" and "0 < n" and "\<forall>s \<in> set data. length s = n" and kept: "length kept = d + p"
  shows "\<exists>e dd par. encoder_new L d p = Ok e \<and> decoder_new L d p = Ok dd
    \<and> encoder_encode L e data = Ok par \<and> length par = p \<and> (\<forall>s \<in> set par. length s = n)
    \<and> (if d \<le> length (filter id kept)
       then \<exists>out. reconstruct_data L dd (receive kept (data @ par)) = Ok out \<and> take d out = map Some data
       else reconstruct_data L dd (receive kept (data @ par)) = Err (InsufficientShards (length (filter id kept)) d))"
proof -
  let ?e = "\<lparr>enc_rs = r, enc_data_shards = d, enc_parity_shards = p\<rparr>"
  let ?d = "\<lparr>dec_rs = r, dec_data_shards = d, dec_parity_shards = p\<rparr>"
  obtain par where par: "encoder_encode L ?e data = Ok par" "length par = p" "\<forall>s \<in> set par. length s = n"
    and rec: "rs_recovers L d p r data par"
    using encoder_encode_code [OF code refl assms(2,4,5,6)] by metis
  have new: "encoder_new L d p = Ok ?e" "decoder_new L d p = Ok ?d"
    using code assms(2,3) by (simp_all add: encoder_new_def decoder_new_def rs_code_def)
  have "length (filter (\<lambda>s. s \<noteq> None) (receive kept (data @ par))) = length (filter id kept)"
    using kept par(2) assms(4) by (intro present_receive) simp
  then have "reconstruct_data L ?d (receive kept (data @ par)) =
      (if d \<le> length (filter id kept) then rs_map_err ReedSolomon (rs_reconstruct L r (receive kept (data @ par)))
       else Err (InsufficientShards (length (filter id kept)) d))"
    using kept par(2) assms(4) by (simp add: reconstruct_data_def)
  then show ?thesis
    using new par rec kept unfolding rs_recovers_def by fastforce
qed

theorem fec_recovers_witness:
  "\<exists>e dd par. encoder_new toy_rs 2 1 = Ok e \<and> decoder_new toy_rs 2 1 = Ok dd
    \<and> encoder_encode toy_rs e [[1, 2, 3], [4, 5, 6]] = Ok par \<and> length par = 1
    \<and> (\<exists>out. reconstruct_data toy_rs dd (receive [False, True, True] ([[1, 2, 3], [4, 5, 6]] @ par)) = Ok out
        \<and> take 2 out = map Some [[1, 2, 3], [4, 5, 6]])"
  using fec_recovers [OF toy_rs_code, of "[[1, 2, 3], [4, 5, 6]]" 3 "[False, True, True]"] by auto

text \<open>The encoder validates its input before the library sees it: a block of the wrong size or
  with shards of differing length is rejected with the offending sizes, and neither constructor
  nor encoder panics for a configuration the constructor accepted, when the library does not and
  returns at least the shards it was given.\<close>

theorem encoder_rejects_malformed:
  assumes "encoder_new L d p = Ok e"
  shows "0 < d \<and> 0 < p
    \<and> (length data \<noteq> d \<longrightarrow> encoder_encode L e data = Err (InvalidConfig (length data) p))
    \<and> (length data = d \<and> (\<exists>s \<in> set data. length s \<noteq> length (data ! 0)) \<longrightarrow>
        (\<exists>s \<in> set data. length s \<noteq> length (data ! 0)
          \<and> encoder_encode L e data = Err (InconsistentShardSize (length (data ! 0)) (length s))))"
proof -
  have e: "0 < d" "0 < p" "enc_data_shards e = d" "enc_parity_shards e = p"
    using assms by (auto simp: encoder_new_def split: if_splits)
  have "\<exists>s \<in> set data. length s \<noteq> length (data ! 0)
      \<and> encoder_encode L e data = Err (InconsistentShardSize (length (data ! 0)) (length s))"
    if len: "length data = d" and bad: "\<exists>s \<in> set data. length s \<noteq> length (data ! 0)"
  proof -
    obtain s where s: "find (\<lambda>s. length s \<noteq> length (data ! 0)) data = Some s"
      using bad by (cases "find (\<lambda>s. length s \<noteq> length (data ! 0)) data") (auto simp: find_None_iff)
    then have "s \<in> set data" "length s \<noteq> length (data ! 0)"
      by (auto simp: find_Some_iff)
    then show ?thesis
      using s len e by (auto simp: encoder_encode_def index_def)
  qed
  then show ?thesis using e by (auto simp: encoder_encode_def)
qed

theorem encoder_rejects_malformed_witness:
  "encoder_encode toy_rs \<lparr>enc_rs = (), enc_data_shards = 2, enc_parity_shards = 1\<rparr> [[1], [2, 3]]
     = Err (InconsistentShardSize 1 2)"
proof -
  have "encoder_new toy_rs 2 1 = Ok \<lparr>enc_rs = (), enc_data_shards = 2, enc_parity_shards = 1\<rparr>"
    by (simp add: encoder_new_def toy_rs_def)
  from encoder_rejects_malformed [OF this, of "[[1], [2, 3]]"] show ?thesis
    by simp
qed

end
