(* ===== verification/Lp_Aws.thy ===== *)
theory Lp_Aws
  imports Lp_Net
begin

text \<open>
  The AWS address table (\<open>crates/gr-common/src/aws_regions.rs\<close>): parsing CIDR prefixes,
  compiling the snapshot into a sorted table, and looking an address up by binary search and a
  bounded walk back.  The JSON document is parsed by \<open>serde_json\<close>; its parsed form is the
  argument of \<open>load_bundled\<close>.
\<close>

record prefix =
  ip_prefix :: string
  region :: string
  service :: string

record aws_ranges =
  ar_sync_token :: string
  ar_create_date :: string
  ar_prefixes :: "prefix list"

record compiled_prefix =
  cp_network :: u32
  cp_mask_len :: u8
  cp_region_idx :: u32

record aws_lookup =
  al_sync_token :: string
  al_create_date :: string
  al_regions :: "string list"
  al_prefixes :: "compiled_prefix list"

definition parse_cidr :: "string \<Rightarrow> (u32 \<times> u8) option" where
  "parse_cidr s =
     (case split_once CHR ''/'' s of None \<Rightarrow> None
      | Some (ip, mask_str) \<Rightarrow>
        (case parse_u8 mask_str of None \<Rightarrow> None
         | Some mask_len \<Rightarrow>
           if 32 < mask_len then None
           else (case parse_ipv4 ip of None \<Rightarrow> None
             | Some a \<Rightarrow>
                 let network = a AND (if mask_len = 0 then 0 else push_bit (unat (32 - mask_len)) (- 1))
                 in Some (network, mask_len))))"

section \<open>Compiling the snapshot\<close>

text \<open>The key \<open>(network, mask_len)\<close> the table is sorted by, with its lexicographic order.\<close>

datatype prefix_key = PKey u32 u8

instantiation prefix_key :: linorder
begin

fun less_eq_prefix_key :: "prefix_key \<Rightarrow> prefix_key \<Rightarrow> bool" where
  "PKey n m \<le> PKey n' m' \<longleftrightarrow> n < n' \<or> n = n' \<and> m \<le> m'"

fun less_prefix_key :: "prefix_key \<Rightarrow> prefix_key \<Rightarrow> bool" where
  "PKey n m < PKey n' m' \<longleftrightarrow> n < n' \<or> n = n' \<and> m < m'"

instance
proof
  fix x y z :: prefix_key
  show "x < y \<longleftrightarrow> x \<le> y \<and> \<not> y \<le> x" by (cases x; cases y) auto
  show "x \<le> x" by (cases x) auto
  show "x \<le> y \<Longrightarrow> y \<le> z \<Longrightarrow> x \<le> z" by (cases x; cases y; cases z) auto
  show "x \<le> y \<Longrightarrow> y \<le> x \<Longrightarrow> x = y" by (cases x; cases y) auto
  show "x \<le> y \<or> y \<le> x" by (cases x; cases y) auto
qed

end

definition sort_key_of :: "compiled_prefix \<Rightarrow> prefix_key" where
  "sort_key_of c = PKey (cp_network c) (cp_mask_len c)"

text \<open>\<open>region_to_idx.entry(region).or_insert_with(..)\<close>: the index of a region, new or known.\<close>

definition intern_region ::
  "string \<Rightarrow> (string, u32) hmap \<Rightarrow> string list \<Rightarrow> u32 \<times> (string, u32) hmap \<times> string list" where
  "intern_region r m regions =
     (case hm_get m r of
        Some idx \<Rightarrow> (idx, m, regions)
      | None \<Rightarrow> let id = of_nat (length regions) in (id, hm_insert r id m, regions @ [r]))"

fun compile_loop ::
  "prefix list \<Rightarrow> (string, u32) hmap \<Rightarrow> string list \<Rightarrow> compiled_prefix list
     \<Rightarrow> string list \<times> compiled_prefix list" where
  "compile_loop [] m regions compiled = (regions, compiled)"
| "compile_loop (p # ps) m regions compiled =
     (case parse_cidr (ip_prefix p) of
        None \<Rightarrow> compile_loop ps m regions compiled
      | Some (net, mask_len) \<Rightarrow>
          let (idx, m', regions') = intern_region (region p) m regions in
          compile_loop ps m' regions'
            (compiled @ [\<lparr>cp_network = net, cp_mask_len = mask_len, cp_region_idx = idx\<rparr>]))"

text \<open>\<open>Vec::dedup_by\<close>: drop an element that is the same as the last one kept.\<close>

fun dedup_by :: "('a \<Rightarrow> 'a \<Rightarrow> bool) \<Rightarrow> 'a list \<Rightarrow> 'a list" where
  "dedup_by same [] = []"
| "dedup_by same [x] = [x]"
| "dedup_by same (x # y # xs) =
     (if same y x then dedup_by same (x # xs) else x # dedup_by same (y # xs))"

definition same_prefix :: "compiled_prefix \<Rightarrow> compiled_prefix \<Rightarrow> bool" where
  "same_prefix a b \<longleftrightarrow> cp_network a = cp_network b \<and> cp_mask_len a = cp_mask_len b
     \<and> cp_region_idx a = cp_region_idx b"

definition load_bundled :: "aws_ranges \<Rightarrow> aws_lookup" where
  "load_bundled raw =
     (let (regions, compiled) = compile_loop (ar_prefixes raw) hm_empty [] [];
          compiled = sort_key sort_key_of compiled;
          compiled = dedup_by same_prefix compiled
      in \<lparr>al_sync_token = ar_sync_token raw, al_create_date = ar_create_date raw,
          al_regions = regions, al_prefixes = compiled\<rparr>)"

section \<open>Lookup\<close>

text \<open>
  \<open>slice::binary_search_by_key\<close> as the standard library of the pinned toolchain computes it:
  the candidate interval is halved, moving right on a tie, so of several equal keys the last is
  found.  (The documentation promises only one of them.)
\<close>

fun bs_loop :: "('a \<Rightarrow> 'k::linorder) \<Rightarrow> 'a list \<Rightarrow> 'k \<Rightarrow> nat \<Rightarrow> nat \<Rightarrow> nat" where
  "bs_loop f xs k base n =
     (if 1 < n
      then let half = n div 2; mid = base + half in
           bs_loop f xs k (if k < f (xs ! mid) then base else mid) (n - half)
      else base)"

declare bs_loop.simps [simp del]

definition binary_search_by_key :: "'k::linorder \<Rightarrow> ('a \<Rightarrow> 'k) \<Rightarrow> 'a list \<Rightarrow> (nat, nat) rs" where
  "binary_search_by_key k f xs =
     (if xs = [] then Err 0
      else let base = bs_loop f xs k 0 (length xs) in
           if f (xs ! base) = k then Ok base
           else Err (base + (if f (xs ! base) < k then 1 else 0)))"

definition saturating_add32 :: "u32 \<Rightarrow> u32 \<Rightarrow> u32" where
  "saturating_add32 a b = (if uint a + uint b < 2 ^ 32 then a + b else - 1)"

text \<open>
  The body of the walk, for one prefix.  \<open>32 - mask_len\<close> is checked arithmetic: it panics for
  a mask longer than 32 (which no compiled table holds).
\<close>

definition scan_prefix :: "u32 \<Rightarrow> compiled_prefix \<Rightarrow> (u8 \<times> u32) option \<Rightarrow> ((u8 \<times> u32) option, 'e) rs" where
  "scan_prefix v4 p best =
     (if v4 < cp_network p then Ok best
      else if 32 < cp_mask_len p then Panic
      else
        let host_bits = 32 - unat (cp_mask_len p);
            net_size = (if host_bits = 32 then - 1 else push_bit host_bits 1 - 1) :: u32
        in if v4 \<le> saturating_add32 (cp_network p) net_size
           then (case best of
                   None \<Rightarrow> Ok (Some (cp_mask_len p, cp_region_idx p))
                 | Some (m, _) \<Rightarrow>
                     if m < cp_mask_len p then Ok (Some (cp_mask_len p, cp_region_idx p)) else Ok best)
           else Ok best)"

fun scan_back :: "compiled_prefix list \<Rightarrow> u32 \<Rightarrow> nat \<Rightarrow> nat list \<Rightarrow> (u8 \<times> u32) option
    \<Rightarrow> ((u8 \<times> u32) option, 'e) rs" where
  "scan_back ps v4 idx [] best = Ok best"
| "scan_back ps v4 idx (back # bs) best =
     rs_bind (index ps (idx - back)) (\<lambda>p.
     rs_bind (scan_prefix v4 p best) (scan_back ps v4 idx bs))"

definition region_for :: "aws_lookup \<Rightarrow> ip_addr \<Rightarrow> (string option, 'e) rs" where
  "region_for L ip =
     (case ip of
        V6 _ \<Rightarrow> Ok None
      | V4 a \<Rightarrow>
          let v4 = from_be_bytes (octets (V4 a));
              idx = (case binary_search_by_key v4 cp_network (al_prefixes L) of
                       Ok i \<Rightarrow> i | Err i \<Rightarrow> i - 1 | Panic \<Rightarrow> 0)
          in rs_bind (scan_back (al_prefixes L) v4 idx [0..<min 32 (idx + 1)] None) (\<lambda>best.
             case best of
               None \<Rightarrow> Ok None
             | Some (_, r) \<Rightarrow> rs_bind (index (al_regions L) (unat r)) (\<lambda>s. Ok (Some s))))"

definition region_count :: "aws_lookup \<Rightarrow> nat" where
  "region_count L = length (al_regions L)"

definition prefix_count :: "aws_lookup \<Rightarrow> nat" where
  "prefix_count L = length (al_prefixes L)"

section \<open>The binary search\<close>

lemma bs_loop_spec:
  assumes "sorted (map f xs)" and "0 < n" and "base + n \<le> length xs"
    and "base = 0 \<or> f (xs ! base) \<le> k"
    and "\<forall>j. base + n \<le> j \<and> j < length xs \<longrightarrow> k < f (xs ! j)"
  shows "bs_loop f xs k base n < length xs
    \<and> (bs_loop f xs k base n = 0 \<or> f (xs ! bs_loop f xs k base n) \<le> k)
    \<and> (\<forall>j. bs_loop f xs k base n < j \<and> j < length xs \<longrightarrow> k < f (xs ! j))"
  using assms
proof (induction f xs k base n rule: bs_loop.induct)
  case (1 f xs k base n)
  show ?case
  proof (cases "1 < n")
    case False
    then show ?thesis using "1.prems" by (subst (1 2 3 4) bs_loop.simps) auto
  next
    case True
    let ?mid = "base + n div 2"
    let ?base = "if k < f (xs ! ?mid) then base else ?mid"
    have above: "k < f (xs ! j)" if "k < f (xs ! ?mid)" "?mid \<le> j" "j < length xs" for j
      using sorted_nth_mono [OF "1.prems"(1), of ?mid j] that by simp
    have "?base + (n - n div 2) \<le> j \<and> j < length xs \<longrightarrow> k < f (xs ! j)" for j
      using above [of j] "1.prems"(5) True by (auto split: if_splits)
    then have beyond: "\<forall>j. ?base + (n - n div 2) \<le> j \<and> j < length xs \<longrightarrow> k < f (xs ! j)"
      by blast
    have pos: "0 < n - n div 2" and bound: "?base + (n - n div 2) \<le> length xs"
      using True "1.prems"(3) by auto
    have at: "?base = 0 \<or> f (xs ! ?base) \<le> k"
      using "1.prems"(4) by (auto simp: not_less)
    have step: "bs_loop f xs k base n = bs_loop f xs k ?base (n - n div 2)"
      using True by (subst bs_loop.simps) (simp add: Let_def)
    show ?thesis
      unfolding step by (rule "1.IH" [OF True refl refl "1.prems"(1) pos bound at beyond])
  qed
qed

definition search_index :: "(nat, nat) rs \<Rightarrow> nat" where
  "search_index r = (case r of Ok i \<Rightarrow> i | Err i \<Rightarrow> i - 1 | Panic \<Rightarrow> 0)"

lemma search_index_spec:
  fixes f :: "'a \<Rightarrow> 'k::linorder" and k :: 'k
  assumes "sorted (map f xs)" and "xs \<noteq> []"
  defines "i \<equiv> search_index (binary_search_by_key k f xs)"
  shows "i < length xs" and "i = 0 \<or> f (xs ! i) \<le> k"
    and "\<And>j. i < j \<Longrightarrow> j < length xs \<Longrightarrow> k < f (xs ! j)"
proof -
  let ?b = "bs_loop f xs k 0 (length xs)"
  have b: "?b < length xs \<and> (?b = 0 \<or> f (xs ! ?b) \<le> k) \<and> (\<forall>j. ?b < j \<and> j < length xs \<longrightarrow> k < f (xs ! j))"
    using assms(1,2) by (intro bs_loop_spec) auto
  have "i = ?b"
    using assms(2) b by (auto simp: i_def search_index_def binary_search_by_key_def Let_def)
  then show "i < length xs" "i = 0 \<or> f (xs ! i) \<le> k"
    "\<And>j. i < j \<Longrightarrow> j < length xs \<Longrightarrow> k < f (xs ! j)"
    using b by auto
qed

section \<open>Prefixes\<close>

text \<open>
  An address belongs to a prefix when their leading \<open>mask_len\<close> bits agree.  A well-formed prefix
  has at most 32 of them and no host bits set.
\<close>

definition covers :: "u32 \<Rightarrow> u8 \<Rightarrow> u32 \<Rightarrow> bool" where
  "covers net m v \<longleftrightarrow> drop_bit (32 - unat m) v = drop_bit (32 - unat m) net"

definition aligned :: "u32 \<Rightarrow> u8 \<Rightarrow> bool" where
  "aligned net m \<longleftrightarrow> m \<le> 32 \<and> push_bit (32 - unat m) (drop_bit (32 - unat m) net) = net"

lemma unat_drop_bit_u32: "unat (drop_bit h (a :: u32)) = unat a div 2 ^ h"
  by (simp only: unat_drop_bit_eq) (rule drop_bit_eq_div)

lemma aligned_dvd: "aligned net m \<Longrightarrow> 2 ^ (32 - unat m) dvd unat net"
proof -
  assume a: "aligned net m"
  let ?h = "32 - unat m"
  have "unat net = unat (push_bit ?h (drop_bit ?h net))"
    using a by (simp add: aligned_def)
  also have "\<dots> = (unat net div 2 ^ ?h * 2 ^ ?h) mod 2 ^ 32"
    by (subst unsigned_push_bit_eq, simp only: push_bit_eq_mult take_bit_eq_mod unat_drop_bit_u32) simp
  also have "\<dots> = unat net div 2 ^ ?h * 2 ^ ?h"
    using unat_u32_lt [of net]
    by (intro mod_less order_le_less_trans [OF div_times_less_eq_dividend]) simp
  finally show "2 ^ ?h dvd unat net"
    by (metis dvd_triv_right)
qed

lemma covers_nat: "covers net m v \<longleftrightarrow> unat v div 2 ^ (32 - unat m) = unat net div 2 ^ (32 - unat m)"
  by (simp add: covers_def word_unat_eq_iff unat_drop_bit_u32)

lemma covers_range:
  assumes "aligned net m"
  shows "covers net m v \<longleftrightarrow> unat net \<le> unat v \<and> unat v \<le> unat net + (2 ^ (32 - unat m) - 1)"
proof -
  obtain q where q: "unat net = q * 2 ^ (32 - unat m)"
    using aligned_dvd [OF assms] by (metis dvd_def mult.commute)
  have pos: "(0 :: nat) < 2 ^ (32 - unat m)" by simp
  have "unat v div 2 ^ (32 - unat m) = q \<longleftrightarrow> q * 2 ^ (32 - unat m) \<le> unat v \<and> unat v < Suc q * 2 ^ (32 - unat m)"
    using less_eq_div_iff_mult_less_eq [OF pos, of q "unat v"] div_less_iff_less_mult [OF pos, of "unat v" "Suc q"]
    by linarith
  moreover have "unat v < Suc q * 2 ^ (32 - unat m) \<longleftrightarrow> unat v \<le> unat net + (2 ^ (32 - unat m) - 1)"
    unfolding q using pos by (cases "2 ^ (32 - unat m) :: nat") auto
  ultimately show ?thesis by (simp add: covers_nat q)
qed

lemma unat_saturating_add32: "unat (saturating_add32 a b) = min (unat a + unat b) (2 ^ 32 - 1)"
  using unsigned_less [of a] unsigned_less [of b]
proof -
  have "uint a + uint b < 2 ^ 32 \<longleftrightarrow> unat a + unat b < 2 ^ 32"
    using of_nat_less_iff [of "unat a + unat b" "2 ^ 32", where 'a = int] by simp
  moreover have "unat (- 1 :: u32) = 2 ^ 32 - 1"
    by (simp add: unsigned_minus_1_eq_mask mask_eq_exp_minus_1)
  ultimately show ?thesis
    using unat_u32_lt [of a] unat_u32_lt [of b] by (auto simp: saturating_add32_def unat_word_ariths)
qed

section \<open>The walk back\<close>

definition prefix_wf :: "compiled_prefix \<Rightarrow> bool" where
  "prefix_wf p \<longleftrightarrow> aligned (cp_network p) (cp_mask_len p)"

definition covers_p :: "compiled_prefix \<Rightarrow> u32 \<Rightarrow> bool" where
  "covers_p p v \<longleftrightarrow> covers (cp_network p) (cp_mask_len p) v"

lemma mask_len_le_32: "aligned net m \<Longrightarrow> unat m \<le> 32"
  by (simp add: aligned_def word_le_nat_alt)

lemma scan_prefix_eq:
  assumes wf: "prefix_wf p"
  shows "scan_prefix v p best =
    Ok (if covers_p p v \<and> (case best of None \<Rightarrow> True | Some (m, _) \<Rightarrow> m < cp_mask_len p)
        then Some (cp_mask_len p, cp_region_idx p) else best)"
proof -
  let ?h = "32 - unat (cp_mask_len p)"
  let ?size = "(if ?h = 32 then - 1 else push_bit ?h 1 - 1) :: u32"
  have al: "aligned (cp_network p) (cp_mask_len p)"
    using wf by (simp add: prefix_wf_def)
  have size: "unat ?size = 2 ^ ?h - 1"
  proof (cases "?h = 32")
    case True
    then show ?thesis by (simp add: unsigned_minus_1_eq_mask mask_eq_exp_minus_1)
  next
    case False
    then have "?h < 32" by simp
    then have "(2 :: nat) ^ ?h < 2 ^ 32" by (rule power_strict_increasing) simp
    then have "(2 :: nat) ^ ?h - 1 < 2 ^ LENGTH(32)" by simp
    then have m: "((2 :: nat) ^ ?h - 1) mod 2 ^ LENGTH(32) = 2 ^ ?h - 1" by (rule mod_less)
    have w: "(push_bit ?h 1 - 1 :: u32) = of_nat (2 ^ ?h - 1)"
      by (simp add: of_nat_diff push_bit_eq_mult)
    have "unat (push_bit ?h 1 - 1 :: u32) = 2 ^ ?h - 1"
      by (simp only: w unat_of_nat m)
    then show ?thesis using False by (simp only: if_False)
  qed
  have "v \<le> saturating_add32 (cp_network p) ?size \<longleftrightarrow> unat v \<le> unat (cp_network p) + (2 ^ ?h - 1)"
    unfolding word_le_nat_alt unat_saturating_add32 size using unat_u32_lt [of v] by (simp add: min_def)
  then have "covers_p p v \<longleftrightarrow> \<not> v < cp_network p \<and> v \<le> saturating_add32 (cp_network p) ?size"
    by (simp add: covers_p_def covers_range [OF al] word_le_nat_alt not_less)
  moreover have "\<not> 32 < cp_mask_len p"
    using al by (simp add: aligned_def not_less)
  ultimately show ?thesis
    by (auto simp: scan_prefix_def Let_def split: option.splits)
qed

text \<open>
  Prefixes that cover one address are nested, so in the table's order a later one has the longer
  mask: the walk back meets the most specific prefix first.
\<close>

definition table_wf :: "compiled_prefix list \<Rightarrow> bool" where
  "table_wf ps \<longleftrightarrow> sorted (map sort_key_of ps) \<and> (\<forall>p \<in> set ps. prefix_wf p)"

lemma covers_nested:
  assumes "aligned n m" and "aligned n' m'" and "covers n m v" and "covers n' m' v"
    and "PKey n m \<le> PKey n' m'"
  shows "m \<le> m'"
proof (rule ccontr)
  assume "\<not> m \<le> m'"
  then have lt: "unat m' < unat m" by (simp add: word_less_nat_alt not_le)
  obtain d where d: "32 - unat m' = (32 - unat m) + d"
    using lt mask_len_le_32 [OF assms(1)] by (metis diff_le_mono2 le_add_diff_inverse less_imp_le)
  have "unat v div 2 ^ (32 - unat m') = unat n div 2 ^ (32 - unat m')"
    using assms(3) by (simp add: covers_nat d power_add div_mult2_eq)
  then have eq: "unat n' div 2 ^ (32 - unat m') = unat n div 2 ^ (32 - unat m')"
    using assms(4) by (simp add: covers_nat)
  have "unat n' = unat n' div 2 ^ (32 - unat m') * 2 ^ (32 - unat m')"
    using aligned_dvd [OF assms(2)] by simp
  also have "\<dots> \<le> unat n"
    by (simp add: eq)
  finally have "n' \<le> n" by (simp add: word_le_nat_alt)
  then show False
    using assms(5) \<open>\<not> m \<le> m'\<close> by auto
qed

lemma covers_index_mono:
  assumes "table_wf ps" and "i \<le> j" and "j < length ps" and "covers_p (ps ! i) v" and "covers_p (ps ! j) v"
  shows "cp_mask_len (ps ! i) \<le> cp_mask_len (ps ! j)"
proof -
  have "sort_key_of (ps ! i) \<le> sort_key_of (ps ! j)"
    using assms sorted_nth_mono [of "map sort_key_of ps" i j] by (simp add: table_wf_def)
  then show ?thesis
    using assms unfolding sort_key_of_def
    by (intro covers_nested [of "cp_network (ps ! i)" _ "cp_network (ps ! j)" _ v])
      (auto simp: table_wf_def prefix_wf_def covers_p_def)
qed

text \<open>Once something is found, everything further back is less specific and is ignored.\<close>

lemma scan_back_done:
  assumes "table_wf ps" and "idx < length ps" and "j \<le> idx" and "covers_p (ps ! j) v"
    and "\<forall>b \<in> set bs. idx - b \<le> j"
  shows "scan_back ps v idx bs (Some (cp_mask_len (ps ! j), r)) = Ok (Some (cp_mask_len (ps ! j), r))"
  using assms(5)
proof (induction bs)
  case (Cons b bs)
  let ?i = "idx - b"
  have "?i < length ps" using assms(2) by simp
  moreover have "\<not> (covers_p (ps ! ?i) v \<and> cp_mask_len (ps ! j) < cp_mask_len (ps ! ?i))"
    using covers_index_mono [OF assms(1), of ?i j v] Cons.prems assms by (auto simp: not_less)
  moreover have "prefix_wf (ps ! ?i)"
    using assms(1) \<open>?i < length ps\<close> by (simp add: table_wf_def)
  ultimately show ?case
    using Cons by (auto simp: rs_simps scan_prefix_eq)
qed simp

lemma scan_back_find:
  assumes "table_wf ps" and "idx < length ps" and "sorted_wrt (\<lambda>b c. b \<le> c) bs" and "\<forall>b \<in> set bs. b \<le> idx"
  shows "scan_back ps v idx bs None =
    Ok (map_option (\<lambda>i. (cp_mask_len (ps ! i), cp_region_idx (ps ! i)))
          (find (\<lambda>i. covers_p (ps ! i) v) (map (\<lambda>b. idx - b) bs)))"
  using assms(3,4)
proof (induction bs)
  case (Cons b bs)
  let ?i = "idx - b"
  have i: "?i < length ps" using assms(2) by simp
  then have wf: "prefix_wf (ps ! ?i)" using assms(1) by (simp add: table_wf_def)
  have "\<forall>c \<in> set bs. idx - c \<le> ?i" using Cons.prems by auto
  then show ?case
    using Cons i by (auto simp: rs_simps scan_prefix_eq [OF wf] scan_back_done [OF assms(1,2)])
qed simp

lemma find_down:
  assumes "j \<le> idx" and "P j" and "\<forall>i. j < i \<and> i \<le> idx \<longrightarrow> \<not> P i"
  shows "find P (map (\<lambda>b. idx - b) [0..<min n (idx + 1)]) = (if idx - j < n then Some j else None)"
proof (cases "idx - j < n")
  case True
  then have "idx - j < length (map (\<lambda>b. idx - b) [0..<min n (idx + 1)])"
    using assms(1) by simp
  then show ?thesis
    using True assms by (auto simp: find_Some_iff intro!: exI [of _ "idx - j"])
next
  case False
  have "\<not> P (idx - b)" if "b < min n (idx + 1)" for b
    using assms False that by auto
  then show ?thesis using False by (auto simp: find_None_iff)
qed

lemma find_walk: "find P (map (\<lambda>b. k - b) bs) = Some i \<Longrightarrow> P i \<and> i \<le> (k :: nat)"
  by (auto simp: find_Some_iff)

section \<open>The compiled table\<close>

text \<open>
  \<open>compiled_from raw p\<close>: the entry comes from a prefix of the snapshot, and the region table
  names that prefix's region at the entry's index.
\<close>

definition compiled_from :: "prefix list \<Rightarrow> string list \<Rightarrow> compiled_prefix \<Rightarrow> bool" where
  "compiled_from raw regions c \<longleftrightarrow>
     unat (cp_region_idx c) < length regions \<and>
     (\<exists>p \<in> set raw. parse_cidr (ip_prefix p) = Some (cp_network c, cp_mask_len c)
        \<and> regions ! unat (cp_region_idx c) = region p)"

definition interned :: "(string, u32) hmap \<Rightarrow> string list \<Rightarrow> bool" where
  "interned m regions \<longleftrightarrow>
     (\<forall>r i. hm_get m r = Some i \<longrightarrow> unat i < length regions \<and> regions ! unat i = r)"

lemma intern_region_spec:
  assumes "interned m regions" and "length regions < 2 ^ 32" and "intern_region r m regions = (i, m', regions')"
  shows "interned m' regions' \<and> unat i < length regions' \<and> regions' ! unat i = r
    \<and> (\<exists>extra. regions' = regions @ extra \<and> length extra \<le> 1)"
proof (cases "hm_get m r")
  case None
  have "unat (of_nat (length regions) :: u32) = length regions"
    using assms(2) by (simp add: unat_of_nat)
  then show ?thesis
    using assms None
    by (auto simp: intern_region_def Let_def interned_def nth_append less_SucI update_Some_unfold update_conv
        split: if_splits)
next
  case (Some j)
  then show ?thesis
    using assms by (auto simp: intern_region_def interned_def)
qed

lemma parse_cidr_aligned:
  assumes "parse_cidr s = Some (net, m)"
  shows "aligned net m"
proof -
  obtain a where m: "m \<le> 32"
    and net: "net = a AND (if m = 0 then 0 else push_bit (unat (32 - m)) (- 1))"
    using assms by (auto simp: parse_cidr_def Let_def not_less split: option.splits if_splits)
  have h: "unat (32 - m) = 32 - unat m"
    using m by (simp add: unat_sub)
  show ?thesis
  proof (cases "m = 0")
    case True
    then show ?thesis using net by (simp add: aligned_def)
  next
    case False
    have "push_bit (32 - unat m) (drop_bit (32 - unat m) net) = net"
    proof (rule bit_word_eqI)
      fix k :: nat
      assume "k < LENGTH(32)"
      then show "bit (push_bit (32 - unat m) (drop_bit (32 - unat m) net)) k = bit net k"
        using False by (auto simp: net h bit_push_bit_iff bit_drop_bit_eq bit_and_iff bit_not_iff bit_mask_iff)
    qed
    then show ?thesis using m by (simp add: aligned_def)
  qed
qed

lemma compile_loop_spec:
  assumes "compile_loop ps m regions compiled = (regions', compiled')"
    and "interned m regions" and "length regions + length ps < 2 ^ 32"
    and "\<forall>c \<in> set compiled. compiled_from raw regions c" and "set ps \<subseteq> set raw"
  shows "(\<forall>c \<in> set compiled'. compiled_from raw regions' c)
    \<and> (\<forall>p \<in> set ps. \<forall>net l. parse_cidr (ip_prefix p) = Some (net, l) \<longrightarrow>
         (\<exists>c \<in> set compiled'. cp_network c = net \<and> cp_mask_len c = l \<and> regions' ! unat (cp_region_idx c) = region p))
    \<and> set compiled \<subseteq> set compiled' \<and> (\<exists>extra. regions' = regions @ extra)"
  using assms
proof (induction ps m regions compiled rule: compile_loop.induct)
  case (1 m regions compiled)
  then show ?case by simp
next
  case (2 p ps m regions compiled)
  show ?case
  proof (cases "parse_cidr (ip_prefix p)")
    case None
    then show ?thesis using 2 by auto
  next
    case (Some nl)
    obtain net l where nl: "nl = (net, l)" by fastforce
    obtain i m1 r1 where int: "intern_region (region p) m regions = (i, m1, r1)"
      by (metis prod_cases3)
    let ?c = "\<lparr>cp_network = net, cp_mask_len = l, cp_region_idx = i\<rparr>"
    have spec: "interned m1 r1" "unat i < length r1" "r1 ! unat i = region p"
      "\<exists>extra. r1 = regions @ extra \<and> length extra \<le> 1"
      using intern_region_spec [OF "2.prems"(2) _ int] "2.prems"(3) by auto
    have "compiled_from raw r1 ?c"
      using spec Some nl "2.prems"(5) by (auto simp: compiled_from_def)
    moreover have "compiled_from raw r1 c" if "compiled_from raw regions c" for c
      using that spec(4) by (auto simp: compiled_from_def nth_append)
    ultimately have entries: "\<forall>c \<in> set (compiled @ [?c]). compiled_from raw r1 c"
      using "2.prems"(4) by auto
    have run: "compile_loop ps m1 r1 (compiled @ [?c]) = (regions', compiled')"
      using "2.prems"(1) Some nl int by simp
    have len: "length r1 + length ps < 2 ^ 32"
      using spec(4) "2.prems"(3) by auto
    have IH: "(\<forall>c \<in> set compiled'. compiled_from raw regions' c)
      \<and> (\<forall>p \<in> set ps. \<forall>net l. parse_cidr (ip_prefix p) = Some (net, l) \<longrightarrow>
         (\<exists>c \<in> set compiled'. cp_network c = net \<and> cp_mask_len c = l \<and> regions' ! unat (cp_region_idx c) = region p))
      \<and> set (compiled @ [?c]) \<subseteq> set compiled' \<and> (\<exists>extra. regions' = r1 @ extra)"
      by (rule "2.IH"(2) [OF Some nl [symmetric] int [symmetric] refl refl run spec(1) len entries]) (use "2.prems"(5) in auto)
    moreover from IH have "regions' ! unat i = region p" and "?c \<in> set compiled'"
      using spec(2,3) by (auto simp: nth_append)
    ultimately show ?thesis
      using Some nl spec(4) by (auto intro!: bexI [of _ ?c])
  qed
qed

lemma same_prefix_eq: "same_prefix a b \<longleftrightarrow> a = (b :: compiled_prefix)"
  by (auto simp: same_prefix_def)

lemma dedup_by_same: "dedup_by same_prefix xs = remdups_adj xs"
  by (induction xs rule: remdups_adj.induct) (auto simp: same_prefix_eq)

lemma sorted_map_remdups_adj: "sorted (map f xs) \<Longrightarrow> sorted (map f (remdups_adj xs))"
  by (induction xs rule: remdups_adj.induct) auto

text \<open>What \<open>load_bundled\<close> guarantees of the table it builds.\<close>

lemma load_bundled_spec:
  assumes "length (ar_prefixes raw) < 2 ^ 32"
  defines "L \<equiv> load_bundled raw"
  shows "table_wf (al_prefixes L)"
    and "\<forall>c \<in> set (al_prefixes L). compiled_from (ar_prefixes raw) (al_regions L) c"
    and "\<forall>p \<in> set (ar_prefixes raw). \<forall>net l. parse_cidr (ip_prefix p) = Some (net, l) \<longrightarrow>
      (\<exists>c \<in> set (al_prefixes L). cp_network c = net \<and> cp_mask_len c = l
        \<and> al_regions L ! unat (cp_region_idx c) = region p)"
proof -
  obtain regions compiled where run: "compile_loop (ar_prefixes raw) [] [] [] = (regions, compiled)"
    by fastforce
  have L: "al_regions L = regions" "al_prefixes L = remdups_adj (sort_key sort_key_of compiled)"
    by (simp_all add: L_def load_bundled_def run dedup_by_same)
  note spec = compile_loop_spec [OF run, of "ar_prefixes raw"]
  have spec: "\<forall>c \<in> set compiled. compiled_from (ar_prefixes raw) regions c"
    "\<forall>p \<in> set (ar_prefixes raw). \<forall>net l. parse_cidr (ip_prefix p) = Some (net, l) \<longrightarrow>
      (\<exists>c \<in> set compiled. cp_network c = net \<and> cp_mask_len c = l \<and> regions ! unat (cp_region_idx c) = region p)"
    using spec assms(1) by (simp_all add: interned_def)
  show "table_wf (al_prefixes L)"
    using spec(1) parse_cidr_aligned
    by (auto simp: table_wf_def L sorted_map_remdups_adj prefix_wf_def compiled_from_def)
  show "\<forall>c \<in> set (al_prefixes L). compiled_from (ar_prefixes raw) (al_regions L) c"
    using spec(1) by (simp add: L)
  show "\<forall>p \<in> set (ar_prefixes raw). \<forall>net l. parse_cidr (ip_prefix p) = Some (net, l) \<longrightarrow>
      (\<exists>c \<in> set (al_prefixes L). cp_network c = net \<and> cp_mask_len c = l
        \<and> al_regions L ! unat (cp_region_idx c) = region p)"
    using spec(2) by (simp add: L)
qed

section \<open>Looking an address up\<close>

text \<open>
  On a well-formed table the lookup is: go to the last entry whose network is not above the
  address, and take the first covering entry among it and the 31 entries before it.
\<close>

definition last_le :: "compiled_prefix list \<Rightarrow> u32 \<Rightarrow> nat" where
  "last_le ps v = search_index (binary_search_by_key v cp_network ps)"

lemma sorted_networks:
  assumes "table_wf ps"
  shows "sorted (map cp_network ps)"
proof -
  have mono: "sort_key_of p \<le> sort_key_of q \<Longrightarrow> cp_network p \<le> cp_network q" for p q
    by (auto simp: sort_key_of_def)
  have "sorted_wrt (\<lambda>p q. sort_key_of p \<le> sort_key_of q) ps"
    using assms by (simp add: table_wf_def sorted_map)
  then show ?thesis
    using mono by (auto simp: sorted_map elim!: sorted_wrt_mono_rel [rotated])
qed

lemmas last_le_spec = search_index_spec [OF sorted_networks, folded last_le_def]

lemma region_for_eq:
  fixes L
  defines "ps \<equiv> al_prefixes L"
  assumes wf: "table_wf ps" and ne: "ps \<noteq> []"
    and idx: "\<forall>p \<in> set ps. unat (cp_region_idx p) < length (al_regions L)"
  shows "region_for L (V4 a) = Ok (map_option (\<lambda>i. al_regions L ! unat (cp_region_idx (ps ! i)))
    (find (\<lambda>i. covers_p (ps ! i) a) (map (\<lambda>b. last_le ps a - b) [0..<min 32 (last_le ps a + 1)])))"
proof -
  let ?i = "last_le ps a"
  let ?found = "find (\<lambda>i. covers_p (ps ! i) a) (map (\<lambda>b. ?i - b) [0..<min 32 (?i + 1)])"
  have i: "?i < length ps" by (rule last_le_spec(1) [OF wf ne])
  have scan: "scan_back ps a ?i [0..<min 32 (?i + 1)] None
    = Ok (map_option (\<lambda>i. (cp_mask_len (ps ! i), cp_region_idx (ps ! i))) ?found)"
    by (rule scan_back_find [OF wf i]) (auto simp del: upt_Suc)
  have found: "i < length ps" if "?found = Some i" for i
    using find_walk [OF that] i by simp
  have idx_def: "(case binary_search_by_key a cp_network ps of Ok i \<Rightarrow> i | Err i \<Rightarrow> i - 1 | Panic \<Rightarrow> 0) = ?i"
    by (simp add: last_le_def search_index_def)
  show ?thesis
    unfolding region_for_def ps_def [symmetric] ip_addr.case octets.simps from_be_to_be_widths Let_def idx_def scan
    using found idx by (cases ?found) (auto simp: index_def)
qed

text \<open>No covering entry lies above the entry the search stops at.\<close>

lemma covers_le: "prefix_wf p \<Longrightarrow> covers_p p v \<Longrightarrow> cp_network p \<le> v"
  by (simp add: covers_p_def covers_range prefix_wf_def word_le_nat_alt)

lemma later_entries:
  assumes wf: "table_wf ps" and "j < length ps" and "cp_network (ps ! j) \<le> v"
  shows "j \<le> last_le ps v"
    and "length (filter (\<lambda>p. cp_network p \<le> v) (drop (Suc j) ps)) = last_le ps v - j"
proof -
  let ?i = "last_le ps v"
  have ne: "ps \<noteq> []" using assms(2) by auto
  note spec = last_le_spec [OF wf ne, of v]
  show le: "j \<le> ?i"
    using spec(3) [of j] assms(2,3) by (cases "?i < j") auto
  have low: "cp_network (ps ! k) \<le> v" if "k \<le> ?i" for k
  proof (cases "?i = 0")
    case True
    then show ?thesis using that le assms(3) by simp
  next
    case False
    then show ?thesis
      using spec(1,2) that sorted_nth_mono [OF sorted_networks [OF wf], of k ?i] by fastforce
  qed
  have "filter (\<lambda>p. cp_network p \<le> v) (take (?i - j) (drop (Suc j) ps)) = take (?i - j) (drop (Suc j) ps)"
  proof (rule filter_True)
    show "\<forall>x \<in> set (take (?i - j) (drop (Suc j) ps)). cp_network x \<le> v"
      using low by (auto simp: in_set_conv_nth)
  qed
  moreover have "filter (\<lambda>p. cp_network p \<le> v) (drop (?i - j) (drop (Suc j) ps)) = []"
  proof (rule filter_False)
    show "\<forall>x \<in> set (drop (?i - j) (drop (Suc j) ps)). \<not> cp_network x \<le> v"
      using spec(3) le by (auto simp: in_set_drop_iff not_le)
  qed
  ultimately have "filter (\<lambda>p. cp_network p \<le> v) (drop (Suc j) ps) = take (?i - j) (drop (Suc j) ps)"
    by (metis append.right_neutral append_take_drop_id filter_append)
  then show "length (filter (\<lambda>p. cp_network p \<le> v) (drop (Suc j) ps)) = ?i - j"
    using spec(1) le by simp
qed

text \<open>The window, stated on the table: 31 entries between a prefix and the address hide it.\<close>

lemma region_for_window:
  fixes L
  defines "ps \<equiv> al_prefixes L"
  assumes wf: "table_wf ps"
    and idx: "\<forall>p \<in> set ps. unat (cp_region_idx p) < length (al_regions L)"
    and j: "j < length ps" "covers_p (ps ! j) v" "\<forall>p \<in> set (drop (Suc j) ps). \<not> covers_p p v"
  shows "region_for L (V4 v) =
    Ok (if length (filter (\<lambda>p. cp_network p \<le> v) (drop (Suc j) ps)) < 32
        then Some (al_regions L ! unat (cp_region_idx (ps ! j))) else None)"
proof -
  have ne: "ps \<noteq> []" using j(1) by auto
  have net: "cp_network (ps ! j) \<le> v"
    using wf j(1,2) by (auto simp: table_wf_def intro: covers_le)
  note later = later_entries [OF wf j(1) net]
  have none: "\<forall>i. j < i \<and> i \<le> last_le ps v \<longrightarrow> \<not> covers_p (ps ! i) v"
  proof (intro allI impI)
    fix i
    assume "j < i \<and> i \<le> last_le ps v"
    then have "ps ! i \<in> set (drop (Suc j) ps)"
      using last_le_spec(1) [OF wf ne, of v] by (auto simp: in_set_drop_iff Suc_le_eq intro!: exI [of _ i])
    then show "\<not> covers_p (ps ! i) v" using j(3) by blast
  qed
  show ?thesis
    unfolding region_for_eq [OF wf [unfolded ps_def] ne [unfolded ps_def] idx [unfolded ps_def], folded ps_def]
      find_down [OF later(1) j(2) none] later(2) by simp
qed

lemma last_covering:
  assumes "p \<in> set ps" and "covers_p p v"
  obtains j where "j < length ps" and "covers_p (ps ! j) v" and "\<forall>q \<in> set (drop (Suc j) ps). \<not> covers_p q v"
proof -
  obtain xs y zs where "ps = xs @ y # zs" "covers_p y v" "\<forall>z \<in> set zs. \<not> covers_p z v"
    using split_list_last_prop [of ps "\<lambda>q. covers_p q v"] assms by blast
  then show ?thesis by (intro that [of "length xs"]) auto
qed

lemma load_region_idx:
  assumes "length (ar_prefixes raw) < 2 ^ 32"
  shows "\<forall>p \<in> set (al_prefixes (load_bundled raw)).
    unat (cp_region_idx p) < length (al_regions (load_bundled raw))"
  using load_bundled_spec(2) [OF assms] by (simp add: compiled_from_def)

lemma covering_entry:
  assumes "length (ar_prefixes raw) < 2 ^ 32" and "p \<in> set (ar_prefixes raw)"
    and "parse_cidr (ip_prefix p) = Some (net, l)" and "covers net l v"
  obtains c where "c \<in> set (al_prefixes (load_bundled raw))" and "covers_p c v" and "cp_mask_len c = l"
  using load_bundled_spec(3) [OF assms(1)] assms(2-) unfolding covers_p_def by blast

section \<open>Properties\<close>

definition nested_sample :: aws_ranges where
  "nested_sample = \<lparr>ar_sync_token = ''1'', ar_create_date = ''2'', ar_prefixes =
    [\<lparr>ip_prefix = ''10.1.0.0/16'', region = ''eu-west-1'', service = ''EC2''\<rparr>,
     \<lparr>ip_prefix = ''bad'', region = ''eu-west-3'', service = ''EC2''\<rparr>,
     \<lparr>ip_prefix = ''10.0.0.0/8'', region = ''us-east-1'', service = ''EC2''\<rparr>]\<rparr>"

lemma nested_sample_region:
  "region_for (load_bundled nested_sample) (V4 167837696) = (Ok (Some ''eu-west-1'') :: (string option, unit) rs)"
  by code_simp

text \<open>C25: A region answered is right.  Whenever the lookup names a region for an IPv4 address, some
  prefix of the snapshot contains the address and belongs to that region, and no prefix of the
  snapshot that contains the address is more specific.\<close>

theorem region_for_longest_prefix:
  assumes "length (ar_prefixes raw) < 2 ^ 32"
    and "region_for (load_bundled raw) (V4 v) = Ok (Some r)"
  shows "\<exists>p \<in> set (ar_prefixes raw). \<exists>net l. parse_cidr (ip_prefix p) = Some (net, l) \<and> covers net l v
    \<and> region p = r
    \<and> (\<forall>q \<in> set (ar_prefixes raw). \<forall>net' l'.
         parse_cidr (ip_prefix q) = Some (net', l') \<and> covers net' l' v \<longrightarrow> l' \<le> l)"
proof -
  let ?L = "load_bundled raw"
  let ?ps = "al_prefixes ?L"
  note wf = load_bundled_spec(1) [OF assms(1)] and idx = load_region_idx [OF assms(1)]
  have ne: "?ps \<noteq> []"
    using assms(2) by (auto simp: region_for_def binary_search_by_key_def index_def rs_simps)
  obtain i where i: "covers_p (?ps ! i) v" "i \<le> last_le ?ps v" "r = al_regions ?L ! unat (cp_region_idx (?ps ! i))"
    using assms(2) unfolding region_for_eq [OF wf ne idx] by (auto dest!: find_walk simp del: upt_Suc)
  then have "?ps ! i \<in> set ?ps"
    using last_le_spec(1) [OF wf ne, of v] by simp
  then obtain j where j: "j < length ?ps" "covers_p (?ps ! j) v" "\<forall>q \<in> set (drop (Suc j) ?ps). \<not> covers_p q v"
    by (rule last_covering [OF _ i(1)])
  have rj: "r = al_regions ?L ! unat (cp_region_idx (?ps ! j))"
    using assms(2) unfolding region_for_window [OF wf idx j] by (auto split: if_splits)
  have longest: "l' \<le> cp_mask_len (?ps ! j)"
    if q: "q \<in> set (ar_prefixes raw)" "parse_cidr (ip_prefix q) = Some (net', l')" "covers net' l' v" for q net' l'
  proof -
    obtain c where c: "c \<in> set ?ps" "covers_p c v" "cp_mask_len c = l'"
      by (rule covering_entry [OF assms(1) q])
    then obtain k where k: "k < length ?ps" "?ps ! k = c" by (auto simp: in_set_conv_nth)
    moreover have "k \<le> j"
      using j(3) c(2) k in_set_drop_iff [of c "Suc j" ?ps] by (metis not_less_eq_eq)
    ultimately show ?thesis
      using covers_index_mono [OF wf, of k j v] j c by simp
  qed
  have "compiled_from (ar_prefixes raw) (al_regions ?L) (?ps ! j)"
    using load_bundled_spec(2) [OF assms(1)] j(1) by simp
  then obtain p where "p \<in> set (ar_prefixes raw)" "region p = r"
    "parse_cidr (ip_prefix p) = Some (cp_network (?ps ! j), cp_mask_len (?ps ! j))"
    unfolding compiled_from_def rj by auto
  then show ?thesis
    using j(2) longest unfolding covers_p_def by blast
qed

theorem region_for_longest_prefix_witness:
  "\<exists>p \<in> set (ar_prefixes nested_sample). \<exists>net l. parse_cidr (ip_prefix p) = Some (net, l)
    \<and> covers net l 167837696 \<and> region p = ''eu-west-1''
    \<and> (\<forall>q \<in> set (ar_prefixes nested_sample). \<forall>net' l'.
         parse_cidr (ip_prefix q) = Some (net', l') \<and> covers net' l' 167837696 \<longrightarrow> l' \<le> l)"
  by (rule region_for_longest_prefix [OF _ nested_sample_region]) (simp add: nested_sample_def)

text \<open>C24: An address inside AWS space is found exactly when fewer than 32 table entries separate
  its most specific prefix from it.  If some prefix of the snapshot contains the address, take the
  last table entry that does: the lookup answers that entry's region when fewer than 32 later
  entries start at or below the address, and answers \<open>None\<close> otherwise.\<close>

theorem region_for_search_window:
  assumes "length (ar_prefixes raw) < 2 ^ 32" and "p \<in> set (ar_prefixes raw)"
    and "parse_cidr (ip_prefix p) = Some (net, l)" and "covers net l v"
  shows "\<exists>before c after. al_prefixes (load_bundled raw) = before @ c # after
    \<and> covers_p c v \<and> (\<forall>d \<in> set after. \<not> covers_p d v)
    \<and> region_for (load_bundled raw) (V4 v) =
        Ok (if length (filter (\<lambda>d. cp_network d \<le> v) after) < 32
            then Some (al_regions (load_bundled raw) ! unat (cp_region_idx c)) else None)"
proof -
  let ?ps = "al_prefixes (load_bundled raw)"
  obtain c where "c \<in> set ?ps" "covers_p c v"
    by (rule covering_entry [OF assms])
  then obtain j where j: "j < length ?ps" "covers_p (?ps ! j) v" "\<forall>q \<in> set (drop (Suc j) ?ps). \<not> covers_p q v"
    by (rule last_covering)
  show ?thesis
    using j id_take_nth_drop [OF j(1)]
      region_for_window [OF load_bundled_spec(1) [OF assms(1)] load_region_idx [OF assms(1)] j]
    by blast
qed

theorem region_for_search_window_witness:
  "\<exists>before c after. al_prefixes (load_bundled nested_sample) = before @ c # after
    \<and> covers_p c 167837696 \<and> (\<forall>d \<in> set after. \<not> covers_p d 167837696)
    \<and> region_for (load_bundled nested_sample) (V4 167837696) =
        (Ok (if length (filter (\<lambda>d. cp_network d \<le> 167837696) after) < 32
            then Some (al_regions (load_bundled nested_sample) ! unat (cp_region_idx c)) else None)
          :: (string option, unit) rs)"
proof (rule region_for_search_window)
  let ?p = "\<lparr>ip_prefix = ''10.1.0.0/16'', region = ''eu-west-1'', service = ''EC2''\<rparr>"
  show "length (ar_prefixes nested_sample) < 2 ^ 32" by (simp add: nested_sample_def)
  show "?p \<in> set (ar_prefixes nested_sample)" by (simp add: nested_sample_def)
  show "parse_cidr (ip_prefix ?p) = Some (167837696, 16)" by code_simp
  show "covers 167837696 16 167837696" by (simp add: covers_def)
qed

lemma table_empty_iff:
  assumes "length (ar_prefixes raw) < 2 ^ 32"
  shows "al_prefixes (load_bundled raw) = [] \<longleftrightarrow> (\<forall>p \<in> set (ar_prefixes raw). parse_cidr (ip_prefix p) = None)"
proof
  assume "al_prefixes (load_bundled raw) = []"
  then show "\<forall>p \<in> set (ar_prefixes raw). parse_cidr (ip_prefix p) = None"
    using load_bundled_spec(3) [OF assms] by (auto simp flip: not_Some_eq)
next
  assume "\<forall>p \<in> set (ar_prefixes raw). parse_cidr (ip_prefix p) = None"
  then show "al_prefixes (load_bundled raw) = []"
    using load_bundled_spec(2) [OF assms] by (cases "al_prefixes (load_bundled raw)") (auto simp: compiled_from_def)
qed

lemma region_for_panics_table:
  assumes "length (ar_prefixes raw) < 2 ^ 32"
  shows "region_for (load_bundled raw) (V4 v) = Panic \<longleftrightarrow> al_prefixes (load_bundled raw) = []"
proof (cases "al_prefixes (load_bundled raw) = []")
  case True
  then show ?thesis by (simp add: region_for_def binary_search_by_key_def index_def)
next
  case False
  then show ?thesis
    unfolding region_for_eq [OF load_bundled_spec(1) [OF assms] False load_region_idx [OF assms]] by simp
qed

text \<open>The lookup panics only on an empty table.  IPv6 addresses are always answered
  \<open>None\<close>; an IPv4 lookup indexes out of range exactly when no prefix of the snapshot parsed.\<close>

theorem region_for_panics_iff:
  assumes "length (ar_prefixes raw) < 2 ^ 32"
  shows "region_for (load_bundled raw) ip = Panic
    \<longleftrightarrow> is_ipv4 ip \<and> (\<forall>p \<in> set (ar_prefixes raw). parse_cidr (ip_prefix p) = None)"
  using region_for_panics_table [OF assms] table_empty_iff [OF assms]
  by (cases ip) (simp_all add: region_for_def [of _ "V6 _"])

theorem region_for_panics_iff_witness:
  "region_for (load_bundled nested_sample) (V4 167837696) = (Panic :: (string option, unit) rs)
    \<longleftrightarrow> is_ipv4 (V4 167837696) \<and> (\<forall>p \<in> set (ar_prefixes nested_sample). parse_cidr (ip_prefix p) = None)"
  by (rule region_for_panics_iff) (simp add: nested_sample_def)

end
