(* ===== verification/Lp_Aws_Data.thy ===== *)
theory Lp_Aws_Data
  imports Lp_Aws
begin

text \<open>The lookup of \<open>aws_regions.rs\<close> on a stretch of the bundled snapshot.\<close>

text \<open>
  A consecutive run of the bundled snapshot's sorted table (\<open>data/aws-ranges.json\<close>): 44.224.0.0/11
  and the 43 entries that follow it, up to 44.254.14.0/23.
\<close>

definition us_west_2_run :: aws_ranges where
  "us_west_2_run = \<lparr>ar_sync_token = [], ar_create_date = [], ar_prefixes =
    map (\<lambda>ip. \<lparr>ip_prefix = ip, region = ''us-west-2'', service = ''AMAZON''\<rparr>)
     [''44.224.0.0/11'', ''44.227.178.0/24'', ''44.233.54.0/23'', ''44.234.22.128/26'',
      ''44.234.28.0/22'', ''44.234.54.0/23'', ''44.234.73.116/30'', ''44.234.73.120/30'',
      ''44.234.90.252/30'', ''44.234.106.0/23'', ''44.234.108.128/25'', ''44.234.113.64/26'',
      ''44.234.123.64/26'', ''44.234.123.128/26'', ''44.242.143.180/31'', ''44.242.143.224/30'',
      ''44.242.143.242/31'', ''44.242.143.244/30'', ''44.242.143.248/31'', ''44.242.143.250/31'',
      ''44.242.143.252/30'', ''44.242.161.0/30'', ''44.242.161.4/31'', ''44.242.161.6/31'',
      ''44.242.161.8/31'', ''44.242.161.10/31'', ''44.242.161.12/30'', ''44.242.161.16/31'',
      ''44.242.161.20/30'', ''44.242.161.24/29'', ''44.242.176.192/26'', ''44.242.177.0/26'',
      ''44.242.177.64/26'', ''44.242.177.128/27'', ''44.242.178.0/24'', ''44.242.179.0/24'',
      ''44.242.180.0/24'', ''44.242.181.0/27'', ''44.242.181.32/28'', ''44.242.184.128/25'',
      ''44.247.17.0/24'', ''44.248.100.0/23'', ''44.248.111.192/26'', ''44.254.14.0/23'']\<rparr>"

text \<open>The walk back is too short for the bundled data.  44.254.16.0 lies in the snapshot's
  44.224.0.0/11 (us-west-2), but 43 narrower entries start in between, so the lookup says the
  address is not in AWS space.\<close>

theorem region_for_misses_covered_address:
  "parse_ipv4 ''44.254.16.0'' = Some 754847744
    \<and> parse_cidr ''44.224.0.0/11'' = Some (752877568, 11) \<and> covers 752877568 11 754847744
    \<and> region_for (load_bundled us_west_2_run) (V4 754847744) = (Ok None :: (string option, unit) rs)
    \<and> region_for (load_bundled us_west_2_run) (V4 752877568)
        = (Ok (Some ''us-west-2'') :: (string option, unit) rs)"
proof (intro conjI)
  show "parse_ipv4 ''44.254.16.0'' = Some 754847744" by code_simp
  show "parse_cidr ''44.224.0.0/11'' = Some (752877568, 11)" by code_simp
  show "covers 752877568 11 754847744" by code_simp
  show "region_for (load_bundled us_west_2_run) (V4 754847744) = (Ok None :: (string option, unit) rs)"
    by code_simp
  show "region_for (load_bundled us_west_2_run) (V4 752877568) = (Ok (Some ''us-west-2'') :: (string option, unit) rs)"
    by code_simp
qed

end
