(* ===== verification/Lp_Router.thy ===== *)
theory Lp_Router
  imports Lp_Aws Lp_F64
begin

text \<open>
  The route picker (\<open>crates/gr-client/src/router.rs\<close>): the bridge directory, the measured
  round-trip times, the per-address decision cache, the ring buffer of recent decisions, and
  \<open>pick\<close>.  Times are \<open>f64\<close> milliseconds; the clock is an argument.
\<close>

record bridge_entry =
  be_name :: string
  be_endpoint :: sock_addr
  be_bridge_x25519_pubkey_hex :: string
  be_license_token :: string
  be_listen_port :: u16
  be_region_rtt_ms :: "(string, f64) hmap"

datatype route = Direct | ViaBridge nat

record decision =
  dc_route :: route
  dc_decided_at :: instant
  dc_direct_rtt_ms :: f64
  dc_via_bridge_rtt_ms :: f64

record decision_log =
  dl_at :: instant
  dl_dest :: sock_addr
  dl_region :: "string option"
  dl_direct_rtt_ms :: f64
  dl_via_bridge_rtt_ms :: f64
  dl_route :: route
  dl_bridge_name :: "string option"

record router =
  rt_bridges :: "bridge_entry list"
  rt_client_to_bridge_ms :: "(string, f64) hmap"
  rt_aws :: aws_lookup
  rt_cache :: "(ip_addr, decision) hmap"
  rt_recent :: "decision_log list"
  rt_recent_capacity :: nat
  rt_margin_ms :: f64
  rt_reroute_interval :: int

definition router_new :: "aws_lookup \<Rightarrow> bridge_entry list \<Rightarrow> router" where
  "router_new aws bridges =
     \<lparr>rt_bridges = bridges, rt_client_to_bridge_ms = hm_empty, rt_aws = aws, rt_cache = hm_empty,
      rt_recent = [], rt_recent_capacity = 64, rt_margin_ms = Fin 2, rt_reroute_interval = secs 60\<rparr>"

definition recent_decisions :: "router \<Rightarrow> nat \<Rightarrow> decision_log list" where
  "recent_decisions R n = take n (rev (rt_recent R))"

definition client_rtt_snapshot :: "router \<Rightarrow> (string, f64) hmap" where
  "client_rtt_snapshot R = rt_client_to_bridge_ms R"

definition record_client_to_bridge :: "string \<Rightarrow> f64 \<Rightarrow> router \<Rightarrow> router" where
  "record_client_to_bridge bridge_name rtt_ms R =
     R\<lparr>rt_client_to_bridge_ms := hm_insert bridge_name rtt_ms (rt_client_to_bridge_ms R)\<rparr>"

definition cache_size :: "router \<Rightarrow> nat" where
  "cache_size R = hm_len (rt_cache R)"

section \<open>Picking a route\<close>

text \<open>The estimate for one bridge: \<open>None\<close> stands for the loop's \<open>continue\<close>.\<close>

definition via_total :: "string option \<Rightarrow> (string, f64) hmap \<Rightarrow> bridge_entry \<Rightarrow> f64 option" where
  "via_total rgn pings b =
     (case hm_get pings (be_name b) of
        None \<Rightarrow> None
      | Some to_b \<Rightarrow>
          (case rgn of
             None \<Rightarrow> None
           | Some r \<Rightarrow>
               (case hm_get (be_region_rtt_ms b) r of
                  None \<Rightarrow> None
                | Some from_b \<Rightarrow> Some (f64_add to_b from_b))))"

fun best_loop ::
  "string option \<Rightarrow> (string, f64) hmap \<Rightarrow> nat \<Rightarrow> bridge_entry list \<Rightarrow> (nat \<times> f64) option \<Rightarrow> (nat \<times> f64) option" where
  "best_loop rgn pings idx [] best = best"
| "best_loop rgn pings idx (b # bs) best =
     best_loop rgn pings (Suc idx) bs
       (case via_total rgn pings b of
          None \<Rightarrow> best
        | Some ttl \<Rightarrow>
            (case best of
               None \<Rightarrow> Some (idx, ttl)
             | Some (_, t) \<Rightarrow> if f64_lt ttl t then Some (idx, ttl) else best))"

definition choose_route :: "f64 \<Rightarrow> f64 \<Rightarrow> (nat \<times> f64) option \<Rightarrow> route \<times> f64" where
  "choose_route margin_ms direct_rtt_ms best_bridge =
     (case best_bridge of
        Some (idx, ttl) \<Rightarrow>
          if f64_lt (f64_add ttl margin_ms) direct_rtt_ms then (ViaBridge idx, ttl) else (Direct, ttl)
      | None \<Rightarrow> (Direct, PosInf))"

definition push_recent :: "nat \<Rightarrow> decision_log \<Rightarrow> decision_log list \<Rightarrow> decision_log list" where
  "push_recent capacity l r = (if capacity \<le> length r then tl r else r) @ [l]"

definition pick_fresh :: "instant \<Rightarrow> sock_addr \<Rightarrow> f64 \<Rightarrow> router \<Rightarrow> (route \<times> router, unit) rs" where
  "pick_fresh t dest direct_rtt_ms R =
     rs_bind (region_for (rt_aws R) (sa_ip dest)) (\<lambda>rgn.
     let best_bridge = best_loop rgn (rt_client_to_bridge_ms R) 0 (rt_bridges R) None;
         (route, via) = choose_route (rt_margin_ms R) direct_rtt_ms best_bridge;
         decision = \<lparr>dc_route = route, dc_decided_at = t, dc_direct_rtt_ms = direct_rtt_ms, dc_via_bridge_rtt_ms = via\<rparr>
     in rs_bind (case route of
                   ViaBridge i \<Rightarrow> rs_bind (index (rt_bridges R) i) (\<lambda>b. Ok (Some (be_name b)))
                 | Direct \<Rightarrow> Ok None) (\<lambda>name.
        let entry = \<lparr>dl_at = t, dl_dest = dest, dl_region = rgn, dl_direct_rtt_ms = direct_rtt_ms,
                   dl_via_bridge_rtt_ms = via, dl_route = route, dl_bridge_name = name\<rparr>
        in Ok (route, R\<lparr>rt_cache := hm_insert (sa_ip dest) decision (rt_cache R),
                        rt_recent := push_recent (rt_recent_capacity R) entry (rt_recent R)\<rparr>)))"

definition pick :: "instant \<Rightarrow> sock_addr \<Rightarrow> f64 \<Rightarrow> router \<Rightarrow> (route \<times> router, unit) rs" where
  "pick t dest direct_rtt_ms R =
     (case hm_get (rt_cache R) (sa_ip dest) of
        Some d \<Rightarrow> if t - dc_decided_at d < rt_reroute_interval R then Ok (dc_route d, R)
                  else pick_fresh t dest direct_rtt_ms R
      | None \<Rightarrow> pick_fresh t dest direct_rtt_ms R)"

section \<open>The best bridge\<close>

text \<open>
  A loop invariant: what is best so far is the first of the least totals among the bridges seen,
  provided no total is NaN.
\<close>

definition totals :: "string option \<Rightarrow> (string, f64) hmap \<Rightarrow> bridge_entry list \<Rightarrow> f64 option list" where
  "totals rgn pings bs = map (via_total rgn pings) bs"

lemma length_totals [simp]: "length (totals rgn pings bs) = length bs"
  by (simp add: totals_def)

definition is_best :: "f64 option list \<Rightarrow> (nat \<times> f64) option \<Rightarrow> bool" where
  "is_best ts best \<longleftrightarrow>
     (case best of
        None \<Rightarrow> \<forall>x \<in> set ts. x = None
      | Some (i, v) \<Rightarrow> i < length ts \<and> ts ! i = Some v
          \<and> (\<forall>j w. j < length ts \<longrightarrow> ts ! j = Some w \<longrightarrow> \<not> f64_lt w v \<and> (j < i \<longrightarrow> f64_lt v w)))"

lemma is_best_snoc_None: "is_best ts best \<Longrightarrow> is_best (ts @ [None]) best"
  by (auto simp: is_best_def nth_append less_Suc_eq split: option.splits)

lemma is_best_snoc_Some:
  assumes "is_best ts best" and "\<forall>x \<in> set (ts @ [Some w]). x \<noteq> Some NaN"
  shows "is_best (ts @ [Some w])
    (case best of None \<Rightarrow> Some (length ts, w) | Some (_, v) \<Rightarrow> if f64_lt w v then Some (length ts, w) else best)"
proof (cases best)
  case None
  then show ?thesis
    using assms(1) by (auto simp: is_best_def nth_append less_Suc_eq) (metis nth_mem option.distinct(1))+
next
  case (Some iv)
  obtain i v where iv: "iv = (i, v)" by fastforce
  have best: "i < length ts" "ts ! i = Some v"
    "\<And>j u. j < length ts \<Longrightarrow> ts ! j = Some u \<Longrightarrow> \<not> f64_lt u v \<and> (j < i \<longrightarrow> f64_lt v u)"
    using assms(1) Some iv by (auto simp: is_best_def)
  have nan: "u \<noteq> NaN" if "j < length ts" "ts ! j = Some u" for j u
    using assms(2) that nth_mem [OF that(1)] by auto
  show ?thesis
  proof (cases "f64_lt w v")
    case True
    have less: "f64_lt w u" if "j < length ts" "ts ! j = Some u" for j u
    proof -
      have "f64_lt v u \<or> v = u"
        using f64_lt_total [of v u] best(3) [OF that] nan [OF that] nan [OF best(1,2)]
        by (cases u; cases v) auto
      then show ?thesis using True f64_lt_trans by blast
    qed
    then show ?thesis
      using True Some iv f64_lt_asym by (auto simp: is_best_def nth_append less_Suc_eq)
  next
    case False
    then show ?thesis
      using Some iv best by (auto simp: is_best_def nth_append less_Suc_eq)
  qed
qed

lemma best_loop_spec:
  assumes "is_best (totals rgn pings before) best" and "idx = length before"
    and "\<forall>b \<in> set (before @ bs). via_total rgn pings b \<noteq> Some NaN"
  shows "is_best (totals rgn pings (before @ bs)) (best_loop rgn pings idx bs best)"
  using assms
proof (induction bs arbitrary: before best idx)
  case (Cons b bs)
  let ?best = "case via_total rgn pings b of None \<Rightarrow> best
    | Some ttl \<Rightarrow> (case best of None \<Rightarrow> Some (idx, ttl)
        | Some (_, t) \<Rightarrow> if f64_lt ttl t then Some (idx, ttl) else best)"
  have snoc: "totals rgn pings (before @ [b]) = totals rgn pings before @ [via_total rgn pings b]"
    by (simp add: totals_def)
  have "is_best (totals rgn pings (before @ [b])) ?best"
  proof (cases "via_total rgn pings b")
    case None
    then show ?thesis
      using is_best_snoc_None [OF Cons.prems(1)] snoc by simp
  next
    case (Some w)
    have "\<forall>x \<in> set (totals rgn pings before @ [Some w]). x \<noteq> Some NaN"
      using Cons.prems(3) Some by (auto simp: totals_def)
    from is_best_snoc_Some [OF Cons.prems(1) this] show ?thesis
      unfolding snoc Some Cons.prems(2) option.case length_totals .
  qed
  then have "is_best (totals rgn pings ((before @ [b]) @ bs)) (best_loop rgn pings (Suc idx) bs ?best)"
    by (rule Cons.IH) (use Cons.prems(2,3) in auto)
  then show ?case
    by (simp only: best_loop.simps append_assoc append.simps)
qed simp

lemma best_loop_best:
  "\<forall>b \<in> set bs. via_total rgn pings b \<noteq> Some NaN \<Longrightarrow>
     is_best (totals rgn pings bs) (best_loop rgn pings 0 bs None)"
  using best_loop_spec [of rgn pings "[]" None 0 bs] by (simp add: totals_def is_best_def)

lemma best_loop_index:
  "best_loop rgn pings idx bs best = Some (i, v) \<Longrightarrow>
     i < idx + length bs \<or> best = Some (i, v)"
proof (induction rgn pings idx bs best rule: best_loop.induct)
  case (2 rgn pings idx b bs best)
  then show ?case
    by (fastforce split: option.splits if_splits prod.splits)
qed simp

lemma choose_bridge:
  "choose_route m d (best_loop rgn pings 0 bs None) = (ViaBridge i, v) \<Longrightarrow> i < length bs"
  using best_loop_index [of rgn pings 0 bs None i v]
  by (auto simp: choose_route_def split: option.splits if_splits prod.splits)

section \<open>What a pick does\<close>

lemma pick_fresh_eq:
  fixes R
  defines "best \<equiv> \<lambda>rgn. best_loop rgn (rt_client_to_bridge_ms R) 0 (rt_bridges R) None"
  shows "pick_fresh t dest d R =
    rs_bind (region_for (rt_aws R) (sa_ip dest)) (\<lambda>rgn.
      case choose_route (rt_margin_ms R) d (best rgn) of (r, via) \<Rightarrow>
        Ok (r, R\<lparr>rt_cache := hm_insert (sa_ip dest)
                    \<lparr>dc_route = r, dc_decided_at = t, dc_direct_rtt_ms = d, dc_via_bridge_rtt_ms = via\<rparr> (rt_cache R),
                rt_recent := push_recent (rt_recent_capacity R)
                    \<lparr>dl_at = t, dl_dest = dest, dl_region = rgn, dl_direct_rtt_ms = d, dl_via_bridge_rtt_ms = via,
                     dl_route = r, dl_bridge_name = (case r of ViaBridge i \<Rightarrow> Some (be_name (rt_bridges R ! i)) | Direct \<Rightarrow> None)\<rparr>
                    (rt_recent R)\<rparr>))"
proof (cases "region_for (rt_aws R) (sa_ip dest) :: (string option, unit) rs")
  case (Ok rgn)
  obtain r via where c: "choose_route (rt_margin_ms R) d (best rgn) = (r, via)"
    by fastforce
  have "i < length (rt_bridges R)" if "r = ViaBridge i" for i
    using c that choose_bridge unfolding best_def by blast
  with Ok c show ?thesis
    by (cases r) (simp_all add: pick_fresh_def best_def Let_def rs_simps)
qed (simp_all add: pick_fresh_def)

lemma pick_fresh_Ok:
  "pick_fresh t dest d R = Ok (r, R') \<longleftrightarrow>
     (\<exists>rgn via. region_for (rt_aws R) (sa_ip dest) = (Ok rgn :: (string option, unit) rs)
        \<and> choose_route (rt_margin_ms R) d (best_loop rgn (rt_client_to_bridge_ms R) 0 (rt_bridges R) None) = (r, via)
        \<and> R' = R\<lparr>rt_cache := hm_insert (sa_ip dest)
                    \<lparr>dc_route = r, dc_decided_at = t, dc_direct_rtt_ms = d, dc_via_bridge_rtt_ms = via\<rparr> (rt_cache R),
                rt_recent := push_recent (rt_recent_capacity R)
                    \<lparr>dl_at = t, dl_dest = dest, dl_region = rgn, dl_direct_rtt_ms = d, dl_via_bridge_rtt_ms = via,
                     dl_route = r, dl_bridge_name = (case r of ViaBridge i \<Rightarrow> Some (be_name (rt_bridges R ! i)) | Direct \<Rightarrow> None)\<rparr>
                    (rt_recent R)\<rparr>)"
proof (cases "region_for (rt_aws R) (sa_ip dest) :: (string option, unit) rs")
  case (Ok rgn)
  then show ?thesis
    unfolding pick_fresh_eq
    by (cases "choose_route (rt_margin_ms R) d (best_loop rgn (rt_client_to_bridge_ms R) 0 (rt_bridges R) None)") auto
qed (simp_all add: pick_fresh_eq)

lemma push_recent_length: "0 < n \<Longrightarrow> length r \<le> n \<Longrightarrow> length (push_recent n l r) \<le> n"
  by (auto simp: push_recent_def)

text \<open>The state every router stays in: bounded ring buffer, cached routes that name a bridge it has.\<close>

definition route_ok :: "router \<Rightarrow> route \<Rightarrow> bool" where
  "route_ok R r \<longleftrightarrow> (\<forall>i. r = ViaBridge i \<longrightarrow> i < length (rt_bridges R))"

definition router_ok :: "router \<Rightarrow> bool" where
  "router_ok R \<longleftrightarrow> length (rt_recent R) \<le> rt_recent_capacity R \<and> 0 < rt_recent_capacity R
     \<and> (\<forall>a d. hm_get (rt_cache R) a = Some d \<longrightarrow> route_ok R (dc_route d))"

lemma router_ok_new: "router_ok (router_new aws bridges)"
  by (simp add: router_ok_def router_new_def)

lemma router_ok_record: "router_ok R \<Longrightarrow> router_ok (record_client_to_bridge b ms R)"
  by (simp add: router_ok_def record_client_to_bridge_def route_ok_def)

lemma pick_keeps:
  assumes "router_ok R" and "pick t dest d R = Ok (r, R')"
  shows "router_ok R'" and "route_ok R r" and "rt_bridges R' = rt_bridges R" and "rt_aws R' = rt_aws R"
    and "rt_client_to_bridge_ms R' = rt_client_to_bridge_ms R"
    and "rt_reroute_interval R' = rt_reroute_interval R"
proof -
  have fresh: "router_ok R' \<and> route_ok R r \<and> rt_bridges R' = rt_bridges R \<and> rt_aws R' = rt_aws R
      \<and> rt_client_to_bridge_ms R' = rt_client_to_bridge_ms R \<and> rt_reroute_interval R' = rt_reroute_interval R"
    if "pick_fresh t dest d R = Ok (r, R')"
    using that assms(1) choose_bridge unfolding pick_fresh_Ok
    by (auto simp: router_ok_def route_ok_def push_recent_length split: if_splits)
  have "router_ok R' \<and> route_ok R r \<and> rt_bridges R' = rt_bridges R \<and> rt_aws R' = rt_aws R
      \<and> rt_client_to_bridge_ms R' = rt_client_to_bridge_ms R \<and> rt_reroute_interval R' = rt_reroute_interval R"
    using assms fresh by (auto simp: pick_def router_ok_def split: option.splits if_splits)
  then show "router_ok R'" "route_ok R r" "rt_bridges R' = rt_bridges R" "rt_aws R' = rt_aws R"
    "rt_client_to_bridge_ms R' = rt_client_to_bridge_ms R" "rt_reroute_interval R' = rt_reroute_interval R"
    by blast+
qed

lemma pick_panics: "pick t dest d R \<noteq> Panic" if "region_for (rt_aws R) (sa_ip dest) \<noteq> (Panic :: (string option, unit) rs)"
  using that by (auto simp: pick_def pick_fresh_eq split: option.splits prod.splits)

lemma pick_stale:
  assumes "\<And>c. hm_get (rt_cache R) (sa_ip dest) = Some c \<Longrightarrow> rt_reroute_interval R \<le> t - dc_decided_at c"
  shows "pick t dest d R = pick_fresh t dest d R"
  using assms by (auto simp: pick_def split: option.splits)

lemma pick_fresh_best:
  assumes "region_for (rt_aws R) (sa_ip dest) = (Ok rgn :: (string option, unit) rs)"
    and "\<forall>b \<in> set (rt_bridges R). via_total rgn (rt_client_to_bridge_ms R) b \<noteq> Some NaN"
  shows "\<exists>r R'. pick_fresh t dest d R = Ok (r, R') \<and>
    (\<forall>i. r = ViaBridge i \<longleftrightarrow>
       (\<exists>v. i < length (rt_bridges R) \<and> via_total rgn (rt_client_to_bridge_ms R) (rt_bridges R ! i) = Some v
          \<and> f64_lt (f64_add v (rt_margin_ms R)) d
          \<and> (\<forall>j w. j < length (rt_bridges R) \<longrightarrow>
               via_total rgn (rt_client_to_bridge_ms R) (rt_bridges R ! j) = Some w \<longrightarrow>
               \<not> f64_lt w v \<and> (j < i \<longrightarrow> f64_lt v w))))"
proof -
  let ?best = "best_loop rgn (rt_client_to_bridge_ms R) 0 (rt_bridges R) None"
  let ?n = "length (rt_bridges R)"
  let ?t = "\<lambda>j. via_total rgn (rt_client_to_bridge_ms R) (rt_bridges R ! j)"
  obtain r via where c: "choose_route (rt_margin_ms R) d ?best = (r, via)" by fastforce
  then obtain R' where R': "pick_fresh t dest d R = Ok (r, R')"
    using assms(1) by (auto simp: pick_fresh_Ok)
  have best: "is_best (totals rgn (rt_client_to_bridge_ms R) (rt_bridges R)) ?best"
    by (rule best_loop_best [OF assms(2)])
  have "r = ViaBridge i \<longleftrightarrow> (\<exists>v. i < ?n \<and> ?t i = Some v \<and> f64_lt (f64_add v (rt_margin_ms R)) d
          \<and> (\<forall>j w. j < ?n \<longrightarrow> ?t j = Some w \<longrightarrow> \<not> f64_lt w v \<and> (j < i \<longrightarrow> f64_lt v w)))" for i
  proof (cases ?best)
    case None
    then have "\<forall>j < ?n. ?t j = None"
      using best by (auto simp: is_best_def totals_def)
    then show ?thesis
      using c None by (auto simp: choose_route_def)
  next
    case (Some kv)
    obtain k v where kv: "kv = (k, v)" by fastforce
    have k: "k < ?n" "?t k = Some v" "\<And>j w. j < ?n \<Longrightarrow> ?t j = Some w \<Longrightarrow> \<not> f64_lt w v \<and> (j < k \<longrightarrow> f64_lt v w)"
      using best Some kv by (auto simp: is_best_def totals_def)
    have uniq: "i = k" if "i < ?n" "?t i = Some u"
      "\<forall>j w. j < ?n \<longrightarrow> ?t j = Some w \<longrightarrow> \<not> f64_lt w u \<and> (j < i \<longrightarrow> f64_lt u w)" for u
      using that k by (metis linorder_neqE_nat)
    have "r = ViaBridge i \<longleftrightarrow> i = k \<and> f64_lt (f64_add v (rt_margin_ms R)) d"
      using c Some kv by (auto simp: choose_route_def split: if_splits)
    then show ?thesis using k uniq by (metis option.inject)
  qed
  then show ?thesis using R' by blast
qed

section \<open>Properties\<close>

text \<open>C21: The route picked is the best one.  When no fresh decision is cached and no estimate is NaN,
  the picker tunnels through a bridge exactly when that bridge has both measurements for the
  destination's region, their sum is the least of all bridges' sums (the first such bridge on a
  tie), and it beats the direct time by more than the margin; in every other case it goes direct.\<close>

theorem pick_best_bridge:
  assumes "\<And>c. hm_get (rt_cache R) (sa_ip dest) = Some c \<Longrightarrow> rt_reroute_interval R \<le> t - dc_decided_at c"
    and "region_for (rt_aws R) (sa_ip dest) = (Ok rgn :: (string option, unit) rs)"
    and "\<forall>b \<in> set (rt_bridges R). via_total rgn (rt_client_to_bridge_ms R) b \<noteq> Some NaN"
  shows "\<exists>r R'. pick t dest d R = Ok (r, R') \<and>
    (\<forall>i. r = ViaBridge i \<longleftrightarrow>
       (\<exists>v. i < length (rt_bridges R) \<and> via_total rgn (rt_client_to_bridge_ms R) (rt_bridges R ! i) = Some v
          \<and> f64_lt (f64_add v (rt_margin_ms R)) d
          \<and> (\<forall>j w. j < length (rt_bridges R) \<longrightarrow>
               via_total rgn (rt_client_to_bridge_ms R) (rt_bridges R ! j) = Some w \<longrightarrow>
               \<not> f64_lt w v \<and> (j < i \<longrightarrow> f64_lt v w))))"
proof -
  have "pick t dest d R = pick_fresh t dest d R"
    by (rule pick_stale) (rule assms(1))
  then show ?thesis using pick_fresh_best [OF assms(2,3)] by simp
qed


text \<open>The decision log shows the last decisions, newest first: after a fresh decision the log's
  newest entry is that decision, the entries before it are as they were, and the log never holds more
  than its capacity.\<close>

theorem recent_decisions_after_pick:
  assumes "router_ok R" and "pick_fresh t dest d R = Ok (r, R')" and "n < rt_recent_capacity R"
  shows "router_ok R' \<and> length (rt_recent R') \<le> rt_recent_capacity R
    \<and> (\<exists>l. dl_dest l = dest \<and> dl_route l = r \<and> dl_at l = t
         \<and> recent_decisions R' (Suc n) = l # recent_decisions R n)"
proof -
  have "take n (rev (tl xs)) = take n (rev xs)" if "n < length xs" for xs :: "decision_log list"
    using that by (cases xs) auto
  then have rec: "recent_decisions R' (Suc n) = last (rt_recent R') # recent_decisions R n"
    using assms(2,3) by (auto simp: pick_fresh_Ok recent_decisions_def push_recent_def)
  have ok: "router_ok R'" and len: "length (rt_recent R') \<le> rt_recent_capacity R"
    using assms(1,2) choose_bridge unfolding pick_fresh_Ok
    by (auto simp: router_ok_def route_ok_def push_recent_length split: if_splits)
  have "dl_dest (last (rt_recent R')) = dest \<and> dl_route (last (rt_recent R')) = r \<and> dl_at (last (rt_recent R')) = t"
    using assms(2) by (auto simp: pick_fresh_Ok push_recent_def)
  then show ?thesis using rec ok len by blast
qed

text \<open>The routers that a new one becomes through picks and measurements.\<close>

inductive router_reach :: "aws_lookup \<Rightarrow> bridge_entry list \<Rightarrow> router \<Rightarrow> bool" for aws bridges where
  new: "router_reach aws bridges (router_new aws bridges)"
| record_ms: "router_reach aws bridges R \<Longrightarrow> router_reach aws bridges (record_client_to_bridge b ms R)"
| picked: "router_reach aws bridges R \<Longrightarrow> pick t dest d R = Ok (r, R') \<Longrightarrow> router_reach aws bridges R'"

lemma router_reach_ok:
  "router_reach aws bridges R \<Longrightarrow> router_ok R \<and> rt_bridges R = bridges \<and> rt_aws R = aws \<and> rt_recent_capacity R = 64"
proof (induction rule: router_reach.induct)
  case new
  then show ?case using router_ok_new by (simp add: router_new_def)
next
  case (record_ms R b ms)
  then show ?case using router_ok_record by (simp add: record_client_to_bridge_def)
next
  case (picked R t dest d r R')
  then have "rt_recent_capacity R' = rt_recent_capacity R"
    by (auto simp: pick_def pick_fresh_Ok split: option.splits if_splits)
  with picked show ?case using pick_keeps by metis
qed


section \<open>A sample router\<close>

definition sample_aws :: aws_lookup where
  "sample_aws = load_bundled \<lparr>ar_sync_token = [], ar_create_date = [], ar_prefixes =
     [\<lparr>ip_prefix = ''10.0.0.0/8'', region = ''us-east-1'', service = ''EC2''\<rparr>]\<rparr>"

definition sample_bridges :: "bridge_entry list" where
  "sample_bridges =
     [\<lparr>be_name = ''nj'', be_endpoint = sock_addr_new (V4 1) 51820, be_bridge_x25519_pubkey_hex = [],
       be_license_token = [], be_listen_port = 9001, be_region_rtt_ms = [(''us-east-1'', Fin 8)]\<rparr>,
      \<lparr>be_name = ''dallas'', be_endpoint = sock_addr_new (V4 2) 51820, be_bridge_x25519_pubkey_hex = [],
       be_license_token = [], be_listen_port = 9002, be_region_rtt_ms = [(''us-east-1'', Fin 30)]\<rparr>]"

definition sample_router :: router where
  "sample_router = record_client_to_bridge ''dallas'' (Fin 22)
     (record_client_to_bridge ''nj'' (Fin 35) (router_new sample_aws sample_bridges))"

definition sample_dest :: sock_addr where
  "sample_dest = sock_addr_new (V4 0x0A010203) 7777"

lemma sample_reach: "router_reach sample_aws sample_bridges sample_router"
  unfolding sample_router_def by (intro router_reach.intros)

lemma sample_region: "region_for (rt_aws sample_router) (sa_ip sample_dest) = (Ok (Some ''us-east-1'') :: (string option, unit) rs)"
  by code_simp

lemma sample_cache: "rt_cache sample_router = []"
  by (simp add: sample_router_def record_client_to_bridge_def router_new_def)

lemma sample_pick: "\<exists>R'. pick 0 sample_dest (Fin 60) sample_router = Ok (ViaBridge 0, R')"
proof -
  have "case pick 0 sample_dest (Fin 60) sample_router of Ok (r, _) \<Rightarrow> r = ViaBridge 0 | _ \<Rightarrow> False"
    by code_simp
  then show ?thesis by (auto split: rs.splits)
qed

theorem pick_best_bridge_witness:
  "\<exists>r R'. pick 0 sample_dest (Fin 60) sample_router = Ok (r, R') \<and>
    (\<forall>i. r = ViaBridge i \<longleftrightarrow>
       (\<exists>v. i < length (rt_bridges sample_router)
          \<and> via_total (Some ''us-east-1'') (rt_client_to_bridge_ms sample_router) (rt_bridges sample_router ! i) = Some v
          \<and> f64_lt (f64_add v (rt_margin_ms sample_router)) (Fin 60)
          \<and> (\<forall>j w. j < length (rt_bridges sample_router) \<longrightarrow>
               via_total (Some ''us-east-1'') (rt_client_to_bridge_ms sample_router) (rt_bridges sample_router ! j) = Some w \<longrightarrow>
               \<not> f64_lt w v \<and> (j < i \<longrightarrow> f64_lt v w))))"
proof (rule pick_best_bridge)
  show "region_for (rt_aws sample_router) (sa_ip sample_dest) = (Ok (Some ''us-east-1'') :: (string option, unit) rs)"
    by (rule sample_region)
  show "\<forall>b \<in> set (rt_bridges sample_router).
      via_total (Some ''us-east-1'') (rt_client_to_bridge_ms sample_router) b \<noteq> Some NaN"
    by code_simp
qed (simp add: sample_cache)


theorem recent_decisions_after_pick_witness:
  "\<exists>R' l. pick_fresh 0 sample_dest (Fin 60) sample_router = Ok (ViaBridge 0, R')
    \<and> dl_dest l = sample_dest \<and> recent_decisions R' (Suc 5) = l # recent_decisions sample_router 5"
proof -
  obtain R' where "pick 0 sample_dest (Fin 60) sample_router = Ok (ViaBridge 0, R')"
    using sample_pick by blast
  then have R': "pick_fresh 0 sample_dest (Fin 60) sample_router = Ok (ViaBridge 0, R')"
    by (simp add: pick_def sample_cache)
  have "router_ok sample_router" "rt_recent_capacity sample_router = 64"
    using router_reach_ok [OF sample_reach] by auto
  then show ?thesis
    using recent_decisions_after_pick [OF _ R', of 5] R' by auto
qed


end
