(* ===== verification/Lp_Capture.thy ===== *)
theory Lp_Capture
  imports Lp_Net
begin

text \<open>
  Packet capture and destination NAT (\<open>crates/gr-capture\<close>): the redirect rules and the resolver
  interface of \<open>lib.rs\<close>, and of \<open>windivert_backend.rs\<close> the flow table, the per-packet rewriting,
  the filter text, the capture loop and its start and stop.  The WinDivert driver is an argument:
  what it receives, whether it sends, and how it recomputes checksums.
\<close>

section \<open>Rules and resolvers\<close>

datatype protocol = ProtoTcp | ProtoUdp

record redirect_rule =
  rr_protocol :: protocol
  rr_dst_ip :: ip_addr
  rr_dst_port_lo :: u16
  rr_dst_port_hi :: u16
  rr_redirect_to_ip :: ip_addr
  rr_redirect_to_port :: u16

datatype route_action = Passthrough | RewriteTo sock_addr

text \<open>
  A \<open>RouteResolver\<close> maps a destination and a protocol to an action.  It may keep state behind its
  shared reference, which the model passes along, and it may panic.
\<close>

type_synonym 'r resolver = "sock_addr \<Rightarrow> protocol \<Rightarrow> 'r \<Rightarrow> (route_action \<times> 'r, unit) rs"

fun fixed_resolve :: "redirect_rule list \<Rightarrow> sock_addr \<Rightarrow> protocol \<Rightarrow> route_action" where
  "fixed_resolve [] dst proto = Passthrough"
| "fixed_resolve (r # rs) dst proto =
     (if rr_protocol r = proto \<and> rr_dst_ip r = sa_ip dst
         \<and> rr_dst_port_lo r \<le> sa_port dst \<and> sa_port dst \<le> rr_dst_port_hi r
      then RewriteTo (sock_addr_new (rr_redirect_to_ip r) (rr_redirect_to_port r))
      else fixed_resolve rs dst proto)"

definition fixed_resolver :: "redirect_rule list \<Rightarrow> unit resolver" where
  "fixed_resolver rules dst proto r = Ok (fixed_resolve rules dst proto, r)"

datatype capture_error =
  DriverOpen string
| FilterSyntax string
| IoError string
| Unsupported
| OtherError string

record redirect_stats =
  st_outbound_redirected :: u64
  st_inbound_rewritten :: u64
  st_dropped_unparseable :: u64
  st_active_flows :: u64

section \<open>The flow table\<close>

record flow_entry =
  fe_orig_dst_ip :: u32
  fe_orig_dst_port :: u16
  fe_redirect_target :: sock_addr
  fe_last_seen :: instant

type_synonym flows = "(u16, flow_entry) hmap"

definition flow_origin :: "flows \<Rightarrow> u16 \<Rightarrow> sock_addr option" where
  "flow_origin fl game_src_port =
     (case hm_get fl game_src_port of
        None \<Rightarrow> None
      | Some e \<Rightarrow> Some (sock_addr_new (V4 (fe_orig_dst_ip e)) (fe_orig_dst_port e)))"

definition active_flows :: "flows \<Rightarrow> (u16 \<times> sock_addr) list" where
  "active_flows fl = map (\<lambda>(p, e). (p, sock_addr_new (V4 (fe_orig_dst_ip e)) (fe_orig_dst_port e))) fl"

definition retain_flows :: "instant \<Rightarrow> flows \<Rightarrow> flows" where
  "retain_flows cutoff fl = hm_retain (\<lambda>_ e. cutoff \<le> fe_last_seen e) fl"

text \<open>\<open>lo\<close> is the platform's least instant; on Windows, time starts at boot.\<close>

definition reap_flows :: "instant \<Rightarrow> instant \<Rightarrow> int \<Rightarrow> flows \<Rightarrow> (flows, unit) rs" where
  "reap_flows lo t idle fl = rs_bind (instant_sub lo t idle) (\<lambda>cutoff. Ok (retain_flows cutoff fl))"

section \<open>Rewriting one packet\<close>

definition IPV4_VERSION :: u8 where "IPV4_VERSION = 4"
definition PROTO_TCP :: u8 where "PROTO_TCP = 6"
definition PROTO_UDP :: u8 where "PROTO_UDP = 17"

text \<open>The checks at the top of \<open>process_packet\<close>: the header length and the protocol, if all pass.\<close>

definition parse_ip :: "bytes \<Rightarrow> ((nat \<times> protocol) option, unit) rs" where
  "parse_ip data =
     (if length data < 28 then Ok None
      else rs_bind (index data 0) (\<lambda>b0.
        if drop_bit 4 b0 \<noteq> IPV4_VERSION then Ok None
        else
          let ihl = unat (b0 AND 0x0F) in
          if ihl < 5 then Ok None
          else
            let ip_header_len = ihl * 4 in
            if length data < ip_header_len + 8 then Ok None
            else rs_bind (index data 9) (\<lambda>proto.
              if proto \<noteq> PROTO_TCP \<and> proto \<noteq> PROTO_UDP then Ok None
              else Ok (Some (ip_header_len, if proto = PROTO_TCP then ProtoTcp else ProtoUdp)))))"

definition process_packet ::
  "'r resolver \<Rightarrow> instant \<Rightarrow> bytes \<Rightarrow> bool \<Rightarrow> 'r \<Rightarrow> flows \<Rightarrow> (bytes option \<times> 'r \<times> flows, unit) rs" where
  "process_packet resolve t data outbound r fl =
     rs_bind (parse_ip data) (\<lambda>parsed.
     case parsed of
       None \<Rightarrow> Ok (None, r, fl)
     | Some (hl, proto) \<Rightarrow>
         rs_bind (slice data 16 20) (\<lambda>dst_octets.
         rs_bind (slice data hl (hl + 2)) (\<lambda>sp.
         rs_bind (slice data (hl + 2) (hl + 4)) (\<lambda>dp.
         let dst_ip = from_be_bytes dst_octets :: u32;
             src_port = from_be_bytes sp :: u16;
             dst_port = from_be_bytes dp :: u16 in
         if outbound
         then
           rs_bind (resolve (sock_addr_new (V4 dst_ip) dst_port) proto r) (\<lambda>(action, r').
           case action of
             Passthrough \<Rightarrow> Ok (None, r', fl)
           | RewriteTo target \<Rightarrow>
               (case sa_ip target of
                  V6 _ \<Rightarrow> Ok (None, r', fl)
                | V4 new_dst_ip \<Rightarrow>
                    let fl' = hm_insert src_port
                      \<lparr>fe_orig_dst_ip = dst_ip, fe_orig_dst_port = dst_port,
                       fe_redirect_target = target, fe_last_seen = t\<rparr> fl in
                    rs_bind (copy_into data 16 20 (octets (V4 new_dst_ip))) (\<lambda>out.
                    rs_bind (copy_into out (hl + 2) (hl + 4) (to_be_bytes (sa_port target))) (\<lambda>out.
                    Ok (Some out, r', fl')))))
         else
           (case hm_get fl dst_port of
              None \<Rightarrow> Ok (None, r, fl)
            | Some entry \<Rightarrow>
                let fl' = hm_insert dst_port (entry\<lparr>fe_last_seen := t\<rparr>) fl in
                rs_bind (copy_into data 12 16 (octets (V4 (fe_orig_dst_ip entry)))) (\<lambda>out.
                rs_bind (copy_into out hl (hl + 2) (to_be_bytes (fe_orig_dst_port entry))) (\<lambda>out.
                Ok (Some out, r, fl'))))))))"

section \<open>The filter\<close>

fun show_nat :: "nat \<Rightarrow> string" where
  "show_nat n = (if n < 10 then [char_of (48 + n)] else show_nat (n div 10) @ [char_of (48 + n mod 10)])"

declare show_nat.simps [simp del]

fun join :: "string \<Rightarrow> string list \<Rightarrow> string" where
  "join sep [] = []"
| "join sep [s] = s"
| "join sep (s # t # ss) = s @ sep @ join sep (t # ss)"

definition show_ipv4 :: "u32 \<Rightarrow> string" where
  "show_ipv4 a = join ''.'' (map (\<lambda>b. show_nat (unat b)) (octets (V4 a)))"

record capture_config =
  cc_redirect_targets :: "sock_addr list"
  cc_bridge_endpoints :: "sock_addr list"
  cc_flow_idle :: int

definition with_resolver :: "sock_addr list \<Rightarrow> sock_addr list \<Rightarrow> capture_config" where
  "with_resolver redirect_targets bridge_endpoints =
     \<lparr>cc_redirect_targets = redirect_targets, cc_bridge_endpoints = bridge_endpoints,
      cc_flow_idle = secs 120\<rparr>"

definition with_rules :: "redirect_rule list \<Rightarrow> sock_addr list \<Rightarrow> capture_config \<times> unit resolver" where
  "with_rules rules bridge_endpoints =
     (\<lparr>cc_redirect_targets = map (\<lambda>r. sock_addr_new (rr_redirect_to_ip r) (rr_redirect_to_port r)) rules,
       cc_bridge_endpoints = bridge_endpoints, cc_flow_idle = secs 120\<rparr>,
      fixed_resolver rules)"

definition capture_new :: "redirect_rule list \<Rightarrow> capture_config \<times> unit resolver" where
  "capture_new rules = with_rules rules []"

fun exclude_of :: "sock_addr \<Rightarrow> string list" where
  "exclude_of a = (case sa_ip a of V4 v4 \<Rightarrow> [''ip.DstAddr == '' @ show_ipv4 v4] | V6 _ \<Rightarrow> [])"

fun inbound_of :: "sock_addr \<Rightarrow> string list" where
  "inbound_of a =
     (case sa_ip a of
        V4 v4 \<Rightarrow> [''(ip.SrcAddr == '' @ show_ipv4 v4 @ '' and udp.SrcPort == '' @ show_nat (unat (sa_port a)) @ '')'']
      | V6 _ \<Rightarrow> [])"

definition build_filter :: "capture_config \<Rightarrow> (string, capture_error) rs" where
  "build_filter cfg =
     (if cc_redirect_targets cfg = []
      then Err (OtherError ''no redirect targets -- at least one is needed to capture inbound responses'')
      else
        let excludes = concat (map exclude_of (cc_bridge_endpoints cfg))
                       @ concat (map exclude_of (cc_redirect_targets cfg));
            exclude_clause = (if excludes = [] then [] else '' and not ('' @ join '' or '' excludes @ '')'');
            inbound_targets = concat (map inbound_of (cc_redirect_targets cfg));
            inbound_clause = join '' or '' inbound_targets
        in Ok (''(udp and outbound'' @ exclude_clause @ '') or (udp and inbound and ('' @ inbound_clause @ ''))''))"

section \<open>Starting, stopping and the loop\<close>

text \<open>
  The state behind \<open>WinDivertCapture\<close>: the flows, the counters, the running flag, how many capture
  threads have been spawned, and in the thread the time of its last reaping.  \<open>ct_sent\<close> logs the
  packets re-injected.
\<close>

record 'r capture =
  ct_flows :: flows
  ct_outbound_redirected :: u64
  ct_inbound_rewritten :: u64
  ct_dropped_unparseable :: u64
  ct_running :: bool
  ct_threads :: nat
  ct_last_reap :: instant
  ct_resolver :: 'r
  ct_sent :: "bytes list"

definition capture_init :: "'r \<Rightarrow> 'r capture" where
  "capture_init r = \<lparr>ct_flows = hm_empty, ct_outbound_redirected = 0, ct_inbound_rewritten = 0,
     ct_dropped_unparseable = 0, ct_running = False, ct_threads = 0, ct_last_reap = 0, ct_resolver = r,
     ct_sent = []\<rparr>"

text \<open>\<open>Redirector::start\<close>, \<open>stop\<close> and \<open>stats\<close>; \<open>spawn\<close> is the outcome of creating the thread.\<close>

definition capture_start ::
  "capture_config \<Rightarrow> (unit, string) rs \<Rightarrow> 'r capture \<Rightarrow> (unit, capture_error) rs \<times> 'r capture" where
  "capture_start cfg spawn S =
     (if ct_running S then (Ok (), S)
      else
        let S = S\<lparr>ct_running := True\<rparr> in
        case build_filter cfg of
          Ok flt \<Rightarrow>
            (case spawn of
               Ok _ \<Rightarrow> (Ok (), S\<lparr>ct_threads := Suc (ct_threads S)\<rparr>)
             | Err e \<Rightarrow> (Err (OtherError (''spawn: '' @ e)), S)
             | Panic \<Rightarrow> (Panic, S))
        | Err e \<Rightarrow> (Err e, S)
        | Panic \<Rightarrow> (Panic, S))"

definition capture_stop :: "'r capture \<Rightarrow> 'r capture" where
  "capture_stop S = S\<lparr>ct_running := False\<rparr>"

definition capture_stats :: "'r capture \<Rightarrow> redirect_stats" where
  "capture_stats S = \<lparr>st_outbound_redirected = ct_outbound_redirected S,
     st_inbound_rewritten = ct_inbound_rewritten S, st_dropped_unparseable = ct_dropped_unparseable S,
     st_active_flows = of_nat (hm_len (ct_flows S))\<rparr>"

text \<open>
  One turn of \<open>run_capture_loop\<close>: reap the flows every 15 seconds, then handle what the driver
  received.  It gives a packet and its direction or fails (\<open>None\<close>); \<open>recalc\<close> recomputes the
  checksums or fails, and \<open>sends\<close> says whether re-injection works.
\<close>

definition capture_reap :: "instant \<Rightarrow> capture_config \<Rightarrow> instant \<Rightarrow> 'r capture \<Rightarrow> ('r capture, unit) rs" where
  "capture_reap lo cfg t S =
     (if secs 15 < t - ct_last_reap S
      then rs_bind (reap_flows lo t (cc_flow_idle cfg) (ct_flows S)) (\<lambda>fl.
           Ok (S\<lparr>ct_flows := fl, ct_last_reap := t\<rparr>))
      else Ok S)"

definition capture_emit :: "bool \<Rightarrow> bytes \<Rightarrow> 'r capture \<Rightarrow> 'r capture" where
  "capture_emit sends p S = (if sends then S\<lparr>ct_sent := ct_sent S @ [p]\<rparr> else S)"

definition capture_packet ::
  "'r resolver \<Rightarrow> (bytes \<Rightarrow> bytes option) \<Rightarrow> bool \<Rightarrow> instant \<Rightarrow> bytes \<Rightarrow> bool \<Rightarrow> 'r capture
     \<Rightarrow> ('r capture, unit) rs" where
  "capture_packet resolve recalc sends t data outbound S =
     rs_bind (process_packet resolve t data outbound (ct_resolver S) (ct_flows S)) (\<lambda>(res, r', fl').
     let S = S\<lparr>ct_resolver := r', ct_flows := fl'\<rparr> in
     case res of
       None \<Rightarrow> Ok (capture_emit sends data (S\<lparr>ct_dropped_unparseable := ct_dropped_unparseable S + 1\<rparr>))
     | Some modified \<Rightarrow>
         (case recalc modified of
            None \<Rightarrow> Ok S
          | Some final \<Rightarrow>
              Ok (capture_emit sends final
                (if outbound then S\<lparr>ct_outbound_redirected := ct_outbound_redirected S + 1\<rparr>
                 else S\<lparr>ct_inbound_rewritten := ct_inbound_rewritten S + 1\<rparr>))))"

definition capture_turn ::
  "instant \<Rightarrow> capture_config \<Rightarrow> 'r resolver \<Rightarrow> (bytes \<Rightarrow> bytes option) \<Rightarrow> bool \<Rightarrow> instant
     \<Rightarrow> (bytes \<times> bool) option \<Rightarrow> 'r capture \<Rightarrow> ('r capture, unit) rs" where
  "capture_turn lo cfg resolve recalc sends t received S =
     rs_bind (capture_reap lo cfg t S) (\<lambda>S.
     case received of
       None \<Rightarrow> Ok S
     | Some (data, outbound) \<Rightarrow> capture_packet resolve recalc sends t data outbound S)"

text \<open>
  \<open>run_capture_loop\<close> in the capture thread: it opens the driver, notes the time, and then takes one
  turn after the other while the running flag is set; \<open>turns\<close> is what the clock and the driver deliver.
\<close>

definition capture_open :: "(unit, string) rs \<Rightarrow> instant \<Rightarrow> 'r capture \<Rightarrow> ('r capture, capture_error) rs" where
  "capture_open opened t S = rs_bind (rs_map_err DriverOpen opened) (\<lambda>_. Ok (S\<lparr>ct_last_reap := t\<rparr>))"

fun run_capture_loop ::
  "instant \<Rightarrow> capture_config \<Rightarrow> 'r resolver \<Rightarrow> (bytes \<Rightarrow> bytes option) \<Rightarrow> bool
     \<Rightarrow> (instant \<times> (bytes \<times> bool) option) list \<Rightarrow> 'r capture \<Rightarrow> ('r capture, unit) rs" where
  "run_capture_loop lo cfg resolve recalc sends [] S = Ok S"
| "run_capture_loop lo cfg resolve recalc sends ((t, received) # turns) S =
     (if ct_running S
      then rs_bind (capture_turn lo cfg resolve recalc sends t received S)
             (run_capture_loop lo cfg resolve recalc sends turns)
      else Ok S)"

section \<open>Packet fields\<close>

definition ip_src :: "bytes \<Rightarrow> u32" where "ip_src d = from_be_bytes (take 4 (drop 12 d))"
definition ip_dst :: "bytes \<Rightarrow> u32" where "ip_dst d = from_be_bytes (take 4 (drop 16 d))"
definition l4_src :: "nat \<Rightarrow> bytes \<Rightarrow> u16" where "l4_src hl d = from_be_bytes (take 2 (drop hl d))"
definition l4_dst :: "nat \<Rightarrow> bytes \<Rightarrow> u16" where "l4_dst hl d = from_be_bytes (take 2 (drop (hl + 2) d))"

text \<open>\<open>patch i ys d\<close>: the packet with the bytes at \<open>i\<close> overwritten.\<close>

definition patch :: "nat \<Rightarrow> bytes \<Rightarrow> bytes \<Rightarrow> bytes" where
  "patch i ys d = take i d @ ys @ drop (i + length ys) d"

lemma length_patch [simp]: "i + length ys \<le> length d \<Longrightarrow> length (patch i ys d) = length d"
  by (simp add: patch_def)

lemma nth_patch:
  "i + length ys \<le> length d \<Longrightarrow>
     patch i ys d ! n = (if i \<le> n \<and> n < i + length ys then ys ! (n - i) else d ! n)"
  by (auto simp: patch_def nth_append)

lemma take_drop_patch_same: "i + length ys \<le> length d \<Longrightarrow> take (length ys) (drop i (patch i ys d)) = ys"
  by (simp add: patch_def)

lemma take_drop_patch_other:
  assumes "i + length ys \<le> length d" and "j + n \<le> length d" and "j + n \<le> i \<or> i + length ys \<le> j"
  shows "take n (drop j (patch i ys d)) = take n (drop j d)"
  by (rule nth_equalityI) (use assms in \<open>auto simp: nth_patch\<close>)

lemma copy_into_patch:
  "i + length ys \<le> length d \<Longrightarrow> j = i + length ys \<Longrightarrow> copy_into d i j ys = Ok (patch i ys d)"
  by (simp add: copy_into_def patch_def)

lemma parse_ip_cases:
  obtains (none) "parse_ip data = Ok None"
  | (some) hl proto where "parse_ip data = Ok (Some (hl, proto))" "20 \<le> hl" "hl \<le> 60" "hl + 8 \<le> length data"
      "28 \<le> length data" "hl = unat (data ! 0 AND 0x0F) * 4" "data ! 9 = (if proto = ProtoTcp then PROTO_TCP else PROTO_UDP)"
proof (cases "parse_ip data = Ok None")
  case True
  then show thesis using none by simp
next
  case False
  let ?ihl = "unat (data ! 0 AND 0x0F)"
  have len: "28 \<le> length data"
    using False by (auto simp: parse_ip_def split: if_splits)
  then have ix: "index data 0 = Ok (data ! 0)" "index data 9 = Ok (data ! 9)"
    by (auto simp: index_def)
  have ihl: "5 \<le> ?ihl" and hl: "?ihl * 4 + 8 \<le> length data"
    and proto: "data ! 9 = PROTO_TCP \<or> data ! 9 = PROTO_UDP" and ver: "drop_bit 4 (data ! 0) = IPV4_VERSION"
    using False len ix by (auto simp: parse_ip_def Let_def not_less split: if_splits)
  have "data ! 0 AND 0x0F \<le> 15" by (rule word_and_le1)
  then have "?ihl \<le> 15" by (simp add: word_le_nat_alt)
  then have "?ihl * 4 \<le> 60" and "20 \<le> ?ihl * 4" using ihl by simp_all
  moreover have "parse_ip data = Ok (Some (?ihl * 4, if data ! 9 = PROTO_TCP then ProtoTcp else ProtoUdp))"
    using len ihl hl proto unfolding parse_ip_def Let_def ix rs_bind.simps ver by (simp add: not_less)
  moreover have "data ! 9 = (if (if data ! 9 = PROTO_TCP then ProtoTcp else ProtoUdp) = ProtoTcp then PROTO_TCP else PROTO_UDP)"
    using proto by auto
  ultimately show thesis
    using hl len by (intro some) (assumption | rule refl)+
qed

text \<open>The two rewritings, and when they happen.\<close>

definition rewrite_dst :: "nat \<Rightarrow> u32 \<Rightarrow> u16 \<Rightarrow> bytes \<Rightarrow> bytes" where
  "rewrite_dst hl a p d = patch (hl + 2) (to_be_bytes p) (patch 16 (to_be_bytes a) d)"

definition rewrite_src :: "nat \<Rightarrow> u32 \<Rightarrow> u16 \<Rightarrow> bytes \<Rightarrow> bytes" where
  "rewrite_src hl a p d = patch hl (to_be_bytes p) (patch 12 (to_be_bytes a) d)"

lemma process_unparsed: "parse_ip d = Ok None \<Longrightarrow> process_packet resolve t d outbound r fl = Ok (None, r, fl)"
  by (simp add: process_packet_def)

lemma process_outbound:
  assumes "parse_ip d = Ok (Some (hl, proto))" and "20 \<le> hl" and "hl + 8 \<le> length d"
  shows "process_packet resolve t d True r fl =
    rs_bind (resolve (sock_addr_new (V4 (ip_dst d)) (l4_dst hl d)) proto r) (\<lambda>(action, r').
     case action of
       RewriteTo target \<Rightarrow>
         (case sa_ip target of
            V4 a \<Rightarrow> Ok (Some (rewrite_dst hl a (sa_port target) d), r',
                hm_insert (l4_src hl d) \<lparr>fe_orig_dst_ip = ip_dst d, fe_orig_dst_port = l4_dst hl d,
                  fe_redirect_target = target, fe_last_seen = t\<rparr> fl)
          | V6 _ \<Rightarrow> Ok (None, r', fl))
     | Passthrough \<Rightarrow> Ok (None, r', fl))"
proof -
  have "copy_into d 16 20 (to_be_bytes (a :: u32)) = Ok (patch 16 (to_be_bytes a) d)" for a
    using assms by (intro copy_into_patch) auto
  moreover have "copy_into (patch 16 (to_be_bytes (a :: u32)) d) (hl + 2) (hl + 4) (to_be_bytes (p :: u16))
      = Ok (rewrite_dst hl a p d)" for a p
    using assms unfolding rewrite_dst_def by (intro copy_into_patch) auto
  ultimately show ?thesis
    using assms
    by (cases "resolve (sock_addr_new (V4 (ip_dst d)) (l4_dst hl d)) proto r")
      (auto simp: process_packet_def rs_simps ip_dst_def l4_src_def l4_dst_def Let_def
        split: prod.splits route_action.splits ip_addr.splits)
qed

lemma process_outbound_Some:
  assumes "parse_ip d = Ok (Some (hl, proto))" and "20 \<le> hl" and "hl + 8 \<le> length d"
  shows "process_packet resolve t d True r fl = Ok (Some out, r', fl') \<longleftrightarrow>
    (\<exists>target a. resolve (sock_addr_new (V4 (ip_dst d)) (l4_dst hl d)) proto r = Ok (RewriteTo target, r')
       \<and> sa_ip target = V4 a \<and> out = rewrite_dst hl a (sa_port target) d
       \<and> fl' = hm_insert (l4_src hl d) \<lparr>fe_orig_dst_ip = ip_dst d, fe_orig_dst_port = l4_dst hl d,
                  fe_redirect_target = target, fe_last_seen = t\<rparr> fl)"
proof (cases "resolve (sock_addr_new (V4 (ip_dst d)) (l4_dst hl d)) proto r")
  case (Ok x)
  then show ?thesis
    unfolding process_outbound [OF assms] Ok
    by (cases x; cases "fst x") (auto split: ip_addr.splits)
qed (simp_all add: process_outbound [OF assms])

lemma process_inbound:
  assumes "parse_ip d = Ok (Some (hl, proto))" and "20 \<le> hl" and "hl + 8 \<le> length d"
  shows "process_packet resolve t d False r fl =
    (case hm_get fl (l4_dst hl d) of
       None \<Rightarrow> Ok (None, r, fl)
     | Some e \<Rightarrow> Ok (Some (rewrite_src hl (fe_orig_dst_ip e) (fe_orig_dst_port e) d), r,
          hm_insert (l4_dst hl d) (e\<lparr>fe_last_seen := t\<rparr>) fl))"
proof -
  have "copy_into d 12 16 (to_be_bytes (a :: u32)) = Ok (patch 12 (to_be_bytes a) d)" for a
    using assms by (intro copy_into_patch) auto
  moreover have "copy_into (patch 12 (to_be_bytes (a :: u32)) d) hl (hl + 2) (to_be_bytes (p :: u16))
      = Ok (rewrite_src hl a p d)" for a p
    using assms unfolding rewrite_src_def by (intro copy_into_patch) auto
  ultimately show ?thesis
    using assms
    by (auto simp: process_packet_def rs_simps l4_src_def l4_dst_def Let_def split: option.splits)
qed

lemma rewrite_dst_fields:
  assumes "20 \<le> hl" and "hl + 8 \<le> length d"
  shows "length (rewrite_dst hl a p d) = length d" and "ip_dst (rewrite_dst hl a p d) = a"
    and "l4_dst hl (rewrite_dst hl a p d) = p"
    and "ip_src (rewrite_dst hl a p d) = ip_src d" and "l4_src hl (rewrite_dst hl a p d) = l4_src hl d"
    and "\<And>i. \<not> (16 \<le> i \<and> i < 20) \<Longrightarrow> \<not> (hl + 2 \<le> i \<and> i < hl + 4) \<Longrightarrow> rewrite_dst hl a p d ! i = d ! i"
  using assms take_drop_patch_same [of "hl + 2" "to_be_bytes p" "patch 16 (to_be_bytes a) d"]
    take_drop_patch_same [of 16 "to_be_bytes a" d]
  by (simp_all add: rewrite_dst_def ip_dst_def l4_dst_def ip_src_def l4_src_def take_drop_patch_other nth_patch, auto)

lemma rewrite_src_fields:
  assumes "20 \<le> hl" and "hl + 8 \<le> length d"
  shows "length (rewrite_src hl a p d) = length d" and "ip_src (rewrite_src hl a p d) = a"
    and "l4_src hl (rewrite_src hl a p d) = p"
    and "ip_dst (rewrite_src hl a p d) = ip_dst d" and "l4_dst hl (rewrite_src hl a p d) = l4_dst hl d"
    and "\<And>i. \<not> (12 \<le> i \<and> i < 16) \<Longrightarrow> \<not> (hl \<le> i \<and> i < hl + 2) \<Longrightarrow> rewrite_src hl a p d ! i = d ! i"
  using assms take_drop_patch_same [of hl "to_be_bytes p" "patch 12 (to_be_bytes a) d"]
    take_drop_patch_same [of 12 "to_be_bytes a" d]
  by (simp_all add: rewrite_src_def ip_dst_def l4_dst_def ip_src_def l4_src_def take_drop_patch_other nth_patch, auto)

text \<open>The bytes of the endpoint a rewriting replaces: address and port, of destination or source.\<close>

definition endpoint_byte :: "bool \<Rightarrow> nat \<Rightarrow> nat \<Rightarrow> bool" where
  "endpoint_byte outbound hl i \<longleftrightarrow>
     (if outbound then 16 \<le> i \<and> i < 20 \<or> hl + 2 \<le> i \<and> i < hl + 4
      else 12 \<le> i \<and> i < 16 \<or> hl \<le> i \<and> i < hl + 2)"

lemma rewrite_dst_diff:
  assumes "20 \<le> hl" and "hl + 8 \<le> length d" and "rewrite_dst hl a p d ! i \<noteq> d ! i"
  shows "endpoint_byte True hl i"
  using rewrite_dst_fields(6) [OF assms(1,2)] assms(3) unfolding endpoint_byte_def by (simp only: if_True) blast

lemma rewrite_src_diff:
  assumes "20 \<le> hl" and "hl + 8 \<le> length d" and "rewrite_src hl a p d ! i \<noteq> d ! i"
  shows "endpoint_byte False hl i"
  using rewrite_src_fields(6) [OF assms(1,2)] assms(3) unfolding endpoint_byte_def by (simp only: if_False) blast

lemma capture_packet_process:
  assumes "capture_packet resolve recalc sends t d outbound S = Ok S'"
  obtains res where
    "process_packet resolve t d outbound (ct_resolver S) (ct_flows S) = Ok (res, ct_resolver S', ct_flows S')"
proof -
  obtain res r' fl' where p: "process_packet resolve t d outbound (ct_resolver S) (ct_flows S) = Ok (res, r', fl')"
    using assms by (auto simp: capture_packet_def)
  have "r' = ct_resolver S' \<and> fl' = ct_flows S'"
    using assms unfolding capture_packet_def p
    by (cases res; cases "recalc (the res)") (auto simp: Let_def capture_emit_def split: if_splits)
  then show thesis using p that by simp
qed

lemma process_packet_length:
  assumes "process_packet resolve t d outbound r fl = Ok (Some out, r', fl')"
  shows "length out = length d"
proof (cases d rule: parse_ip_cases)
  case none
  then show ?thesis using assms by (simp add: process_unparsed)
next
  case (some hl proto)
  show ?thesis
  proof (cases outbound)
    case True
    then show ?thesis
      using assms rewrite_dst_fields(1) [OF some(2,4)] by (auto simp: process_outbound_Some [OF some(1,2,4)])
  next
    case False
    then show ?thesis
      using assms rewrite_src_fields(1) [OF some(2,4)]
      by (auto simp: process_inbound [OF some(1,2,4)] split: option.splits)
  qed
qed

definition capture_total :: "'r capture \<Rightarrow> u64" where
  "capture_total S = ct_outbound_redirected S + ct_inbound_rewritten S + ct_dropped_unparseable S"

section \<open>Interfaces\<close>

text \<open>The flow table is an idle table, with the source port as its key and nothing protected.\<close>

interpretation flow_table: idle_table hm_get hm_insert retain_flows fe_last_seen "\<lambda>_ _. False" hm_wf
  by unfold_locales (auto simp: retain_flows_def hm_get_retain split: option.splits)

text \<open>
  What the capture relies on of a resolver: in the states it can be in (\<open>good\<close>) it answers without
  panicking and stays in one, and it only ever rewrites to one of the targets given when the capture
  was set up, the addresses the inbound half of the filter is built from.
\<close>

locale route_resolver =
  fixes resolve :: "'r resolver"
    and targets :: "sock_addr list"
    and good :: "'r \<Rightarrow> bool"
  assumes answers: "good r \<Longrightarrow> \<exists>action r'. resolve d proto r = Ok (action, r')"
    and stays_good: "good r \<Longrightarrow> resolve d proto r = Ok (action, r') \<Longrightarrow> good r'"
    and rewrites_to_target: "good r \<Longrightarrow> resolve d proto r = Ok (RewriteTo tgt, r') \<Longrightarrow> tgt \<in> set targets"
begin

definition flows_to_targets :: "flows \<Rightarrow> bool" where
  "flows_to_targets fl \<longleftrightarrow> (\<forall>p e. hm_get fl p = Some e \<longrightarrow> fe_redirect_target e \<in> set targets)"

lemma process_packet_good:
  assumes "good r" and "flows_to_targets fl"
  shows "\<exists>res r' fl'. process_packet resolve t d outbound r fl = Ok (res, r', fl') \<and> good r' \<and> flows_to_targets fl'"
proof (cases d rule: parse_ip_cases)
  case none
  then show ?thesis using assms by (simp add: process_unparsed)
next
  case (some hl proto)
  show ?thesis
  proof (cases outbound)
    case True
    obtain action r' where res: "resolve (sock_addr_new (V4 (ip_dst d)) (l4_dst hl d)) proto r = Ok (action, r')"
      using answers [OF assms(1)] by blast
    note good = stays_good [OF assms(1) res]
    show ?thesis
    proof (cases action)
      case (RewriteTo tgt)
      then have "tgt \<in> set targets" using rewrites_to_target [OF assms(1)] res by blast
      then show ?thesis
        using True res RewriteTo good assms(2)
        by (cases "sa_ip tgt") (auto simp: process_outbound [OF some(1,2,4)] flows_to_targets_def)
    qed (use True res good assms(2) in \<open>simp add: process_outbound [OF some(1,2,4)]\<close>)
  next
    case False
    then show ?thesis
      using assms
      by (cases "hm_get fl (l4_dst hl d)") (auto simp: process_inbound [OF some(1,2,4)] flows_to_targets_def)
  qed
qed

text \<open>A turn of the loop keeps all this; it panics only in the reaping, when the clock is young.\<close>

lemma capture_turn_good:
  assumes "good (ct_resolver S)" and "flows_to_targets (ct_flows S)" and "hm_wf (ct_flows S)"
    and "lo \<le> t - cc_flow_idle cfg"
  shows "\<exists>S'. capture_turn lo cfg resolve recalc sends t received S = Ok S'
    \<and> good (ct_resolver S') \<and> flows_to_targets (ct_flows S')"
proof -
  obtain S1 where S1: "capture_reap lo cfg t S = Ok S1" "good (ct_resolver S1)" "flows_to_targets (ct_flows S1)"
    using assms flow_table.reap_only_removes [OF assms(3)] unfolding flows_to_targets_def
    by (cases "secs 15 < t - ct_last_reap S") (auto simp: capture_reap_def reap_flows_def instant_sub_def, blast)
  show ?thesis
  proof (cases received)
    case None
    then show ?thesis using S1 by (simp add: capture_turn_def)
  next
    case (Some p)
    obtain d out where p: "p = (d, out)" by fastforce
    obtain res r' fl' where "process_packet resolve t d out (ct_resolver S1) (ct_flows S1) = Ok (res, r', fl')"
      "good r'" "flows_to_targets fl'"
      using process_packet_good [OF S1(2,3)] by blast
    then show ?thesis
      using S1(1) Some p
      by (cases res; cases "recalc (the res)")
        (auto simp: capture_turn_def capture_packet_def Let_def capture_emit_def)
  qed
qed

end

definition rule_matches :: "sock_addr \<Rightarrow> protocol \<Rightarrow> redirect_rule \<Rightarrow> bool" where
  "rule_matches dst proto r \<longleftrightarrow> rr_protocol r = proto \<and> rr_dst_ip r = sa_ip dst
     \<and> rr_dst_port_lo r \<le> sa_port dst \<and> sa_port dst \<le> rr_dst_port_hi r"

lemma fixed_resolve_find:
  "fixed_resolve rules dst proto =
     (case find (rule_matches dst proto) rules of
        None \<Rightarrow> Passthrough
      | Some r \<Rightarrow> RewriteTo (sock_addr_new (rr_redirect_to_ip r) (rr_redirect_to_port r)))"
  by (induction rules) (auto simp: rule_matches_def)

lemma fixed_resolve_target:
  "fixed_resolve rules dst proto = RewriteTo tgt \<Longrightarrow>
     \<exists>r \<in> set rules. tgt = sock_addr_new (rr_redirect_to_ip r) (rr_redirect_to_port r)"
  by (induction rules) (auto split: if_splits)

interpretation fixed: route_resolver "fixed_resolver rules" "cc_redirect_targets (fst (with_rules rules bridges))"
  "\<lambda>_. True" for rules bridges
  by unfold_locales (auto simp: fixed_resolver_def with_rules_def dest: fixed_resolve_target)

text \<open>A reply to a recorded flow leaves the driver with the flow's original destination as its
  source.\<close>

lemma reply_restored:
  assumes "hm_get fl port = Some \<lparr>fe_orig_dst_ip = ip, fe_orig_dst_port = dport, fe_redirect_target = target, fe_last_seen = t0\<rparr>"
    and p: "parse_ip reply = Ok (Some (hl, proto)) \<and> l4_dst hl reply = port"
  shows "\<exists>out fl'. process_packet resolve t reply False r fl = Ok (Some out, r, fl')
    \<and> ip_src out = ip \<and> l4_src hl out = dport \<and> ip_dst out = ip_dst reply \<and> l4_dst hl out = port"
proof -
  have b: "20 \<le> hl" "hl + 8 \<le> length reply"
    using p by (cases reply rule: parse_ip_cases; simp)+
  show ?thesis
    using p assms(1) rewrite_src_fields [OF b] by (simp add: process_inbound [OF conjunct1 [OF p] b])
qed

section \<open>Properties\<close>

text \<open>A 20-byte header with protocol 17 and its UDP ports, for the witnesses.\<close>

definition sample_packet :: "u32 \<Rightarrow> u16 \<Rightarrow> u32 \<Rightarrow> u16 \<Rightarrow> bytes" where
  "sample_packet src sp dst dp =
     [0x45, 0, 0, 28, 0, 0, 0, 0, 64, 17, 0, 0] @ to_be_bytes src @ to_be_bytes dst
     @ to_be_bytes sp @ to_be_bytes dp @ [0, 8, 0, 0]"

definition sample_target :: sock_addr where
  "sample_target = sock_addr_new localhost 9000"

definition sample_rules :: "redirect_rule list" where
  "sample_rules = [\<lparr>rr_protocol = ProtoUdp, rr_dst_ip = V4 0x01020304, rr_dst_port_lo = 7000,
     rr_dst_port_hi = 7999, rr_redirect_to_ip = localhost, rr_redirect_to_port = 9000\<rparr>]"




lemma sample_outbound:
  "process_packet (fixed_resolver sample_rules) 5 (sample_packet 0x0A000001 5000 0x01020304 7777) True () []
   = Ok (Some (sample_packet 0x0A000001 5000 0x7F000001 9000), (),
       [(5000, \<lparr>fe_orig_dst_ip = 0x01020304, fe_orig_dst_port = 7777, fe_redirect_target = sample_target, fe_last_seen = 5\<rparr>)])"
  by code_simp


text \<open>Flows are told apart by the local port alone.  If the game sends from one port to two
  destinations and both are redirected, every reply to that port, whichever destination it answers,
  is made to come from the second.\<close>

theorem nat_second_destination_wins:
  assumes "parse_ip d1 = Ok (Some (hl1, proto1))" and "parse_ip d2 = Ok (Some (hl2, proto2))"
    and "l4_src hl1 d1 = l4_src hl2 d2"
    and "process_packet resolve t1 d1 True r fl = Ok (Some out1, r1, fl1)"
    and "process_packet resolve t2 d2 True r1 fl1 = Ok (Some out2, r2, fl2)"
    and "parse_ip reply = Ok (Some (hl, proto))" and "l4_dst hl reply = l4_src hl1 d1"
  shows "\<exists>out' fl3. process_packet resolve t3 reply False r2 fl2 = Ok (Some out', r2, fl3)
    \<and> ip_src out' = ip_dst d2 \<and> l4_src hl out' = l4_dst hl2 d2"
proof -
  have b: "20 \<le> hl2" "hl2 + 8 \<le> length d2"
    using assms(2) by (cases d2 rule: parse_ip_cases; simp)+
  have b': "20 \<le> hl" "hl + 8 \<le> length reply"
    using assms(6) by (cases reply rule: parse_ip_cases; simp)+
  obtain e where "hm_get fl2 (l4_src hl1 d1) = Some e" "fe_orig_dst_ip e = ip_dst d2" "fe_orig_dst_port e = l4_dst hl2 d2"
    using assms(3,5) unfolding process_outbound_Some [OF assms(2) b] by auto
  then show ?thesis
    using assms(7) rewrite_src_fields [OF b'] by (simp add: process_inbound [OF assms(6) b'])
qed

theorem nat_second_destination_wins_witness:
  "\<exists>out' fl3. process_packet (fixed_resolver sample_rules) 8 (sample_packet 0x7F000001 9000 0x0A000001 5000) False ()
      [(5000, \<lparr>fe_orig_dst_ip = 0x01020304, fe_orig_dst_port = 7001, fe_redirect_target = sample_target, fe_last_seen = 6\<rparr>)]
      = Ok (Some out', (), fl3)
    \<and> ip_src out' = 0x01020304 \<and> l4_src 20 out' = 7001"
proof -
  let ?d1 = "sample_packet 0x0A000001 5000 0x01020304 7777"
  let ?d2 = "sample_packet 0x0A000001 5000 0x01020304 7001"
  let ?r = "sample_packet 0x7F000001 9000 0x0A000001 5000"
  have p: "parse_ip ?d1 = Ok (Some (20, ProtoUdp))" "parse_ip ?d2 = Ok (Some (20, ProtoUdp))"
    "parse_ip ?r = Ok (Some (20, ProtoUdp))" by code_simp+
  have f: "l4_src 20 ?d1 = 5000" "l4_src 20 ?d2 = 5000" "l4_dst 20 ?r = 5000" "ip_dst ?d2 = 0x01020304"
    "l4_dst 20 ?d2 = 7001" by code_simp+
  have second: "process_packet (fixed_resolver sample_rules) 6 ?d2 True ()
     [(5000, \<lparr>fe_orig_dst_ip = 0x01020304, fe_orig_dst_port = 7777, fe_redirect_target = sample_target, fe_last_seen = 5\<rparr>)]
   = Ok (Some (sample_packet 0x0A000001 5000 0x7F000001 9000), (),
       [(5000, \<lparr>fe_orig_dst_ip = 0x01020304, fe_orig_dst_port = 7001, fe_redirect_target = sample_target, fe_last_seen = 6\<rparr>)])"
    by code_simp
  have eqs: "l4_src 20 ?d1 = l4_src 20 ?d2" "l4_dst 20 ?r = l4_src 20 ?d1"
    by (simp_all add: f)
  from nat_second_destination_wins [OF p(1,2) eqs(1) sample_outbound second p(3) eqs(2), where ?t3.0 = 8]
  show ?thesis by (auto simp: f)
qed



text \<open>A fixed-rule resolver redirects a destination exactly when some rule matches its protocol,
  address and (inclusive) port range, and then to the target of the first such rule.\<close>

theorem fixed_resolve_first_match:
  "(fixed_resolve rules dst proto = RewriteTo tgt \<longleftrightarrow>
      (\<exists>i < length rules. rule_matches dst proto (rules ! i) \<and> (\<forall>j < i. \<not> rule_matches dst proto (rules ! j))
         \<and> tgt = sock_addr_new (rr_redirect_to_ip (rules ! i)) (rr_redirect_to_port (rules ! i))))
   \<and> (fixed_resolve rules dst proto = Passthrough \<longleftrightarrow> (\<forall>r \<in> set rules. \<not> rule_matches dst proto r))"
  unfolding fixed_resolve_find
  by (auto simp: find_None_iff find_Some_iff split: option.splits) (metis nth_mem nat_neq_iff)+

text \<open>Flows live for two minutes of silence, no less: a reaping pass drops exactly the flows not
  seen since the cutoff.  On a platform whose clock starts at boot, the pass itself panics, and the
  capture thread with it, when it runs within the first two minutes after boot.\<close>

theorem flow_reaping:
  assumes "hm_wf fl"
  shows "case reap_flows lo t (secs 120) fl of
      Ok fl' \<Rightarrow> lo \<le> t - 120000000000 \<and> hm_wf fl' \<and>
        (\<forall>p e. hm_get fl' p = Some e \<longleftrightarrow> hm_get fl p = Some e \<and> t - fe_last_seen e \<le> 120000000000)
    | Err _ \<Rightarrow> False
    | Panic \<Rightarrow> t < lo + 120000000000"
proof -
  have "secs 120 = 120000000000" by (simp add: secs_def)
  then show ?thesis
    using flow_table.wf_reap [OF assms] flow_table.get_reap [OF assms]
    by (auto simp: reap_flows_def instant_sub_def split: option.splits if_splits)
qed

theorem flow_reaping_witness:
  "case reap_flows 0 60000000000 (secs 120) [] of
      Ok fl' \<Rightarrow> 0 \<le> 60000000000 - (120000000000 :: int) \<and> hm_wf fl' \<and>
        (\<forall>p e. hm_get fl' p = Some e \<longleftrightarrow> hm_get [] p = Some e \<and> 60000000000 - fe_last_seen e \<le> 120000000000)
    | Err _ \<Rightarrow> False
    | Panic \<Rightarrow> (60000000000 :: int) < 0 + 120000000000"
  by (rule flow_reaping) simp

text \<open>A failed start is remembered as a running capture.  The running flag is set before the
  filter is built, so after \<open>start\<close> has failed for want of redirect targets, every later \<open>start\<close>
  reports success without a capture thread, until \<open>stop\<close> is called.\<close>

theorem start_after_failed_start:
  assumes "cc_redirect_targets cfg = []" and "\<not> ct_running S"
  shows "\<exists>e S'. capture_start cfg spawn S = (Err e, S') \<and> ct_threads S' = ct_threads S
    \<and> capture_start cfg' spawn' S' = (Ok (), S')
    \<and> \<not> ct_running (capture_stop S')"
  using assms by (simp add: capture_start_def build_filter_def capture_stop_def)

theorem start_after_failed_start_witness:
  "\<exists>e S'. capture_start (with_resolver [] []) (Ok ()) (capture_init ()) = (Err e, S')
    \<and> ct_threads S' = ct_threads (capture_init ())
    \<and> capture_start (with_resolver [sample_target] []) (Ok ()) S' = (Ok (), S')
    \<and> \<not> ct_running (capture_stop S')"
  by (rule start_after_failed_start) (simp_all add: with_resolver_def capture_init_def)

text \<open>Nothing is lost silently.  A turn that receives a packet (and whose re-injection works)
  either sends one packet and counts it once, or fails to recompute the checksums of a rewritten
  packet, sends nothing and counts nothing.  What it sends is the packet as received, counted as
  \<open>dropped_unparseable\<close> although it is passed on, or a rewritten one of the same length.\<close>

theorem every_packet_accounted:
  assumes "capture_turn lo cfg resolve recalc True t (Some (d, outbound)) S = Ok S'"
  shows "(\<exists>m. recalc m = None \<and> ct_sent S' = ct_sent S \<and> capture_total S' = capture_total S)
    \<or> (\<exists>p. ct_sent S' = ct_sent S @ [p] \<and> capture_total S' = capture_total S + 1
        \<and> (p = d \<and> ct_dropped_unparseable S' = ct_dropped_unparseable S + 1
           \<or> (\<exists>m. recalc m = Some p \<and> length m = length d
                 \<and> ct_dropped_unparseable S' = ct_dropped_unparseable S)))"
proof -
  obtain S1 where S1: "capture_reap lo cfg t S = Ok S1"
    and run: "capture_packet resolve recalc True t d outbound S1 = Ok S'"
    using assms by (auto simp: capture_turn_def)
  have same: "ct_sent S1 = ct_sent S" "capture_total S1 = capture_total S"
    "ct_dropped_unparseable S1 = ct_dropped_unparseable S"
    using S1 by (auto simp: capture_reap_def capture_total_def split: if_splits)
  obtain res r' fl' where p: "process_packet resolve t d outbound (ct_resolver S1) (ct_flows S1) = Ok (res, r', fl')"
    using run by (auto simp: capture_packet_def)
  show ?thesis
  proof (cases res)
    case None
    then show ?thesis
      using run p same by (auto simp: capture_packet_def Let_def capture_emit_def capture_total_def)
  next
    case (Some m)
    have len: "length m = length d"
      using p process_packet_length [of resolve t d outbound "ct_resolver S1" "ct_flows S1" m r' fl'] Some by simp
    show ?thesis
      using run p same Some len
      by (cases "recalc m") (auto simp: capture_packet_def Let_def capture_emit_def capture_total_def split: if_splits)
  qed
qed

theorem every_packet_accounted_witness:
  "\<exists>S'. capture_turn 0 (with_resolver [] []) (fixed_resolver []) Some True 5 (Some ([1, 2, 3], True)) (capture_init ()) = Ok S'
    \<and> ct_sent S' = [[1, 2, 3]]"
proof -
  let ?turn = "capture_turn 0 (with_resolver [] []) (fixed_resolver []) Some True 5 (Some ([1, 2, 3], True)) (capture_init ())"
  have "case ?turn of Ok S \<Rightarrow> ct_sent S = [[1, 2, 3]] | _ \<Rightarrow> False" by code_simp
  then obtain S' where S': "?turn = Ok S'" and sent: "ct_sent S' = [[1, 2, 3]]" by (cases ?turn) auto
  then show ?thesis
    using every_packet_accounted [OF S'] by auto
qed

text \<open>With IPv6 targets only, the inbound half of the filter is an empty parenthesis.\<close>

lemma filter_without_ipv4_targets:
  assumes "cc_redirect_targets cfg \<noteq> []" and "\<forall>a \<in> set (cc_redirect_targets cfg). \<not> is_ipv4 (sa_ip a)"
  shows "\<exists>outbound_excludes.
    build_filter cfg = Ok (''(udp and outbound'' @ outbound_excludes @ '') or (udp and inbound and ('' @ [] @ ''))'')"
proof -
  have "concat (map inbound_of (cc_redirect_targets cfg)) = []"
    using assms(2) by (auto split: ip_addr.splits)
  with assms(1) show ?thesis
    unfolding build_filter_def Let_def by (simp only: if_False join.simps) (rule exI, rule refl)
qed

end
