(* ===== verification/Lp_Bridge.thy ===== *)
theory Lp_Bridge
  imports Lp_Handshake Lp_License
begin

text \<open>
  The relay server (\<open>crates/gr-bridge\<close>): its configuration (\<open>config.rs\<close>), the per-tunnel sessions
  (\<open>session.rs\<close>) and the operations of its tasks (\<open>server.rs\<close>), each as a function of the shared
  state.  \<open>Lp_Bridge_System\<close> interleaves them.
\<close>

section \<open>Sessions\<close>

record session_key =
  sk_client_addr :: sock_addr
  sk_connection_id :: u32

text \<open>The halves of a destination socket; sockets are named by the numbers the system gives them.\<close>

datatype dest_writer = WTcp nat | WUdp nat
datatype dest_reader = RTcp nat | RUdp nat

record session =
  sn_aead_key :: bytes
  sn_tx_sequence :: u64
  sn_last_active :: instant
  sn_dest_writer :: dest_writer

definition session_new :: "instant \<Rightarrow> bytes \<Rightarrow> dest_writer \<Rightarrow> session" where
  "session_new t aead_key writer =
     \<lparr>sn_aead_key = aead_key, sn_tx_sequence = 0, sn_last_active = t, sn_dest_writer = writer\<rparr>"

section \<open>Configuration\<close>

datatype bridge_error =
  EProto protocol_error
| EHandshake handshake_error
| ELicense license_error
| EHex string
| EKeyLength nat
| EKeyInvalid
| EBind string
| BadVersion u8
| TableFull
| SynTooShort
| MissingScope
| NoSession session_key
| EConnect sock_addr string
| EConnectTimeout sock_addr

record bridge_config =
  bc_listen :: sock_addr
  bc_bridge_x25519_seckey_hex :: string
  bc_backend_ed25519_pubkey_hex :: string
  bc_allow_any_scope :: bool
  bc_max_sessions :: nat
  bc_idle_timeout_secs :: u64
  bc_metrics_listen :: "sock_addr option"

definition default_max_sessions :: nat where "default_max_sessions = 10000"
definition default_idle_timeout :: u64 where "default_idle_timeout = 300"

definition parsed_x25519_secret :: "crypto \<Rightarrow> bridge_config \<Rightarrow> (bytes, bridge_error) rs" where
  "parsed_x25519_secret C cfg =
     rs_bind (rs_map_err EHex (hex_decode C (bc_bridge_x25519_seckey_hex cfg))) (\<lambda>bs.
     rs_map_err EHandshake (secret_from_bytes bs))"

definition parsed_backend_pubkey :: "crypto \<Rightarrow> bridge_config \<Rightarrow> (bytes, bridge_error) rs" where
  "parsed_backend_pubkey C cfg =
     rs_bind (rs_map_err EHex (hex_decode C (bc_backend_ed25519_pubkey_hex cfg))) (\<lambda>bs.
     if length bs \<noteq> 32 then Err (EKeyLength (length bs))
     else if ed_key_valid C bs then Ok bs else Err EKeyInvalid)"

section \<open>Shared state\<close>

text \<open>
  \<open>BridgeState\<close>: the constant part is \<open>bridge_ctx\<close>.  The table maps keys to shared references
  (\<open>Arc<Mutex<Session>>\<close>): a session lives in \<open>br_heap\<close> at the position its references name, and
  stays there while a task still holds one after its key has been removed or rebound.
  \<open>br_locked\<close> names the sessions whose mutex is held across an \<open>await\<close>.  The remaining fields are
  the tasks in flight and, last, logs of what was sent on the UDP socket (with the session it was
  sent for) and written to destinations.
\<close>

record bridge_ctx =
  bx_config :: bridge_config
  bx_bridge_secret :: bytes
  bx_backend_pubkey :: bytes

record downstream_packet =
  dp_session_key :: session_key
  dp_payload :: bytes

datatype reaper_task = Sleeping | Removing "session_key list" | Dead

record bridge =
  br_sessions :: "(session_key, nat) hmap"
  br_heap :: "session list"
  br_locked :: "nat set"
  br_accepting :: "(session_key \<times> bytes \<times> connect_request) list"
  br_forwarding :: "(nat \<times> bytes) list"
  br_writing :: "(nat \<times> dest_writer \<times> bytes) list"
  br_draining :: "(session_key \<times> dest_reader) list"
  br_queue :: "downstream_packet list"
  br_sending :: "(downstream_packet \<times> nat) option"
  br_reaper :: reaper_task
  br_sent :: "(nat \<times> bytes \<times> sock_addr) list"
  br_written :: "(dest_writer \<times> bytes) list"

definition bridge_init :: bridge where
  "bridge_init = \<lparr>br_sessions = hm_empty, br_heap = [], br_locked = {}, br_accepting = [],
     br_forwarding = [], br_writing = [], br_draining = [], br_queue = [], br_sending = None,
     br_reaper = Sleeping, br_sent = [], br_written = []\<rparr>"

text \<open>\<open>run\<close> up to its receive loop; \<open>bind\<close> is the outcome of binding the listening socket.  The sender and
  the reaper it spawns begin as \<open>bridge_init\<close> has them: nothing being sent, the reaper asleep.\<close>

definition bridge_run_start ::
  "crypto \<Rightarrow> bridge_config \<Rightarrow> (unit, string) rs \<Rightarrow> (bridge_ctx \<times> bridge, bridge_error) rs" where
  "bridge_run_start C cfg bind =
     rs_bind (parsed_x25519_secret C cfg) (\<lambda>secret.
     rs_bind (parsed_backend_pubkey C cfg) (\<lambda>pubkey.
     rs_bind (rs_map_err EBind bind) (\<lambda>_.
     Ok (\<lparr>bx_config = cfg, bx_bridge_secret = secret, bx_backend_pubkey = pubkey\<rparr>, bridge_init))))"

section \<open>Accepting sessions\<close>

text \<open>
  \<open>accept_new_session\<close> up to \<open>open_dest\<close>: \<open>n\<close> is the size of the session table and \<open>now\<close> the
  Unix time.
\<close>

definition accept_check ::
  "crypto \<Rightarrow> bridge_ctx \<Rightarrow> nat \<Rightarrow> i64 \<Rightarrow> bytes \<Rightarrow> (bytes \<times> connect_request, bridge_error) rs" where
  "accept_check C X n now_ts pkt =
     (if bc_max_sessions (bx_config X) \<le> n then Err TableFull
      else
        rs_bind (rs_map_err EProto (parse_syn_front pkt)) (\<lambda>(_, client_pk_bytes).
        rs_bind (rs_map_err EHandshake (pubkey_from_bytes client_pk_bytes)) (\<lambda>client_pk.
        rs_bind (bridge_derive_session_key C (bx_bridge_secret X) client_pk) (\<lambda>aead_key.
        rs_bind (rs_map_err EProto (decrypt_syn_payload C aead_key pkt)) (\<lambda>inner.
        if length inner < TOKEN_LEN + 4 then Err SynTooShort
        else
          rs_bind (slice inner 0 TOKEN_LEN) (\<lambda>tb.
          rs_bind (rs_map_err ELicense (token_from_bytes tb)) (\<lambda>token.
          rs_bind (rs_map_err ELicense (token_verify C token (bx_backend_pubkey X) now_ts)) (\<lambda>_.
          if \<not> bc_allow_any_scope (bx_config X) \<and> lp_scope (lt_payload token) AND 1 = 0
          then Err MissingScope
          else
            rs_bind (slice inner TOKEN_LEN (length inner)) (\<lambda>cb.
            rs_bind (rs_map_err EProto (connect_decode cb)) (\<lambda>connect.
            Ok (aead_key, connect)))))))))))"

text \<open>
  \<open>open_dest\<close>: what the operating system answers when the task asks it is a \<open>dest_env\<close>.  A TCP
  connect that takes over ten seconds is \<open>None\<close>.  The UDP socket is bound in the family of the
  destination and then connected; both of its halves are the one socket.
\<close>

record dest_env =
  de_tcp_connect :: "sock_addr \<Rightarrow> (nat, string) rs option"
  de_udp_bind :: "ip_addr \<Rightarrow> (nat, string) rs"
  de_udp_connect :: "nat \<Rightarrow> sock_addr \<Rightarrow> (unit, string) rs"

definition open_dest :: "dest_env \<Rightarrow> connect_request \<Rightarrow> (dest_writer \<times> dest_reader, bridge_error) rs" where
  "open_dest E connect =
     (let addr = sock_addr_new (cr_dest_ip connect) (cr_dest_port connect) in
      case cr_protocol connect of
        Tcp \<Rightarrow>
          (case de_tcp_connect E addr of
             None \<Rightarrow> Err (EConnectTimeout addr)
           | Some r \<Rightarrow> rs_bind (rs_map_err (EConnect addr) r) (\<lambda>s. Ok (WTcp s, RTcp s)))
      | Udp \<Rightarrow>
          rs_bind (rs_map_err (EConnect addr) (de_udp_bind E (if is_ipv4 (sa_ip addr) then V4 0 else V6 0))) (\<lambda>s.
          rs_bind (rs_map_err (EConnect addr) (de_udp_connect E s addr)) (\<lambda>_. Ok (WUdp s, RUdp s))))"

text \<open>\<open>sessions.write().insert(key, Arc::new(Mutex::new(session)))\<close>.\<close>

definition insert_session :: "session_key \<Rightarrow> session \<Rightarrow> bridge \<Rightarrow> bridge" where
  "insert_session key s B =
     B\<lparr>br_sessions := hm_insert key (length (br_heap B)) (br_sessions B), br_heap := br_heap B @ [s]\<rparr>"

text \<open>The rest of \<open>accept_new_session\<close>: register the session and spawn its drain task.\<close>

definition accept_commit :: "session_key \<Rightarrow> bytes \<Rightarrow> dest_writer \<Rightarrow> dest_reader \<Rightarrow> instant \<Rightarrow> bridge \<Rightarrow> bridge" where
  "accept_commit key aead_key writer reader t B =
     (insert_session key (session_new t aead_key writer) B)\<lparr>br_draining := br_draining B @ [(key, reader)]\<rparr>"

definition accept_new_session ::
  "crypto \<Rightarrow> bridge_ctx \<Rightarrow> dest_env \<Rightarrow> i64 \<Rightarrow> instant \<Rightarrow> session_key \<Rightarrow> bytes \<Rightarrow> bridge
     \<Rightarrow> (bridge, bridge_error) rs" where
  "accept_new_session C X E now_ts t key pkt B =
     rs_bind (accept_check C X (hm_len (br_sessions B)) now_ts pkt) (\<lambda>(aead_key, connect).
     rs_bind (open_dest E connect) (\<lambda>(writer, reader).
     Ok (accept_commit key aead_key writer reader t B)))"

section \<open>Forwarding to the destination\<close>

text \<open>
  \<open>forward_data\<close> between taking the session's mutex and the socket write: the frame is decrypted
  and the session stamped; the write that follows is returned.
\<close>

definition forward_locked ::
  "crypto \<Rightarrow> instant \<Rightarrow> nat \<Rightarrow> bytes \<Rightarrow> bridge \<Rightarrow> (bridge \<times> dest_writer \<times> bytes, bridge_error) rs" where
  "forward_locked C t sid pkt B =
     (let sess = br_heap B ! sid in
      rs_bind (rs_map_err EProto (decrypt_frame C (sn_aead_key sess) pkt)) (\<lambda>(_, payload).
      Ok (B\<lparr>br_heap := (br_heap B)[sid := sess\<lparr>sn_last_active := t\<rparr>]\<rparr>, sn_dest_writer sess, payload)))"

text \<open>\<open>forward_data\<close> when nothing else runs in between and the destination takes the bytes.\<close>

definition forward_data ::
  "crypto \<Rightarrow> instant \<Rightarrow> session_key \<Rightarrow> bytes \<Rightarrow> bridge \<Rightarrow> (bridge, bridge_error) rs" where
  "forward_data C t key pkt B =
     rs_bind (ok_or (NoSession key) (hm_get (br_sessions B) key)) (\<lambda>sid.
     rs_bind (forward_locked C t sid pkt B) (\<lambda>(B', writer, payload).
     Ok (B'\<lparr>br_written := br_written B' @ [(writer, payload)]\<rparr>)))"

text \<open>
  \<open>handle_packet\<close>, run to the end on its own.  (Its steps between \<open>await\<close>s are taken apart in
  \<open>Lp_Bridge_System\<close>.)
\<close>

definition packet_header :: "bytes \<Rightarrow> (header, bridge_error) rs" where
  "packet_header pkt =
     rs_bind (rs_map_err EProto (header_decode pkt)) (\<lambda>h.
     if h_version h \<noteq> PROTO_VERSION then Err (BadVersion (h_version h)) else Ok h)"

definition handle_packet ::
  "crypto \<Rightarrow> bridge_ctx \<Rightarrow> dest_env \<Rightarrow> i64 \<Rightarrow> instant \<Rightarrow> sock_addr \<Rightarrow> bytes \<Rightarrow> bridge
     \<Rightarrow> (bridge, bridge_error) rs" where
  "handle_packet C X E now_ts t peer pkt B =
     rs_bind (packet_header pkt) (\<lambda>h.
     let key = \<lparr>sk_client_addr = peer, sk_connection_id = h_connection_id h\<rparr> in
     if contains_flag (h_flags h) SYN then accept_new_session C X E now_ts t key pkt B
     else forward_data C t key pkt B)"

section \<open>The way back\<close>

text \<open>
  \<open>drain_dest\<close>: one completed read.  The buffer holds 1200 bytes, so a longer datagram is cut
  (and a TCP read returns at most that many); reading zero bytes from TCP ends the task, as does
  an error.
\<close>

definition drain_step ::
  "session_key \<Rightarrow> dest_reader \<Rightarrow> (bytes, string) rs \<Rightarrow> bridge \<Rightarrow> bridge option" where
  "drain_step key reader result B =
     (case result of
        Ok bs \<Rightarrow>
          let n = take MAX_PAYLOAD_LEN bs in
          if n = [] \<and> (case reader of RTcp _ \<Rightarrow> True | RUdp _ \<Rightarrow> False) then None
          else Some (B\<lparr>br_queue := br_queue B @ [\<lparr>dp_session_key = key, dp_payload = n\<rparr>]\<rparr>)
      | _ \<Rightarrow> None)"

text \<open>
  \<open>downstream_sender\<close> once it holds the session's mutex: count, encrypt, send.
\<close>

definition send_locked :: "crypto \<Rightarrow> downstream_packet \<Rightarrow> nat \<Rightarrow> bridge \<Rightarrow> bridge" where
  "send_locked C pkt sid B =
     (let sess = br_heap B ! sid;
          sess = sess\<lparr>sn_tx_sequence := sn_tx_sequence sess + 1\<rparr>;
          h = \<lparr>h_version = PROTO_VERSION, h_flags = flags_empty,
               h_connection_id = sk_connection_id (dp_session_key pkt), h_sequence = sn_tx_sequence sess\<rparr>;
          B = B\<lparr>br_heap := (br_heap B)[sid := sess]\<rparr>
      in case encrypt_frame C (sn_aead_key sess) h (dp_payload pkt) of
           Ok w \<Rightarrow> B\<lparr>br_sent := br_sent B @ [(sid, w, sk_client_addr (dp_session_key pkt))]\<rparr>
         | _ \<Rightarrow> B)"

text \<open>One round of \<open>downstream_sender\<close> on its own.\<close>

definition downstream_round :: "crypto \<Rightarrow> bridge \<Rightarrow> bridge" where
  "downstream_round C B =
     (case br_queue B of
        [] \<Rightarrow> B
      | pkt # rest \<Rightarrow>
          let B = B\<lparr>br_queue := rest\<rparr> in
          case hm_get (br_sessions B) (dp_session_key pkt) of
            None \<Rightarrow> B
          | Some sid \<Rightarrow> send_locked C pkt sid B)"

section \<open>Reaping\<close>

text \<open>
  \<open>idle_reaper\<close>: the first pass collects the keys whose session is not locked and was last
  active before the cutoff, the second removes them.  \<open>lo\<close> is the least instant of the platform:
  the subtraction panics below it, which ends the task (and, in the release profile, where panics
  abort, the process).
\<close>

definition reap_scan :: "instant \<Rightarrow> bridge \<Rightarrow> session_key list" where
  "reap_scan cutoff B =
     hm_select (\<lambda>_ sid. sid \<notin> br_locked B \<and> sn_last_active (br_heap B ! sid) < cutoff) (br_sessions B)"

definition reap_remove :: "session_key list \<Rightarrow> bridge \<Rightarrow> bridge" where
  "reap_remove to_drop B = B\<lparr>br_sessions := hm_remove_all to_drop (br_sessions B)\<rparr>"

definition reap_sessions :: "instant \<Rightarrow> bridge \<Rightarrow> bridge" where
  "reap_sessions cutoff B = reap_remove (reap_scan cutoff B) B"

definition reap_cutoff :: "instant \<Rightarrow> bridge_ctx \<Rightarrow> instant \<Rightarrow> (instant, 'e) rs" where
  "reap_cutoff lo X t = instant_sub lo t (secs (bc_idle_timeout_secs (bx_config X)))"

definition idle_reaper_round :: "instant \<Rightarrow> bridge_ctx \<Rightarrow> instant \<Rightarrow> bridge \<Rightarrow> (bridge, 'e) rs" where
  "idle_reaper_round lo X t B = rs_bind (reap_cutoff lo X t) (\<lambda>cutoff. Ok (reap_sessions cutoff B))"

section \<open>The session table\<close>

definition session_of :: "bridge \<Rightarrow> session_key \<Rightarrow> session option" where
  "session_of B k = map_option (\<lambda>sid. br_heap B ! sid) (hm_get (br_sessions B) k)"

text \<open>
  The table names live sessions, no session under two keys, and only live sessions are locked.
\<close>

definition table_ok :: "bridge \<Rightarrow> bool" where
  "table_ok B \<longleftrightarrow> hm_wf (br_sessions B)
     \<and> (\<forall>k sid. hm_get (br_sessions B) k = Some sid \<longrightarrow> sid < length (br_heap B))
     \<and> (\<forall>k k' sid. hm_get (br_sessions B) k = Some sid \<longrightarrow> hm_get (br_sessions B) k' = Some sid \<longrightarrow> k = k')
     \<and> (\<forall>sid \<in> br_locked B. sid < length (br_heap B))"

definition session_locked :: "bridge \<Rightarrow> session_key \<Rightarrow> bool" where
  "session_locked B k \<longleftrightarrow> (\<exists>sid \<in> br_locked B. hm_get (br_sessions B) k = Some sid)"

text \<open>Both depend on the table, the heap and the locks only.\<close>

lemma session_of_other [simp]:
  "session_of (B\<lparr>br_accepting := x0\<rparr>) = session_of B"
  "session_of (B\<lparr>br_forwarding := x1\<rparr>) = session_of B"
  "session_of (B\<lparr>br_writing := x2\<rparr>) = session_of B"
  "session_of (B\<lparr>br_draining := x3\<rparr>) = session_of B"
  "session_of (B\<lparr>br_queue := x4\<rparr>) = session_of B"
  "session_of (B\<lparr>br_sending := x5\<rparr>) = session_of B"
  "session_of (B\<lparr>br_reaper := x6\<rparr>) = session_of B"
  "session_of (B\<lparr>br_sent := x7\<rparr>) = session_of B"
  "session_of (B\<lparr>br_written := x8\<rparr>) = session_of B"
  "session_of (B\<lparr>br_locked := x9\<rparr>) = session_of B"
  by (simp_all add: session_of_def fun_eq_iff)

lemma table_ok_other [simp]:
  "table_ok (B\<lparr>br_accepting := x0\<rparr>) = table_ok B"
  "table_ok (B\<lparr>br_forwarding := x1\<rparr>) = table_ok B"
  "table_ok (B\<lparr>br_writing := x2\<rparr>) = table_ok B"
  "table_ok (B\<lparr>br_draining := x3\<rparr>) = table_ok B"
  "table_ok (B\<lparr>br_queue := x4\<rparr>) = table_ok B"
  "table_ok (B\<lparr>br_sending := x5\<rparr>) = table_ok B"
  "table_ok (B\<lparr>br_reaper := x6\<rparr>) = table_ok B"
  "table_ok (B\<lparr>br_sent := x7\<rparr>) = table_ok B"
  "table_ok (B\<lparr>br_written := x8\<rparr>) = table_ok B"
  by (simp_all add: table_ok_def)

lemma table_ok_get: "table_ok B \<Longrightarrow> hm_get (br_sessions B) k = Some sid \<Longrightarrow> sid < length (br_heap B)"
  by (auto simp: table_ok_def)

lemma table_ok_inj:
  "table_ok B \<Longrightarrow> hm_get (br_sessions B) k = Some sid \<Longrightarrow> hm_get (br_sessions B) k' = Some sid \<Longrightarrow> k = k'"
  unfolding table_ok_def by blast

lemma table_ok_insert: "table_ok B \<Longrightarrow> table_ok (insert_session k s B)"
  unfolding table_ok_def insert_session_def by (auto simp: less_Suc_eq)

lemma reap_sessions_table:
  "hm_wf (br_sessions B) \<Longrightarrow> hm_get (br_sessions (reap_sessions c B)) k =
    (case hm_get (br_sessions B) k of None \<Rightarrow> None
     | Some sid \<Rightarrow> if sid \<notin> br_locked B \<and> sn_last_active (br_heap B ! sid) < c then None else Some sid)"
  by (simp add: reap_sessions_def reap_remove_def reap_scan_def hm_get_remove_select)

lemma reap_remove_keeps [simp]:
  "br_heap (reap_remove ks B) = br_heap B" "br_locked (reap_remove ks B) = br_locked B"
  "br_heap (reap_sessions c B) = br_heap B" "br_locked (reap_sessions c B) = br_locked B"
  by (simp_all add: reap_remove_def reap_sessions_def)

lemma table_ok_remove: "table_ok B \<Longrightarrow> table_ok (reap_remove ks B)"
  by (auto simp: table_ok_def reap_remove_def hm_get_remove_all split: if_splits)

interpretation session_table: idle_table session_of insert_session reap_sessions sn_last_active
  session_locked table_ok
proof
  fix B :: bridge and k k' :: session_key and s :: session and c :: instant
  assume ok: "table_ok B"
  show "session_of (insert_session k s B) = (session_of B)(k \<mapsto> s)"
    using table_ok_get [OF ok]
    by (auto simp: session_of_def insert_session_def fun_eq_iff nth_append option.map_comp
        intro!: option.map_cong split: if_splits)
  show "session_of (reap_sessions c B) k = (case session_of B k of None \<Rightarrow> None
       | Some v \<Rightarrow> if sn_last_active v < c \<and> \<not> session_locked B k then None else Some v)"
    using ok by (auto simp: session_of_def reap_sessions_table table_ok_def session_locked_def
        split: option.splits)
  show "table_ok (insert_session k s B)"
    by (rule table_ok_insert [OF ok])
  show "table_ok (reap_sessions c B)"
    by (simp add: reap_sessions_def table_ok_remove [OF ok])
  show "k' \<noteq> k \<Longrightarrow> session_locked (insert_session k s B) k' = session_locked B k'"
    by (auto simp: session_locked_def insert_session_def)
  show "session_of (reap_sessions c B) k \<noteq> None \<Longrightarrow> session_locked (reap_sessions c B) k = session_locked B k"
    using ok by (auto simp: session_of_def session_locked_def reap_sessions_table table_ok_def
        split: option.splits if_splits)
qed

section \<open>What a SYN must carry\<close>

definition licensed :: "crypto \<Rightarrow> bridge_ctx \<Rightarrow> i64 \<Rightarrow> license_token \<Rightarrow> bool" where
  "licensed C X now_ts token \<longleftrightarrow>
     token_verify C token (bx_backend_pubkey X) now_ts = Ok ()
     \<and> (bc_allow_any_scope (bx_config X) \<or> lp_scope (lt_payload token) AND 1 \<noteq> 0)"

lemma length_connect_ge: "4 \<le> length (connect_encode r)"
  by (simp add: length_connect_encode)

lemma accept_check_Ok:
  "accept_check C X n now_ts pkt = Ok (key, connect) \<longleftrightarrow>
     n < bc_max_sessions (bx_config X) \<and>
     (\<exists>h pk token rest. parse_syn_front pkt = Ok (h, pk)
        \<and> bridge_derive_session_key C (bx_bridge_secret X) pk = (Ok key :: (bytes, bridge_error) rs)
        \<and> decrypt_syn_payload C key pkt = Ok (token_to_bytes token @ connect_encode connect @ rest)
        \<and> length (lt_signature token) = SIG_LEN \<and> licensed C X now_ts token)"
    (is "?L \<longleftrightarrow> ?R")
proof
  assume L: ?L
  then have n: "n < bc_max_sessions (bx_config X)"
    by (auto simp: accept_check_def split: if_splits)
  with L obtain h pk inner tb token where front: "parse_syn_front pkt = Ok (h, pk)"
    and key: "bridge_derive_session_key C (bx_bridge_secret X) pk = (Ok key :: (bytes, bridge_error) rs)"
    and inner: "decrypt_syn_payload C key pkt = Ok inner"
    and len: "TOKEN_LEN + 4 \<le> length inner"
    and tb: "slice inner 0 TOKEN_LEN = (Ok tb :: (bytes, bridge_error) rs)"
    and token: "token_from_bytes tb = Ok token"
    and lic: "licensed C X now_ts token"
    and conn: "connect_decode (drop TOKEN_LEN inner) = Ok connect"
    by (auto simp: accept_check_def pubkey_from_bytes_def licensed_def rs_simps
        split: if_splits prod.splits)
  have "tb = take TOKEN_LEN inner"
    using tb len by (simp add: slice_def split: if_splits)
  then have "inner = token_to_bytes token @ drop TOKEN_LEN inner"
    and sig: "length (lt_signature token) = SIG_LEN"
    using token token_codec.dec_exact by (metis append_take_drop_id, blast)
  moreover obtain rest where "drop TOKEN_LEN inner = connect_encode connect @ rest"
    using connect_codec.dec_sound [OF conn] by blast
  ultimately show ?R
    using n front key inner lic by (metis append.assoc)
next
  assume ?R
  then obtain h pk token rest where n: "n < bc_max_sessions (bx_config X)"
    and front: "parse_syn_front pkt = Ok (h, pk)"
    and key: "bridge_derive_session_key C (bx_bridge_secret X) pk = (Ok key :: (bytes, bridge_error) rs)"
    and inner: "decrypt_syn_payload C key pkt = Ok (token_to_bytes token @ connect_encode connect @ rest)"
    and sig: "length (lt_signature token) = SIG_LEN" and lic: "licensed C X now_ts token"
    by blast
  have "length pk = 32"
    using front by (simp add: parse_syn_front_Ok_iff)
  then show ?L
    using n front key inner lic length_token_to_bytes [OF sig] length_connect_ge [of connect]
      token_codec.roundtrip [OF sig] connect_codec.dec_enc
    by (auto simp: accept_check_def pubkey_from_bytes_def licensed_def rs_simps)
qed

lemma accept_check_no_panic:
  assumes "hkdf_ok C"
  shows "accept_check C X n now_ts pkt \<noteq> Panic"
proof -
  have "bridge_derive_session_key C s p \<noteq> (Panic :: (bytes, bridge_error) rs)" for s p
    using derive_aead_key_Ok [OF assms] by (metis bridge_derive_session_key_def rs.distinct(3))
  moreover have "token_verify C t p n \<noteq> Panic" for t p n
    by (simp add: token_verify_def Let_def)
  ultimately show ?thesis
    by (auto simp: accept_check_def pubkey_from_bytes_def parse_syn_front_no_panic decrypt_syn_payload_no_panic
        token_codec.exact_no_panic connect_codec.dec_no_panic rs_simps split: prod.splits)
qed

text \<open>A SYN passes parsing, key derivation, decryption and the license check exactly when some valid
  token was sealed in it under the key both ends derive.\<close>

lemma syn_licensed_iff:
  assumes "aead_ok C"
  shows "(\<exists>h pk token rest. parse_syn_front pkt = Ok (h, pk)
        \<and> bridge_derive_session_key C (bx_bridge_secret X) pk = (Ok key :: (bytes, bridge_error) rs)
        \<and> decrypt_syn_payload C key pkt = Ok (token_to_bytes token @ connect_encode connect @ rest)
        \<and> length (lt_signature token) = SIG_LEN \<and> licensed C X now_ts token)
    \<longleftrightarrow> (\<exists>h pk token rest ct. header_ok h \<and> length pk = 32 \<and> pkt = header_encode h @ pk @ ct
        \<and> bridge_derive_session_key C (bx_bridge_secret X) pk = (Ok key :: (bytes, bridge_error) rs)
        \<and> aead_encrypt C key (derive_nonce (h_connection_id h) (h_sequence h)) (header_encode h @ pk)
            (token_to_bytes token @ connect_encode connect @ rest) = Some ct
        \<and> length (lt_signature token) = SIG_LEN \<and> licensed C X now_ts token)" (is "?A \<longleftrightarrow> ?R")
proof
  have same: "h = h' \<and> pk = pk' \<and> ct = ct'"
    if "header_ok h" "header_ok h'" "length pk = 32" "length pk' = 32"
      "header_encode h @ pk @ ct = header_encode h' @ pk' @ ct'" for h h' pk pk' ct ct'
    using that header_codec.prefix_free [OF that(1,2,5)] by simp
  assume ?A
  then obtain h pk token rest where A: "parse_syn_front pkt = Ok (h, pk)"
    "bridge_derive_session_key C (bx_bridge_secret X) pk = (Ok key :: (bytes, bridge_error) rs)"
    "decrypt_syn_payload C key pkt = Ok (token_to_bytes token @ connect_encode connect @ rest)"
    "length (lt_signature token) = SIG_LEN" "licensed C X now_ts token" by blast
  obtain ct where ct: "header_ok h" "length pk = 32" "pkt = header_encode h @ pk @ ct"
    using A(1) by (auto simp: parse_syn_front_Ok_iff)
  obtain h' pk' ct' where ct': "header_ok h'" "length pk' = 32" "pkt = header_encode h' @ pk' @ ct'"
    "aead_encrypt C key (derive_nonce (h_connection_id h') (h_sequence h')) (header_encode h' @ pk')
       (token_to_bytes token @ connect_encode connect @ rest) = Some ct'"
    using A(3) by (auto simp: decrypt_syn_payload_Ok_iff [OF assms])
  have "h = h' \<and> pk = pk' \<and> ct = ct'"
    by (rule same) (use ct ct' in simp_all)
  then show ?R
    using A(2,4,5) ct ct' by blast
next
  assume ?R
  then obtain h pk token rest ct where R: "header_ok h" "length pk = 32" "pkt = header_encode h @ pk @ ct"
    "bridge_derive_session_key C (bx_bridge_secret X) pk = (Ok key :: (bytes, bridge_error) rs)"
    "aead_encrypt C key (derive_nonce (h_connection_id h) (h_sequence h)) (header_encode h @ pk)
          (token_to_bytes token @ connect_encode connect @ rest) = Some ct"
    "length (lt_signature token) = SIG_LEN" "licensed C X now_ts token"
    by blast
  have "16 \<le> length ct"
    using aead_encrypt_length [OF assms R(5)] by simp
  then have "parse_syn_front pkt = Ok (h, pk)"
    and "decrypt_syn_payload C key pkt = Ok (token_to_bytes token @ connect_encode connect @ rest)"
    using R by (auto simp: parse_syn_front_Ok_iff decrypt_syn_payload_Ok_iff [OF assms])
  then show ?A using R by blast
qed



section \<open>A sample bridge\<close>

text \<open>Concrete inputs for the witnesses: a bridge with room for one session, and its client's SYN.\<close>

definition sample_ctx :: bridge_ctx where
  "sample_ctx = \<lparr>bx_config = \<lparr>bc_listen = sock_addr_new (V4 0) 51820, bc_bridge_x25519_seckey_hex = [],
       bc_backend_ed25519_pubkey_hex = [], bc_allow_any_scope = False, bc_max_sessions = 1,
       bc_idle_timeout_secs = 300, bc_metrics_listen = None\<rparr>,
     bx_bridge_secret = replicate 32 9, bx_backend_pubkey = replicate 32 5\<rparr>"

definition sample_client :: sock_addr where
  "sample_client = sock_addr_new (V4 0x0A000001) 4000"

definition sample_session_key :: "u32 \<Rightarrow> session_key" where
  "sample_session_key cid = \<lparr>sk_client_addr = sample_client, sk_connection_id = cid\<rparr>"

definition sample_aead_key :: bytes where
  "sample_aead_key = replicate 32 12"

definition sample_connect :: connect_request where
  "sample_connect = \<lparr>cr_protocol = Udp, cr_dest_ip = V4 0x08080808, cr_dest_port = 53\<rparr>"

definition sample_syn :: "u32 \<Rightarrow> bytes" where
  "sample_syn cid =
     (case encrypt_syn_frame toy sample_aead_key
        \<lparr>h_version = 1, h_flags = SYN, h_connection_id = cid, h_sequence = 0\<rparr> (replicate 32 3)
        (token_to_bytes (token_sign toy
           \<lparr>lp_user_id = 1, lp_issued_at = 100, lp_expires_at = 200, lp_scope = 1\<rparr> (replicate 32 5))
         @ connect_encode sample_connect) of Ok w \<Rightarrow> w | _ \<Rightarrow> [])"

definition sample_data :: "u32 \<Rightarrow> u64 \<Rightarrow> bytes \<Rightarrow> bytes" where
  "sample_data cid sq payload =
     (case encrypt_frame toy sample_aead_key
        \<lparr>h_version = 1, h_flags = 0, h_connection_id = cid, h_sequence = sq\<rparr> payload of Ok w \<Rightarrow> w | _ \<Rightarrow> [])"

definition sample_env :: dest_env where
  "sample_env = \<lparr>de_tcp_connect = (\<lambda>_. Some (Ok 1)), de_udp_bind = (\<lambda>_. Ok 7), de_udp_connect = (\<lambda>_ _. Ok ())\<rparr>"

definition sample_bridge :: bridge where
  "sample_bridge = insert_session (sample_session_key 5) (session_new 1000 sample_aead_key (WUdp 7)) bridge_init"

lemma sample_syn_accepted:
  "accept_check toy sample_ctx 0 150 (sample_syn 5) = Ok (sample_aead_key, sample_connect)"
  by code_simp


section \<open>Whole operations\<close>

lemma accept_new_session_Ok:
  "accept_new_session C X E now_ts t key pkt B = Ok B' \<longleftrightarrow>
     (\<exists>aead_key connect w r. accept_check C X (hm_len (br_sessions B)) now_ts pkt = Ok (aead_key, connect)
        \<and> open_dest E connect = Ok (w, r) \<and> B' = accept_commit key aead_key w r t B)"
  by (auto simp: accept_new_session_def split: prod.splits)

lemma accept_check_room: "accept_check C X n now_ts pkt = Ok r \<Longrightarrow> Suc n \<le> bc_max_sessions (bx_config X)"
  by (cases r) (simp add: accept_check_Ok Suc_le_eq)

lemma accept_commit_len:
  "hm_len (br_sessions (accept_commit key aead_key w r t B)) \<le> Suc (hm_len (br_sessions B))"
  by (simp add: accept_commit_def insert_session_def hm_len_insert_le)

lemma forward_data_Ok:
  "forward_data C t key pkt B = Ok B' \<longleftrightarrow>
     (\<exists>sid h p. hm_get (br_sessions B) key = Some sid
        \<and> decrypt_frame C (sn_aead_key (br_heap B ! sid)) pkt = Ok (h, p)
        \<and> B' = B\<lparr>br_heap := (br_heap B)[sid := (br_heap B ! sid)\<lparr>sn_last_active := t\<rparr>],
                 br_written := br_written B @ [(sn_dest_writer (br_heap B ! sid), p)]\<rparr>)"
  by (auto simp: forward_data_def forward_locked_def Let_def split: prod.splits)

lemma session_of_insert:
  "table_ok B \<Longrightarrow> session_of (insert_session k s B) = (session_of B)(k \<mapsto> s)"
  by (rule session_table.get_put)

lemma session_of_update:
  assumes "table_ok B" and "hm_get (br_sessions B) k = Some sid"
  shows "session_of (B\<lparr>br_heap := (br_heap B)[sid := s]\<rparr>) = (session_of B)(k \<mapsto> s)"
proof
  fix k'
  show "session_of (B\<lparr>br_heap := (br_heap B)[sid := s]\<rparr>) k' = ((session_of B)(k \<mapsto> s)) k'"
    using assms table_ok_inj [OF assms(1,2), of k'] table_ok_get [OF assms]
    by (cases "hm_get (br_sessions B) k'") (auto simp: session_of_def nth_list_update)
qed

lemma table_ok_update: "table_ok B \<Longrightarrow> table_ok (B\<lparr>br_heap := (br_heap B)[sid := s]\<rparr>)"
  by (simp add: table_ok_def)

text \<open>Sessions are bounded when packets are handled one at a time: no packet, whatever its
  bytes, takes the session table above \<open>max_sessions\<close>, and handling a packet never panics.\<close>

theorem handle_packet_bounded:
  assumes "hkdf_ok C" and "\<And>a. de_tcp_connect E a \<noteq> Some Panic" and "\<And>a. de_udp_bind E a \<noteq> Panic"
    and "\<And>s a. de_udp_connect E s a \<noteq> Panic"
    and "hm_len (br_sessions B) \<le> bc_max_sessions (bx_config X)"
  shows "case handle_packet C X E now_ts t peer pkt B of
      Ok B' \<Rightarrow> hm_len (br_sessions B') \<le> bc_max_sessions (bx_config X)
    | Err _ \<Rightarrow> True
    | Panic \<Rightarrow> False"
proof -
  have len: "hm_len (br_sessions B') \<le> bc_max_sessions (bx_config X)"
    if "handle_packet C X E now_ts t peer pkt B = Ok B'" for B'
    using that assms(5)
    by (auto simp: handle_packet_def Let_def accept_new_session_Ok forward_data_Ok
        dest!: accept_check_room intro: order_trans [OF accept_commit_len] split: if_splits)
  have no_open: "open_dest E c \<noteq> Panic" for c
    using assms(2-4) by (auto simp: open_dest_def Let_def split: transport_protocol.splits option.splits)
  have "handle_packet C X E now_ts t peer pkt B \<noteq> Panic"
    using accept_check_no_panic [OF assms(1)] no_open
    by (auto simp: handle_packet_def packet_header_def Let_def accept_new_session_def forward_data_def forward_locked_def
        header_codec.dec_no_panic decrypt_frame_no_panic split: prod.splits if_splits)
  then show ?thesis
    using len by (cases "handle_packet C X E now_ts t peer pkt B") auto
qed

theorem handle_packet_bounded_witness:
  "case handle_packet toy sample_ctx sample_env 150 1000 sample_client (sample_syn 5) bridge_init of
      Ok B' \<Rightarrow> hm_len (br_sessions B') \<le> bc_max_sessions (bx_config sample_ctx)
    | Err _ \<Rightarrow> True
    | Panic \<Rightarrow> False"
  by (rule handle_packet_bounded [OF toy_hkdf]) (simp_all add: sample_env_def bridge_init_def)


lemma sample_bridge_ok: "table_ok sample_bridge"
  unfolding sample_bridge_def by (rule table_ok_insert) (simp add: table_ok_def bridge_init_def)

lemma sample_session: "session_of sample_bridge (sample_session_key 5) = Some (session_new 1000 sample_aead_key (WUdp 7))"
  by (simp add: sample_bridge_def session_of_insert table_ok_def bridge_init_def)


text \<open>C18: The way back: the bridge's next frame for a session is authentic and readable by its
  client.  It carries the head of the queue as payload, the session's connection id and the next
  sequence number, decrypts under the session's key, goes to the client's address, and leaves every
  other session alone; a packet for a session that is gone is discarded.\<close>

theorem downstream_round_spec:
  assumes "aead_ok C" and "table_ok B" and "br_queue B = pkt # rest" and "length (dp_payload pkt) \<le> MAX_PAYLOAD_LEN"
    and "\<And>s. session_of B (dp_session_key pkt) = Some s \<Longrightarrow> length (sn_aead_key s) = 32"
  defines "B' \<equiv> downstream_round C B"
  shows "br_queue B' = rest \<and>
    (case session_of B (dp_session_key pkt) of
       None \<Rightarrow> br_sent B' = br_sent B \<and> session_of B' = session_of B
     | Some s \<Rightarrow>
         (\<exists>sid w. br_sent B' = br_sent B @ [(sid, w, sk_client_addr (dp_session_key pkt))]
            \<and> decrypt_frame C (sn_aead_key s) w =
               Ok (\<lparr>h_version = PROTO_VERSION, h_flags = flags_empty,
                    h_connection_id = sk_connection_id (dp_session_key pkt),
                    h_sequence = sn_tx_sequence s + 1\<rparr>, dp_payload pkt))
         \<and> session_of B' = (session_of B)(dp_session_key pkt \<mapsto> s\<lparr>sn_tx_sequence := sn_tx_sequence s + 1\<rparr>))"
proof (cases "hm_get (br_sessions B) (dp_session_key pkt)")
  case None
  then have "session_of B (dp_session_key pkt) = None"
    by (simp add: session_of_def)
  with None show ?thesis
    using assms(3) by (simp add: B'_def downstream_round_def)
next
  case (Some sid)
  let ?s = "br_heap B ! sid"
  let ?h = "\<lparr>h_version = PROTO_VERSION, h_flags = flags_empty,
      h_connection_id = sk_connection_id (dp_session_key pkt), h_sequence = sn_tx_sequence ?s + 1\<rparr>"
  have s: "session_of B (dp_session_key pkt) = Some ?s"
    using Some by (simp add: session_of_def)
  obtain w where w: "encrypt_frame C (sn_aead_key ?s) ?h (dp_payload pkt) = Ok w"
    using encrypt_frame_total [OF assms(1) assms(5) [OF s] assms(4)] by metis
  have "header_ok ?h" by (simp add: header_ok_def flags_empty_def)
  from decrypt_encrypt_frame [OF assms(1) this w]
  show ?thesis
    using assms(2) session_of_update [of "B\<lparr>br_queue := rest\<rparr>" "dp_session_key pkt" sid
        "?s\<lparr>sn_tx_sequence := sn_tx_sequence ?s + 1\<rparr>"] w Some
    by (simp add: B'_def downstream_round_def assms(3) Some send_locked_def s Let_def)
qed

theorem downstream_round_spec_witness:
  "let B = sample_bridge\<lparr>br_queue := [\<lparr>dp_session_key = sample_session_key 5, dp_payload = [9]\<rparr>]\<rparr>
   in \<exists>sid w. br_sent (downstream_round toy B) = br_sent B @ [(sid, w, sample_client)]
    \<and> decrypt_frame toy sample_aead_key w =
       Ok (\<lparr>h_version = PROTO_VERSION, h_flags = flags_empty, h_connection_id = 5, h_sequence = 1\<rparr>, [9])"
proof -
  let ?p = "\<lparr>dp_session_key = sample_session_key 5, dp_payload = [9 :: u8]\<rparr>"
  let ?B = "sample_bridge\<lparr>br_queue := [?p]\<rparr>"
  have s: "session_of ?B (sample_session_key 5) = Some (session_new 1000 sample_aead_key (WUdp 7))"
    using sample_session by (simp add: session_of_def)
  have ok: "table_ok ?B"
    using sample_bridge_ok by (simp add: table_ok_def)
  show ?thesis
    using downstream_round_spec [OF toy_aead ok, of ?p "[]"] s
    by (auto simp: Let_def session_new_def sample_aead_key_def sample_session_key_def wire_defs)
qed

text \<open>C19: What a reaping pass keeps: a session survives exactly when its mutex is held or it was
  active no longer than the idle timeout ago, and survivors are unchanged.  The pass panics, and the
  reaper task with it, when the timeout reaches back beyond the platform's least instant.\<close>

theorem reaper_round_spec:
  assumes "table_ok B"
  shows "case idle_reaper_round lo X t B of
      Ok B' \<Rightarrow> lo \<le> t - secs (bc_idle_timeout_secs (bx_config X)) \<and> table_ok B' \<and>
        (\<forall>k. session_of B' k = (case session_of B k of None \<Rightarrow> None
          | Some s \<Rightarrow> if session_locked B k \<or> t - sn_last_active s \<le> secs (bc_idle_timeout_secs (bx_config X))
                      then Some s else None))
    | Err _ \<Rightarrow> False
    | Panic \<Rightarrow> t - secs (bc_idle_timeout_secs (bx_config X)) < lo"
  using session_table.get_reap [OF assms] session_table.wf_reap [OF assms]
  by (auto simp: idle_reaper_round_def reap_cutoff_def instant_sub_def split: option.splits)

theorem reaper_round_spec_witness:
  "case idle_reaper_round 0 sample_ctx 300000001001 sample_bridge of
      Ok B' \<Rightarrow> 0 \<le> 300000001001 - secs (bc_idle_timeout_secs (bx_config sample_ctx)) \<and> table_ok B' \<and>
        (\<forall>k. session_of B' k = (case session_of sample_bridge k of None \<Rightarrow> None
          | Some s \<Rightarrow> if session_locked sample_bridge k
              \<or> 300000001001 - sn_last_active s \<le> secs (bc_idle_timeout_secs (bx_config sample_ctx))
                      then Some s else None))
    | Err (_ :: unit) \<Rightarrow> False
    | Panic \<Rightarrow> 300000001001 - secs (bc_idle_timeout_secs (bx_config sample_ctx)) < 0"
  by (rule reaper_round_spec [OF sample_bridge_ok])

lemma downstream_round_keeps:
  assumes "table_ok B"
  shows "table_ok (downstream_round C B)" and "br_locked (downstream_round C B) = br_locked B"
    and "br_sessions (downstream_round C B) = br_sessions B"
    and "map_option sn_last_active (session_of (downstream_round C B) k) = map_option sn_last_active (session_of B k)"
proof -
  have send: "table_ok (send_locked C pkt sid B') \<and> br_locked (send_locked C pkt sid B') = br_locked B'
      \<and> br_sessions (send_locked C pkt sid B') = br_sessions B'
      \<and> map sn_last_active (br_heap (send_locked C pkt sid B')) = map sn_last_active (br_heap B')"
    if "table_ok B'" for pkt sid B'
    using table_ok_update [OF that, of sid]
    by (simp add: send_locked_def Let_def map_update_same split: rs.splits)
  show "table_ok (downstream_round C B)" "br_locked (downstream_round C B) = br_locked B"
    "br_sessions (downstream_round C B) = br_sessions B"
    using assms send by (auto simp: downstream_round_def Let_def split: list.splits option.splits)
  moreover have "map sn_last_active (br_heap (downstream_round C B)) = map sn_last_active (br_heap B)"
    using assms send by (auto simp: downstream_round_def Let_def split: list.splits option.splits)
  ultimately show "map_option sn_last_active (session_of (downstream_round C B) k)
      = map_option sn_last_active (session_of B k)"
    using table_ok_get [OF assms, of k]
    by (cases "hm_get (br_sessions B) k") (auto simp: session_of_def dest: map_eq_imp_length_eq,
        metis map_eq_imp_length_eq nth_map)
qed

text \<open>Traffic towards the client does not keep a session alive.  However many frames the
  bridge sends to a client, the session is reaped once its own last packet is older than the idle
  timeout, and packets still queued for it are then discarded.\<close>

theorem downstream_does_not_keep_alive:
  assumes "table_ok B" and "session_of B k = Some s" and "sn_last_active s < cutoff" and "\<not> session_locked B k"
  shows "session_of (reap_sessions cutoff ((downstream_round C ^^ n) B)) k = None"
proof -
  let ?B = "(downstream_round C ^^ n) B"
  have "table_ok ?B \<and> br_locked ?B = br_locked B \<and> br_sessions ?B = br_sessions B
    \<and> map_option sn_last_active (session_of ?B k) = map_option sn_last_active (session_of B k)"
    by (induction n) (use assms(1) downstream_round_keeps in auto)
  then show ?thesis
    using assms(2-4) by (auto simp: session_locked_def intro: session_table.reap_stale)
qed

theorem downstream_does_not_keep_alive_witness:
  "session_of (reap_sessions 5000 ((downstream_round toy ^^ 3)
     (sample_bridge\<lparr>br_queue := replicate 3 \<lparr>dp_session_key = sample_session_key 5, dp_payload = [9]\<rparr>\<rparr>)))
     (sample_session_key 5) = None"
proof (rule downstream_does_not_keep_alive)
  let ?B = "sample_bridge\<lparr>br_queue := replicate 3 \<lparr>dp_session_key = sample_session_key 5, dp_payload = [9]\<rparr>\<rparr>"
  show "table_ok ?B" by (simp only: table_ok_other sample_bridge_ok)
  show "session_of ?B (sample_session_key 5) = Some (session_new 1000 sample_aead_key (WUdp 7))"
    by (simp only: session_of_other sample_session)
  show "sn_last_active (session_new 1000 sample_aead_key (WUdp 7)) < 5000" by (simp add: session_new_def)
  show "\<not> session_locked ?B (sample_session_key 5)"
    by (simp add: session_locked_def sample_bridge_def bridge_init_def insert_session_def)
qed

lemma data_frame_written:
  assumes "table_ok B" and "packet_header pkt = Ok h" and "\<not> contains_flag (h_flags h) SYN"
    and "session_of B \<lparr>sk_client_addr = peer, sk_connection_id = h_connection_id h\<rparr> = Some s"
    and "decrypt_frame C (sn_aead_key s) pkt = Ok (h', p)"
  obtains B' where "handle_packet C X E now_ts t peer pkt B = Ok B'" and "table_ok B'"
    and "br_written B' = br_written B @ [(sn_dest_writer s, p)]"
    and "session_of B' = (session_of B)(\<lparr>sk_client_addr = peer, sk_connection_id = h_connection_id h\<rparr>
           \<mapsto> s\<lparr>sn_last_active := t\<rparr>)"
proof -
  let ?k = "\<lparr>sk_client_addr = peer, sk_connection_id = h_connection_id h\<rparr>"
  obtain sid where sid: "hm_get (br_sessions B) ?k = Some sid" "br_heap B ! sid = s"
    using assms(4) by (auto simp: session_of_def)
  let ?B = "B\<lparr>br_heap := (br_heap B)[sid := s\<lparr>sn_last_active := t\<rparr>],
      br_written := br_written B @ [(sn_dest_writer s, p)]\<rparr>"
  show ?thesis
    by (rule that [of ?B])
      (use assms sid session_of_update [OF assms(1) sid(1)] table_ok_update [OF assms(1)] in
        \<open>simp_all add: handle_packet_def forward_data_def forward_locked_def Let_def\<close>)
qed

text \<open>There is no replay protection: a captured data frame, delivered again from the same
  address, is accepted again and its payload written to the destination a second time (sequence
  numbers are never compared, the REDUNDANT flag notwithstanding).\<close>

theorem replayed_frame_forwarded_again:
  assumes "table_ok B" and "packet_header pkt = Ok h" and "\<not> contains_flag (h_flags h) SYN"
    and "session_of B \<lparr>sk_client_addr = peer, sk_connection_id = h_connection_id h\<rparr> = Some s"
    and "decrypt_frame C (sn_aead_key s) pkt = Ok (h', p)"
  shows "\<exists>B1 B2. handle_packet C X E now_ts t peer pkt B = Ok B1
    \<and> handle_packet C X E now_ts' t' peer pkt B1 = Ok B2
    \<and> br_written B2 = br_written B @ [(sn_dest_writer s, p), (sn_dest_writer s, p)]"
proof -
  obtain B1 where B1: "handle_packet C X E now_ts t peer pkt B = Ok B1" "table_ok B1"
    "br_written B1 = br_written B @ [(sn_dest_writer s, p)]"
    "session_of B1 \<lparr>sk_client_addr = peer, sk_connection_id = h_connection_id h\<rparr> = Some (s\<lparr>sn_last_active := t\<rparr>)"
    by (rule data_frame_written [OF assms, where X = X and E = E and now_ts = now_ts and t = t]) simp
  have key: "decrypt_frame C (sn_aead_key (s\<lparr>sn_last_active := t\<rparr>)) pkt = Ok (h', p)"
    using assms(5) by simp
  obtain B2 where "handle_packet C X E now_ts' t' peer pkt B1 = Ok B2"
    "br_written B2 = br_written B1 @ [(sn_dest_writer (s\<lparr>sn_last_active := t\<rparr>), p)]"
    by (rule data_frame_written [OF B1(2) assms(2,3) B1(4) key, where X = X and E = E and now_ts = now_ts' and t = t'])
  then show ?thesis using B1 by auto
qed

theorem replayed_frame_forwarded_again_witness:
  "\<exists>B1 B2. handle_packet toy sample_ctx sample_env 150 2000 sample_client (sample_data 5 1 [1]) sample_bridge = Ok B1
    \<and> handle_packet toy sample_ctx sample_env 150 3000 sample_client (sample_data 5 1 [1]) B1 = Ok B2
    \<and> br_written B2 = br_written sample_bridge @ [(WUdp 7, [1]), (WUdp 7, [1])]"
proof -
  let ?h = "\<lparr>h_version = 1, h_flags = 0, h_connection_id = 5, h_sequence = 1\<rparr>"
  let ?s = "session_new 1000 sample_aead_key (WUdp 7)"
  have h: "packet_header (sample_data 5 1 [1]) = Ok ?h" by code_simp
  have f: "\<not> contains_flag (h_flags ?h) SYN" by code_simp
  have s: "session_of sample_bridge \<lparr>sk_client_addr = sample_client, sk_connection_id = h_connection_id ?h\<rparr> = Some ?s"
    using sample_session by (simp add: sample_session_key_def)
  have d: "decrypt_frame toy (sn_aead_key ?s) (sample_data 5 1 [1]) = Ok (?h, [1])" by code_simp
  show ?thesis
    using replayed_frame_forwarded_again [OF sample_bridge_ok h f s d] by (simp add: session_new_def)
qed

end
