(* ===== verification/Lp_Bridge_System.thy ===== *)
theory Lp_Bridge_System
  imports Lp_Bridge
begin

text \<open>
  The relay's tasks interleaved.  Every datagram is handled by a task of its own, every session has
  a drain task, and one sender and one reaper run for ever (\<open>server.rs\<close>, the \<open>tokio::spawn\<close> calls);
  they share \<open>BridgeState\<close> and yield at each \<open>await\<close>.  An event is one task running from one
  \<open>await\<close> to the next; \<open>bridge_step\<close> is its effect, or \<open>None\<close> when no task is at that point.
\<close>

datatype bridge_event =
  Datagram sock_addr bytes i64 \<comment> \<open>received from a peer, at this Unix time\<close>
| DestOpened nat dest_env instant \<comment> \<open>the i-th accepting task's \<open>open_dest\<close> has finished\<close>
| ForwardLock nat instant \<comment> \<open>the i-th forwarding task gets the session's mutex\<close>
| WriteDone nat nat \<comment> \<open>the i-th write has finished, after so many bytes\<close>
| DestRead nat "(bytes, string) rs" \<comment> \<open>the i-th drain task's read has finished\<close>
| SenderTakes
| SenderSends
| ReaperWakes instant instant \<comment> \<open>the platform's least instant, and now\<close>
| ReaperRemoves

definition remove_at :: "nat \<Rightarrow> 'a list \<Rightarrow> 'a list" where
  "remove_at i xs = take i xs @ drop (Suc i) xs"

text \<open>\<open>handle_packet\<close> up to its first \<open>await\<close>: opening the destination, or the session's mutex.\<close>

definition datagram_step ::
  "crypto \<Rightarrow> bridge_ctx \<Rightarrow> sock_addr \<Rightarrow> bytes \<Rightarrow> i64 \<Rightarrow> bridge \<Rightarrow> bridge" where
  "datagram_step C X peer pkt now_ts B =
     (case packet_header pkt of
        Ok h \<Rightarrow>
          let key = \<lparr>sk_client_addr = peer, sk_connection_id = h_connection_id h\<rparr> in
          if contains_flag (h_flags h) SYN
          then (case accept_check C X (hm_len (br_sessions B)) now_ts pkt of
                  Ok (aead_key, connect) \<Rightarrow> B\<lparr>br_accepting := br_accepting B @ [(key, aead_key, connect)]\<rparr>
                | _ \<Rightarrow> B)
          else (case hm_get (br_sessions B) key of
                  Some sid \<Rightarrow> B\<lparr>br_forwarding := br_forwarding B @ [(sid, pkt)]\<rparr>
                | None \<Rightarrow> B)
      | _ \<Rightarrow> B)"

definition dest_opened_step :: "nat \<Rightarrow> dest_env \<Rightarrow> instant \<Rightarrow> bridge \<Rightarrow> bridge option" where
  "dest_opened_step i E t B =
     (if i < length (br_accepting B)
      then let (key, aead_key, connect) = br_accepting B ! i;
               B = B\<lparr>br_accepting := remove_at i (br_accepting B)\<rparr>
           in Some (case open_dest E connect of
                Ok (writer, reader) \<Rightarrow> accept_commit key aead_key writer reader t B
              | _ \<Rightarrow> B)
      else None)"

definition forward_lock_step :: "crypto \<Rightarrow> nat \<Rightarrow> instant \<Rightarrow> bridge \<Rightarrow> bridge option" where
  "forward_lock_step C i t B =
     (if i < length (br_forwarding B) \<and> fst (br_forwarding B ! i) \<notin> br_locked B
      then let (sid, pkt) = br_forwarding B ! i;
               B = B\<lparr>br_forwarding := remove_at i (br_forwarding B)\<rparr>
           in Some (case forward_locked C t sid pkt B of
                Ok (B', writer, payload) \<Rightarrow>
                  B'\<lparr>br_locked := insert sid (br_locked B'),
                     br_writing := br_writing B' @ [(sid, writer, payload)]\<rparr>
              | _ \<Rightarrow> B)
      else None)"

text \<open>A write may fail part of the way through; the mutex is released when the task ends.\<close>

definition write_done_step :: "nat \<Rightarrow> nat \<Rightarrow> bridge \<Rightarrow> bridge option" where
  "write_done_step i n B =
     (if i < length (br_writing B)
      then let (sid, writer, payload) = br_writing B ! i in
           Some (B\<lparr>br_locked := br_locked B - {sid}, br_writing := remove_at i (br_writing B),
                   br_written := br_written B @ [(writer, take n payload)]\<rparr>)
      else None)"

definition dest_read_step :: "nat \<Rightarrow> (bytes, string) rs \<Rightarrow> bridge \<Rightarrow> bridge option" where
  "dest_read_step i result B =
     (if i < length (br_draining B)
      then let (key, reader) = br_draining B ! i in
           Some (case drain_step key reader result B of
                Some B' \<Rightarrow> B'
              | None \<Rightarrow> B\<lparr>br_draining := remove_at i (br_draining B)\<rparr>)
      else None)"

definition sender_takes_step :: "bridge \<Rightarrow> bridge option" where
  "sender_takes_step B =
     (case (br_sending B, br_queue B) of
        (None, pkt # rest) \<Rightarrow>
          Some (B\<lparr>br_queue := rest,
                  br_sending := map_option (\<lambda>sid. (pkt, sid)) (hm_get (br_sessions B) (dp_session_key pkt))\<rparr>)
      | _ \<Rightarrow> None)"

definition sender_sends_step :: "crypto \<Rightarrow> bridge \<Rightarrow> bridge option" where
  "sender_sends_step C B =
     (case br_sending B of
        Some (pkt, sid) \<Rightarrow>
          if sid \<in> br_locked B then None else Some ((send_locked C pkt sid B)\<lparr>br_sending := None\<rparr>)
      | None \<Rightarrow> None)"

definition reaper_wakes_step :: "bridge_ctx \<Rightarrow> instant \<Rightarrow> instant \<Rightarrow> bridge \<Rightarrow> bridge option" where
  "reaper_wakes_step X lo t B =
     (if br_reaper B = Sleeping
      then Some (case (reap_cutoff lo X t :: (instant, unit) rs) of
             Ok cutoff \<Rightarrow>
               let to_drop = reap_scan cutoff B in
               if to_drop = [] then B else B\<lparr>br_reaper := Removing to_drop\<rparr>
           | _ \<Rightarrow> B\<lparr>br_reaper := Dead\<rparr>)
      else None)"

definition reaper_removes_step :: "bridge \<Rightarrow> bridge option" where
  "reaper_removes_step B =
     (case br_reaper B of
        Removing to_drop \<Rightarrow> Some ((reap_remove to_drop B)\<lparr>br_reaper := Sleeping\<rparr>)
      | _ \<Rightarrow> None)"

fun bridge_step :: "crypto \<Rightarrow> bridge_ctx \<Rightarrow> bridge_event \<Rightarrow> bridge \<Rightarrow> bridge option" where
  "bridge_step C X (Datagram peer pkt now_ts) B = Some (datagram_step C X peer pkt now_ts B)"
| "bridge_step C X (DestOpened i E t) B = dest_opened_step i E t B"
| "bridge_step C X (ForwardLock i t) B = forward_lock_step C i t B"
| "bridge_step C X (WriteDone i n) B = write_done_step i n B"
| "bridge_step C X (DestRead i r) B = dest_read_step i r B"
| "bridge_step C X SenderTakes B = sender_takes_step B"
| "bridge_step C X SenderSends B = sender_sends_step C B"
| "bridge_step C X (ReaperWakes lo t) B = reaper_wakes_step X lo t B"
| "bridge_step C X ReaperRemoves B = reaper_removes_step B"

text \<open>\<open>bridge_run C X evs B\<close>: started afresh, the bridge can be in state \<open>B\<close> after the events.\<close>

inductive bridge_run :: "crypto \<Rightarrow> bridge_ctx \<Rightarrow> bridge_event list \<Rightarrow> bridge \<Rightarrow> bool"
  for C :: crypto and X :: bridge_ctx where
  start: "bridge_run C X [] bridge_init"
| step: "bridge_run C X evs B \<Longrightarrow> bridge_step C X ev B = Some B' \<Longrightarrow> bridge_run C X (evs @ [ev]) B'"

text \<open>The same, computed.\<close>

fun bridge_exec :: "crypto \<Rightarrow> bridge_ctx \<Rightarrow> bridge_event list \<Rightarrow> bridge \<Rightarrow> bridge option" where
  "bridge_exec C X [] B = Some B"
| "bridge_exec C X (ev # evs) B =
     (case bridge_step C X ev B of None \<Rightarrow> None | Some B' \<Rightarrow> bridge_exec C X evs B')"

lemma bridge_exec_run:
  "bridge_exec C X evs B = Some B' \<Longrightarrow> bridge_run C X evs0 B \<Longrightarrow> bridge_run C X (evs0 @ evs) B'"
proof (induction evs arbitrary: B evs0)
  case (Cons ev evs)
  then obtain B1 where "bridge_step C X ev B = Some B1" "bridge_exec C X evs B1 = Some B'"
    by (auto split: option.splits)
  then show ?case
    using Cons.IH [of B1 "evs0 @ [ev]"] Cons.prems(2) bridge_run.step by fastforce
qed simp

section \<open>What a step does to the sessions\<close>

text \<open>The credentials of the sessions ever created: the key and the destination never change.\<close>

definition creds :: "bridge \<Rightarrow> (bytes \<times> dest_writer) list" where
  "creds B = map (\<lambda>s. (sn_aead_key s, sn_dest_writer s)) (br_heap B)"

lemma length_creds [simp]: "length (creds B) = length (br_heap B)"
  by (simp add: creds_def)

lemma creds_other [simp]:
  "creds (B\<lparr>br_sessions := x1\<rparr>) = creds B" "creds (B\<lparr>br_locked := x2\<rparr>) = creds B"
  "creds (B\<lparr>br_accepting := x3\<rparr>) = creds B" "creds (B\<lparr>br_forwarding := x4\<rparr>) = creds B"
  "creds (B\<lparr>br_writing := x5\<rparr>) = creds B" "creds (B\<lparr>br_draining := x6\<rparr>) = creds B"
  "creds (B\<lparr>br_queue := x7\<rparr>) = creds B" "creds (B\<lparr>br_sending := x8\<rparr>) = creds B"
  "creds (B\<lparr>br_reaper := x9\<rparr>) = creds B" "creds (B\<lparr>br_sent := x10\<rparr>) = creds B"
  "creds (B\<lparr>br_written := x11\<rparr>) = creds B"
  by (simp_all add: creds_def)

lemma creds_update:
  "sn_aead_key s = sn_aead_key (br_heap B ! sid) \<Longrightarrow> sn_dest_writer s = sn_dest_writer (br_heap B ! sid) \<Longrightarrow>
     creds (B\<lparr>br_heap := (br_heap B)[sid := s]\<rparr>) = creds B"
  by (simp add: creds_def map_update_same)

lemma creds_send: "creds (send_locked C pkt sid B) = creds B"
  by (auto simp: send_locked_def Let_def creds_update split: rs.splits)

lemma forward_locked_Ok:
  "forward_locked C t sid pkt B = Ok (B', w, p) \<longleftrightarrow>
     (\<exists>h. decrypt_frame C (sn_aead_key (br_heap B ! sid)) pkt = Ok (h, p))
     \<and> B' = B\<lparr>br_heap := (br_heap B)[sid := (br_heap B ! sid)\<lparr>sn_last_active := t\<rparr>]\<rparr>
     \<and> w = sn_dest_writer (br_heap B ! sid)"
  by (auto simp: forward_locked_def Let_def split: prod.splits)

lemma drain_step_Some:
  "drain_step key reader r B = Some B' \<Longrightarrow>
     \<exists>bs. r = Ok bs \<and> B' = B\<lparr>br_queue := br_queue B @ [\<lparr>dp_session_key = key, dp_payload = take MAX_PAYLOAD_LEN bs\<rparr>]\<rparr>"
  by (auto simp: drain_step_def Let_def split: rs.splits if_splits)

lemma remove_at_subset: "set (remove_at i xs) \<subseteq> set xs"
  by (auto simp: remove_at_def dest: in_set_takeD in_set_dropD)

lemma in_remove_at: "x \<in> set (remove_at i xs) \<Longrightarrow> x \<in> set xs"
  by (rule subsetD [OF remove_at_subset])

text \<open>The outcomes of a step, one by one.\<close>

lemma datagram_step_cases:
  obtains (idle) "datagram_step C X peer pkt now_ts B = B"
  | (admit) key aead_key connect where
      "accept_check C X (hm_len (br_sessions B)) now_ts pkt = Ok (aead_key, connect)"
      "datagram_step C X peer pkt now_ts B = B\<lparr>br_accepting := br_accepting B @ [(key, aead_key, connect)]\<rparr>"
  | (packet) key sid h where "hm_get (br_sessions B) key = Some sid"
      "datagram_step C X peer pkt now_ts B = B\<lparr>br_forwarding := br_forwarding B @ [(sid, pkt)]\<rparr>"
      "packet_header pkt = Ok h" "\<not> contains_flag (h_flags h) SYN"
proof (cases "packet_header pkt")
  case (Ok h)
  let ?key = "\<lparr>sk_client_addr = peer, sk_connection_id = h_connection_id h\<rparr>"
  show thesis
  proof (cases "contains_flag (h_flags h) SYN")
    case True
    then show thesis
      using Ok idle admit [where key = ?key]
      by (cases "accept_check C X (hm_len (br_sessions B)) now_ts pkt")
        (auto simp: datagram_step_def Let_def split: prod.splits)
  next
    case False
    then show thesis
      using Ok idle packet [of ?key]
      by (cases "hm_get (br_sessions B) ?key") (auto simp: datagram_step_def Let_def)
  qed
qed (use idle in \<open>auto simp: datagram_step_def\<close>)

lemma bridge_step_cases:
  assumes "bridge_step C X ev B = Some B'"
  obtains (idle) "B' = B"
  | (admit) peer pkt now_ts key aead_key connect where "ev = Datagram peer pkt now_ts"
      "accept_check C X (hm_len (br_sessions B)) now_ts pkt = Ok (aead_key, connect)"
      "B' = B\<lparr>br_accepting := br_accepting B @ [(key, aead_key, connect)]\<rparr>"
  | (packet) peer pkt now_ts key sid h where "ev = Datagram peer pkt now_ts"
      "hm_get (br_sessions B) key = Some sid"
      "B' = B\<lparr>br_forwarding := br_forwarding B @ [(sid, pkt)]\<rparr>"
      "header_decode pkt = Ok h" "\<not> contains_flag (h_flags h) SYN"
  | (opened) i E t key aead_key connect w r where "ev = DestOpened i E t" "i < length (br_accepting B)"
      "br_accepting B ! i = (key, aead_key, connect)" "open_dest E connect = Ok (w, r)"
      "B' = accept_commit key aead_key w r t (B\<lparr>br_accepting := remove_at i (br_accepting B)\<rparr>)"
  | (refused) i where "B' = B\<lparr>br_accepting := remove_at i (br_accepting B)\<rparr>"
  | (locked) i t sid pkt h p where "ev = ForwardLock i t" "i < length (br_forwarding B)"
      "br_forwarding B ! i = (sid, pkt)" "sid \<notin> br_locked B"
      "decrypt_frame C (sn_aead_key (br_heap B ! sid)) pkt = Ok (h, p)"
      "B' = B\<lparr>br_forwarding := remove_at i (br_forwarding B),
              br_heap := (br_heap B)[sid := (br_heap B ! sid)\<lparr>sn_last_active := t\<rparr>],
              br_locked := insert sid (br_locked B),
              br_writing := br_writing B @ [(sid, sn_dest_writer (br_heap B ! sid), p)]\<rparr>"
  | (dropped) i where "B' = B\<lparr>br_forwarding := remove_at i (br_forwarding B)\<rparr>"
  | (written) i n sid w p where "i < length (br_writing B)" "br_writing B ! i = (sid, w, p)"
      "B' = B\<lparr>br_locked := br_locked B - {sid}, br_writing := remove_at i (br_writing B),
              br_written := br_written B @ [(w, take n p)]\<rparr>"
  | (drained) i where "B' = B\<lparr>br_draining := remove_at i (br_draining B)\<rparr>"
  | (readback) key bs i where
      "B' = B\<lparr>br_queue := br_queue B @ [\<lparr>dp_session_key = key, dp_payload = take MAX_PAYLOAD_LEN bs\<rparr>]\<rparr>"
      "ev = DestRead i (Ok bs)" "i < length (br_draining B)" "fst (br_draining B ! i) = key"
  | (taken) pkt rest x where "br_queue B = pkt # rest"
      "\<And>p sid. x = Some (p, sid) \<Longrightarrow> p = pkt \<and> hm_get (br_sessions B) (dp_session_key pkt) = Some sid"
      "B' = B\<lparr>br_queue := rest, br_sending := x\<rparr>"
  | (sent) pkt sid where "br_sending B = Some (pkt, sid)" "sid \<notin> br_locked B"
      "B' = (send_locked C pkt sid B)\<lparr>br_sending := None\<rparr>"
  | (reaping) x where "B' = B\<lparr>br_reaper := x\<rparr>"
  | (reaped) ks where "B' = (reap_remove ks B)\<lparr>br_reaper := Sleeping\<rparr>"
proof (cases ev)
  case (Datagram peer pkt now_ts)
  then have B': "B' = datagram_step C X peer pkt now_ts B"
    using assms by simp
  show thesis
    by (rule datagram_step_cases [of C X peer pkt now_ts B, folded B'])
      (use Datagram idle admit packet in \<open>auto simp: packet_header_def split: if_splits\<close>)
next
  case (DestOpened i E t)
  obtain key aead_key connect where acc: "br_accepting B ! i = (key, aead_key, connect)"
    by (cases "br_accepting B ! i") auto
  show thesis
    using assms DestOpened acc opened [of i E t key aead_key connect] refused [of i]
    by (auto simp: dest_opened_step_def Let_def split: rs.splits if_splits prod.splits)
next
  case (ForwardLock i t)
  obtain sid pkt where "br_forwarding B ! i = (sid, pkt)"
    by (cases "br_forwarding B ! i") auto
  then show thesis
    using assms ForwardLock locked [of i t sid pkt] dropped [of i]
    by (auto simp: forward_lock_step_def forward_locked_Ok Let_def split: rs.splits if_splits prod.splits)
next
  case (WriteDone i n)
  obtain sid w p where "br_writing B ! i = (sid, w, p)"
    by (cases "br_writing B ! i") auto
  then show thesis
    using assms WriteDone written [of i sid w p n] by (auto simp: write_done_step_def split: if_splits)
next
  case (DestRead i r)
  then show thesis
    using assms readback drained [of i]
    by (auto simp: dest_read_step_def dest!: drain_step_Some split: if_splits prod.splits option.splits)
next
  case SenderTakes
  then obtain pkt rest where "br_queue B = pkt # rest"
    "B' = B\<lparr>br_queue := rest,
       br_sending := map_option (\<lambda>sid. (pkt, sid)) (hm_get (br_sessions B) (dp_session_key pkt))\<rparr>"
    using assms by (auto simp: sender_takes_step_def split: option.splits list.splits)
  then show thesis by (intro taken) auto
next
  case SenderSends
  then show thesis
    using assms sent by (auto simp: sender_sends_step_def split: option.splits if_splits)
next
  case (ReaperWakes lo t)
  then show thesis
    using assms reaping idle by (auto simp: reaper_wakes_step_def Let_def split: rs.splits if_splits)
next
  case ReaperRemoves
  then show thesis
    using assms reaped by (auto simp: reaper_removes_step_def split: reaper_task.splits)
qed

lemma step_creds:
  assumes "bridge_step C X ev B = Some B'"
  shows "creds B' = creds B \<or> (\<exists>i E t key aead_key connect w r. ev = DestOpened i E t
    \<and> i < length (br_accepting B) \<and> br_accepting B ! i = (key, aead_key, connect)
    \<and> open_dest E connect = Ok (w, r) \<and> creds B' = creds B @ [(aead_key, w)])"
  using assms
proof (cases rule: bridge_step_cases)
  case opened
  then show ?thesis
    by (auto simp: accept_commit_def insert_session_def session_new_def creds_def)
next
  case locked
  then show ?thesis
    by (auto simp: creds_def map_update_same)
qed (auto simp: creds_send reap_remove_def)

lemma step_creds_mono: "bridge_step C X ev B = Some B' \<Longrightarrow> set (creds B) \<subseteq> set (creds B')"
  using step_creds by fastforce

section \<open>Provenance\<close>

text \<open>
  Which datagrams account for what the bridge holds: the SYN that admitted a session, the frame a
  pending packet or a write came from.
\<close>

definition received :: "bridge_event list \<Rightarrow> bytes \<Rightarrow> bool" where
  "received evs pkt \<longleftrightarrow> (\<exists>peer now_ts. Datagram peer pkt now_ts \<in> set evs)"

definition admitted :: "crypto \<Rightarrow> bridge_ctx \<Rightarrow> bridge_event list \<Rightarrow> bytes \<Rightarrow> connect_request \<Rightarrow> bool" where
  "admitted C X evs aead_key connect \<longleftrightarrow>
     (\<exists>peer pkt now_ts n. Datagram peer pkt now_ts \<in> set evs
        \<and> accept_check C X n now_ts pkt = Ok (aead_key, connect))"

definition session_admitted :: "crypto \<Rightarrow> bridge_ctx \<Rightarrow> bridge_event list \<Rightarrow> bytes \<times> dest_writer \<Rightarrow> bool" where
  "session_admitted C X evs = (\<lambda>(aead_key, w).
     \<exists>i E t connect r. DestOpened i E t \<in> set evs \<and> admitted C X evs aead_key connect
       \<and> open_dest E connect = Ok (w, r))"

definition authentic :: "crypto \<Rightarrow> bridge_event list \<Rightarrow> bridge \<Rightarrow> dest_writer \<Rightarrow> bytes \<Rightarrow> bool" where
  "authentic C evs B w p \<longleftrightarrow>
     (\<exists>aead_key pkt h. (aead_key, w) \<in> set (creds B) \<and> received evs pkt
        \<and> decrypt_frame C aead_key pkt = Ok (h, p))"

definition accounted :: "crypto \<Rightarrow> bridge_ctx \<Rightarrow> bridge_event list \<Rightarrow> bridge \<Rightarrow> bool" where
  "accounted C X evs B \<longleftrightarrow>
     (\<forall>(k, aead_key, connect) \<in> set (br_accepting B). admitted C X evs aead_key connect)
   \<and> (\<forall>c \<in> set (creds B). session_admitted C X evs c)
   \<and> (\<forall>(sid, pkt) \<in> set (br_forwarding B). received evs pkt)
   \<and> (\<forall>(sid, w, p) \<in> set (br_writing B). authentic C evs B w p)
   \<and> (\<forall>(w, p) \<in> set (br_written B). \<exists>q n. authentic C evs B w q \<and> p = take n q)"

lemma received_more: "received evs pkt \<Longrightarrow> received (evs @ [ev]) pkt"
  by (auto simp: received_def)

lemma admitted_more: "admitted C X evs k c \<Longrightarrow> admitted C X (evs @ [ev]) k c"
  unfolding admitted_def by (metis Un_iff set_append)

lemma session_admitted_more: "session_admitted C X evs c \<Longrightarrow> session_admitted C X (evs @ [ev]) c"
  using admitted_more [of C X evs] unfolding session_admitted_def by (auto split: prod.splits) blast

lemma authentic_more:
  "authentic C evs B w p \<Longrightarrow> set (creds B) \<subseteq> set (creds B') \<Longrightarrow> authentic C (evs @ [ev]) B' w p"
  using received_more unfolding authentic_def by blast

section \<open>Well-formedness\<close>

text \<open>References are live, and a mutex is held by exactly one writing task.\<close>

definition tasks_ok :: "bridge \<Rightarrow> bool" where
  "tasks_ok B \<longleftrightarrow> table_ok B
     \<and> (\<forall>x \<in> set (br_forwarding B). fst x < length (br_heap B))
     \<and> (\<forall>pkt sid. br_sending B = Some (pkt, sid) \<longrightarrow> sid < length (br_heap B))
     \<and> distinct (map fst (br_writing B)) \<and> br_locked B = fst ` set (br_writing B)"

lemma tasks_ok_table: "tasks_ok B \<Longrightarrow> table_ok B"
  by (simp add: tasks_ok_def)

lemma table_ok_lock: "table_ok B \<Longrightarrow> sid < length (br_heap B) \<Longrightarrow> table_ok (B\<lparr>br_locked := insert sid (br_locked B)\<rparr>)"
  by (simp add: table_ok_def)

lemma table_ok_unlock: "table_ok B \<Longrightarrow> table_ok (B\<lparr>br_locked := br_locked B - S\<rparr>)"
  by (simp add: table_ok_def)

lemma map_remove_at: "map f (remove_at i xs) = remove_at i (map f xs)"
  by (simp add: remove_at_def take_map drop_map)

lemma remove_at_distinct:
  assumes "distinct xs" and "i < length xs"
  shows "distinct (remove_at i xs)" and "set (remove_at i xs) = set xs - {xs ! i}"
proof -
  obtain ys z zs where xs: "xs = ys @ z # zs" and parts: "ys = take i xs" "z = xs ! i" "zs = drop (Suc i) xs"
    using id_take_nth_drop [OF assms(2)] by blast
  have r: "remove_at i xs = ys @ zs" and z: "xs ! i = z"
    using parts by (simp_all add: remove_at_def)
  have d: "distinct (ys @ z # zs)"
    using assms(1) unfolding xs .
  then show "distinct (remove_at i xs)"
    unfolding r by auto
  show "set (remove_at i xs) = set xs - {xs ! i}"
    unfolding r z unfolding xs using d by auto
qed

lemma heap_send [simp]: "length (br_heap (send_locked C pkt sid B)) = length (br_heap B)"
  "br_forwarding (send_locked C pkt sid B) = br_forwarding B"
  "br_writing (send_locked C pkt sid B) = br_writing B" "br_locked (send_locked C pkt sid B) = br_locked B"
  "br_accepting (send_locked C pkt sid B) = br_accepting B" "br_queue (send_locked C pkt sid B) = br_queue B"
  "br_written (send_locked C pkt sid B) = br_written B" "br_sessions (send_locked C pkt sid B) = br_sessions B"
  by (auto simp: send_locked_def Let_def split: rs.splits)

lemma table_ok_send: "table_ok B \<Longrightarrow> table_ok (send_locked C pkt sid B)"
  using table_ok_update [of B sid] by (auto simp: send_locked_def Let_def split: rs.splits)

lemma accept_commit_fields [simp]:
  "br_locked (accept_commit key k w r t B) = br_locked B"
  "br_accepting (accept_commit key k w r t B) = br_accepting B"
  "br_forwarding (accept_commit key k w r t B) = br_forwarding B"
  "br_writing (accept_commit key k w r t B) = br_writing B"
  "br_queue (accept_commit key k w r t B) = br_queue B"
  "br_sending (accept_commit key k w r t B) = br_sending B"
  "br_reaper (accept_commit key k w r t B) = br_reaper B"
  "br_sent (accept_commit key k w r t B) = br_sent B"
  "br_written (accept_commit key k w r t B) = br_written B"
  "br_heap (accept_commit key k w r t B) = br_heap B @ [session_new t k w]"
  by (simp_all add: accept_commit_def insert_session_def)

lemma table_ok_accept: "table_ok B \<Longrightarrow> table_ok (accept_commit key k w r t B)"
  by (simp add: accept_commit_def table_ok_insert)

lemma step_tasks_ok:
  assumes "bridge_step C X ev B = Some B'" and "tasks_ok B"
  shows "tasks_ok B'"
  using assms(1)
proof (cases rule: bridge_step_cases)
  case packet
  then show ?thesis
    using assms(2) table_ok_get [OF tasks_ok_table [OF assms(2)]] by (simp add: tasks_ok_def)
next
  case opened
  then show ?thesis
    using assms(2) by (simp add: tasks_ok_def table_ok_accept) (meson less_SucI)
next
  case (locked i t sid pkt h p)
  then have "sid < length (br_heap B)"
    using assms(2) nth_mem [OF locked(2)] by (auto simp: tasks_ok_def)
  then show ?thesis
    using assms(2) locked(4) unfolding locked(6)
    by (auto simp: tasks_ok_def table_ok_def dest: in_remove_at)
next
  case dropped
  then show ?thesis
    using assms(2) by (auto simp: tasks_ok_def dest: in_remove_at)
next
  case (written i n sid w p)
  have "distinct (map fst (br_writing B))" "i < length (map fst (br_writing B))"
    using assms(2) written(1) by (auto simp: tasks_ok_def)
  from remove_at_distinct [OF this] show ?thesis
    using assms(2) written table_ok_unlock [OF tasks_ok_table [OF assms(2)], of "{sid}"]
    by (simp add: tasks_ok_def flip: set_map) (simp add: map_remove_at)
next
  case (taken pkt rest x)
  then show ?thesis
    using assms(2) table_ok_get [OF tasks_ok_table [OF assms(2)]] by (auto simp: tasks_ok_def)
next
  case reaped
  then show ?thesis
    using assms(2) by (simp add: tasks_ok_def table_ok_remove) (simp add: reap_remove_def)
qed (use assms(2) in \<open>simp_all add: tasks_ok_def table_ok_send\<close>)


section \<open>Provenance is kept\<close>

lemma step_session_admitted:
  assumes "bridge_step C X ev B = Some B'" and acc: "accounted C X evs B" and "c \<in> set (creds B')"
  shows "session_admitted C X (evs @ [ev]) c"
proof -
  have old: "session_admitted C X (evs @ [ev]) c" if "c \<in> set (creds B)" for c
    using acc that session_admitted_more by (auto simp: accounted_def)
  show ?thesis
    using step_creds [OF assms(1)]
  proof (elim disjE exE conjE)
    assume "creds B' = creds B"
    then show ?thesis using assms(3) old by simp
  next
    fix i E t key aead_key connect w r
    assume o: "ev = DestOpened i E t" "i < length (br_accepting B)" "br_accepting B ! i = (key, aead_key, connect)"
      "open_dest E connect = Ok (w, r)" "creds B' = creds B @ [(aead_key, w)]"
    then have "(key, aead_key, connect) \<in> set (br_accepting B)"
      by (metis nth_mem)
    then have "admitted C X (evs @ [ev]) aead_key connect"
      using acc admitted_more by (auto simp: accounted_def)
    moreover have "DestOpened i E t \<in> set (evs @ [ev])"
      by (simp add: o(1))
    ultimately have "session_admitted C X (evs @ [ev]) (aead_key, w)"
      using o(4) unfolding session_admitted_def prod.case by blast
    then show ?thesis using assms(3) old [of c] o(5) by auto
  qed
qed

lemma step_accounted:
  assumes "bridge_step C X ev B = Some B'" and acc: "accounted C X evs B" and "tasks_ok B"
  shows "accounted C X (evs @ [ev]) B'"
proof -
  have mono: "authentic C (evs @ [ev]) B' w p" if "authentic C evs B w p" for w p
    using authentic_more [OF that step_creds_mono [OF assms(1)]] .
  have accepting: "admitted C X (evs @ [ev]) k c" if "(key, k, c) \<in> set (br_accepting B)" for key k c
    using acc that admitted_more by (auto simp: accounted_def)
  have forwarding: "received (evs @ [ev]) pkt" if "(sid, pkt) \<in> set (br_forwarding B)" for sid pkt
    using acc that received_more by (auto simp: accounted_def)
  have writing: "authentic C (evs @ [ev]) B' w p" if "(sid, w, p) \<in> set (br_writing B)" for sid w p
    using acc that mono by (auto simp: accounted_def)
  have written: "\<exists>q n. authentic C (evs @ [ev]) B' w q \<and> p = take n q" if "(w, p) \<in> set (br_written B)" for w p
    using acc that mono unfolding accounted_def by fast
  have creds': "session_admitted C X (evs @ [ev]) c" if "c \<in> set (creds B')" for c
    by (rule step_session_admitted [OF assms(1) acc that])
  note kept = accepting forwarding writing written creds'
  show ?thesis
    using assms(1)
  proof (cases rule: bridge_step_cases)
    case (admit peer pkt now_ts key aead_key connect)
    then have "admitted C X (evs @ [ev]) aead_key connect"
      unfolding admitted_def by auto
    then show ?thesis
      using kept admit(3) unfolding accounted_def by auto
  next
    case (packet peer pkt now_ts key sid h)
    then have "received (evs @ [ev]) pkt" by (auto simp: received_def)
    then show ?thesis
      using kept packet(3) unfolding accounted_def by auto
  next
    case (locked i t sid pkt h p)
    have mem: "(sid, pkt) \<in> set (br_forwarding B)"
      using locked(2,3) by (metis nth_mem)
    then have "sid < length (br_heap B)"
      using assms(3) by (auto simp: tasks_ok_def)
    then have "(sn_aead_key (br_heap B ! sid), sn_dest_writer (br_heap B ! sid)) \<in> set (creds B)"
      by (auto simp: creds_def)
    then have "authentic C (evs @ [ev]) B' (sn_dest_writer (br_heap B ! sid)) p"
      using locked(5) forwarding [OF mem] step_creds_mono [OF assms(1)] unfolding authentic_def by blast
    then show ?thesis
      using kept locked(6) unfolding accounted_def by (auto dest: in_remove_at)
  next
    case (written i n sid w p)
    then have "authentic C (evs @ [ev]) B' w p"
      using writing by (metis nth_mem)
    then show ?thesis
      using kept written(3) unfolding accounted_def by (auto dest: in_remove_at)
  qed (use kept in \<open>auto simp: accounted_def reap_remove_def dest: in_remove_at\<close>)
qed

lemma run_invariant: "bridge_run C X evs B \<Longrightarrow> tasks_ok B \<and> accounted C X evs B"
proof (induction rule: bridge_run.induct)
  case start
  show ?case
    by (simp add: tasks_ok_def table_ok_def bridge_init_def accounted_def creds_def)
next
  case (step evs B ev B')
  then show ?case
    using step_tasks_ok [OF step.hyps(2)] step_accounted [OF step.hyps(2)] by simp
qed

section \<open>Sequence numbers\<close>

definition session_frames :: "nat \<Rightarrow> bridge \<Rightarrow> bytes list" where
  "session_frames sid B = map (\<lambda>(_, w, _). w) (filter (\<lambda>(i, _, _). i = sid) (br_sent B))"

definition sized :: "bridge \<Rightarrow> bool" where
  "sized B \<longleftrightarrow>
     (\<forall>c \<in> set (creds B). length (fst c) = 32) \<and> (\<forall>x \<in> set (br_accepting B). length (fst (snd x)) = 32)
   \<and> (\<forall>pkt \<in> set (br_queue B). length (dp_payload pkt) \<le> MAX_PAYLOAD_LEN)
   \<and> (\<forall>pkt sid. br_sending B = Some (pkt, sid) \<longrightarrow> length (dp_payload pkt) \<le> MAX_PAYLOAD_LEN)"

definition counted :: "crypto \<Rightarrow> bridge \<Rightarrow> bool" where
  "counted C B \<longleftrightarrow>
     (\<forall>x \<in> set (br_sent B). fst x < length (br_heap B)) \<and>
     (\<forall>sid < length (br_heap B).
        sn_tx_sequence (br_heap B ! sid) = of_nat (length (session_frames sid B))
      \<and> map frame_sequence (session_frames sid B) = map of_nat [1..<Suc (length (session_frames sid B))]
      \<and> (\<forall>w \<in> set (session_frames sid B). \<exists>h p. decrypt_frame C (sn_aead_key (br_heap B ! sid)) w = Ok (h, p)))"

lemma accept_check_key_length: "hkdf_ok C \<Longrightarrow> accept_check C X n t pkt = Ok (k, c) \<Longrightarrow> length k = 32"
  using derive_length(1) by (auto simp: accept_check_Ok)

lemma step_sized:
  assumes "hkdf_ok C" and "bridge_step C X ev B = Some B'" and "sized B"
  shows "sized B'"
proof -
  have creds: "\<forall>c \<in> set (creds B'). length (fst c) = 32"
    using step_creds [OF assms(2)] assms(3) by (fastforce simp: sized_def dest: nth_mem)
  show ?thesis
    using assms(2)
  proof (cases rule: bridge_step_cases)
    case admit
    then show ?thesis
      using assms(3) accept_check_key_length [OF assms(1)] by (auto simp: sized_def)
  next
    case taken
    then show ?thesis
      using assms(3) creds by (auto simp: sized_def)
  qed (use assms(3) creds in \<open>auto simp: sized_def reap_remove_def dest: in_remove_at\<close>)
qed

lemma counted_same:
  assumes "counted C B" and "br_sent B' = br_sent B"
    and "map (\<lambda>s. (sn_aead_key s, sn_tx_sequence s)) (br_heap B') = map (\<lambda>s. (sn_aead_key s, sn_tx_sequence s)) (br_heap B)"
  shows "counted C B'"
proof -
  have len: "length (br_heap B') = length (br_heap B)"
    using assms(3) by (rule map_eq_imp_length_eq)
  have "(sn_aead_key (br_heap B' ! i), sn_tx_sequence (br_heap B' ! i))
      = (sn_aead_key (br_heap B ! i), sn_tx_sequence (br_heap B ! i))" if "i < length (br_heap B)" for i
    using arg_cong [OF assms(3), of "\<lambda>l. l ! i"] that len by simp
  then show ?thesis
    using assms(1,2) len by (simp add: counted_def session_frames_def)
qed

lemma counted_new:
  assumes "counted C B"
  shows "counted C (accept_commit key k w r t B)"
proof -
  have "session_frames (length (br_heap B)) B = []"
    using assms by (fastforce simp: counted_def session_frames_def filter_empty_conv)
  then show ?thesis
    using assms by (auto simp: counted_def session_frames_def nth_append less_Suc_eq session_new_def)
qed

text \<open>What the sender adds when it holds the session: a frame the client can read.\<close>

lemma send_locked_frame:
  assumes aead: "aead_ok C" and key: "length (sn_aead_key (br_heap B ! sid)) = 32"
    and len: "length (dp_payload pkt) \<le> MAX_PAYLOAD_LEN"
  obtains w h where
    "send_locked C pkt sid B =
       B\<lparr>br_heap := (br_heap B)[sid := (br_heap B ! sid)\<lparr>sn_tx_sequence := sn_tx_sequence (br_heap B ! sid) + 1\<rparr>],
         br_sent := br_sent B @ [(sid, w, sk_client_addr (dp_session_key pkt))]\<rparr>"
    and "decrypt_frame C (sn_aead_key (br_heap B ! sid)) w = Ok (h, dp_payload pkt)"
    and "h_sequence h = sn_tx_sequence (br_heap B ! sid) + 1" and "frame_sequence w = h_sequence h"
proof -
  let ?s = "br_heap B ! sid"
  let ?h = "\<lparr>h_version = PROTO_VERSION, h_flags = flags_empty,
      h_connection_id = sk_connection_id (dp_session_key pkt), h_sequence = sn_tx_sequence ?s + 1\<rparr>"
  obtain w where w: "encrypt_frame C (sn_aead_key ?s) ?h (dp_payload pkt) = Ok w"
    using encrypt_frame_total [OF aead key len] by metis
  have ok: "header_ok ?h" by (simp add: header_ok_def flags_empty_def)
  have "header_decode w = Ok ?h"
    using w header_codec.dec_enc [OF ok] by (auto simp: encrypt_frame_Ok_iff)
  then have "frame_sequence w = h_sequence ?h"
    by (simp add: frame_sequence_def)
  moreover have "send_locked C pkt sid B = B\<lparr>br_heap := (br_heap B)[sid := ?s\<lparr>sn_tx_sequence := sn_tx_sequence ?s + 1\<rparr>],
      br_sent := br_sent B @ [(sid, w, sk_client_addr (dp_session_key pkt))]\<rparr>"
    using w by (simp add: send_locked_def Let_def)
  ultimately show thesis
    using decrypt_encrypt_frame [OF aead ok w] by (intro that [of w ?h]) simp_all
qed

lemma counted_send:
  assumes aead: "aead_ok C" and counted: "counted C B" and sid: "sid < length (br_heap B)"
    and key: "length (sn_aead_key (br_heap B ! sid)) = 32" and len: "length (dp_payload pkt) \<le> MAX_PAYLOAD_LEN"
  shows "counted C (send_locked C pkt sid B)"
proof -
  obtain w h where B': "send_locked C pkt sid B =
       B\<lparr>br_heap := (br_heap B)[sid := (br_heap B ! sid)\<lparr>sn_tx_sequence := sn_tx_sequence (br_heap B ! sid) + 1\<rparr>],
         br_sent := br_sent B @ [(sid, w, sk_client_addr (dp_session_key pkt))]\<rparr>"
    and dec: "decrypt_frame C (sn_aead_key (br_heap B ! sid)) w = Ok (h, dp_payload pkt)"
    and seq: "h_sequence h = sn_tx_sequence (br_heap B ! sid) + 1" "frame_sequence w = h_sequence h"
    by (rule send_locked_frame [OF aead key len])
  have frames: "session_frames i (send_locked C pkt sid B) = session_frames i B @ (if i = sid then [w] else [])" for i
    by (simp add: B' session_frames_def)
  show ?thesis
    unfolding counted_def frames using counted sid dec seq
    by (auto simp: B' counted_def nth_list_update)
qed

lemma step_counted:
  assumes "aead_ok C" and "bridge_step C X ev B = Some B'" and "tasks_ok B" and "sized B" and "counted C B"
  shows "counted C B'"
  using assms(2)
proof (cases rule: bridge_step_cases)
  case (opened i E t key aead_key connect w r)
  then show ?thesis
    using counted_new [of C "B\<lparr>br_accepting := remove_at i (br_accepting B)\<rparr>"]
      counted_same [OF assms(5), of "B\<lparr>br_accepting := remove_at i (br_accepting B)\<rparr>"] by simp
next
  case (sent pkt sid)
  have "sid < length (br_heap B)"
    using assms(3) sent(1) by (auto simp: tasks_ok_def)
  moreover from this have "length (sn_aead_key (br_heap B ! sid)) = 32"
    using assms(4) by (auto simp: sized_def creds_def)
  moreover have "length (dp_payload pkt) \<le> MAX_PAYLOAD_LEN"
    using assms(4) sent(1) by (auto simp: sized_def)
  ultimately have "counted C (send_locked C pkt sid B)"
    by (rule counted_send [OF assms(1,5)])
  then show ?thesis
    by (rule counted_same) (simp_all add: sent(3))
qed (rule counted_same [OF assms(5)]; simp add: map_update_same reap_remove_def)+

lemma run_counted:
  assumes "aead_ok C" and "hkdf_ok C" and "bridge_run C X evs B"
  shows "sized B \<and> counted C B"
  using assms(3)
proof (induction rule: bridge_run.induct)
  case start
  show ?case
    by (simp add: sized_def counted_def bridge_init_def creds_def session_frames_def)
next
  case (step evs B ev B')
  then show ?case
    using step_sized [OF assms(2) step.hyps(2)] step_counted [OF assms(1) step.hyps(2)] run_invariant by blast
qed

section \<open>Properties\<close>

text \<open>Two histories of the sample bridge, which has room for one session.\<close>

definition sample_history :: "bridge_event list" where
  "sample_history =
     [Datagram sample_client (sample_syn 5) 150, DestOpened 0 sample_env 1000,
      Datagram sample_client (sample_data 5 1 [1, 2]) 151, ForwardLock 0 2000, WriteDone 0 2,
      DestRead 0 (Ok [9]), SenderTakes, SenderSends, DestRead 0 (Ok [8]), SenderTakes, SenderSends]"

definition racing_history :: "bridge_event list" where
  "racing_history =
     [Datagram sample_client (sample_syn 5) 150, Datagram sample_client (sample_syn 6) 150,
      DestOpened 0 sample_env 1000, DestOpened 0 sample_env 1000]"

definition reaping_history :: "bridge_event list" where
  "reaping_history =
     [Datagram sample_client (sample_syn 5) 150, DestOpened 0 sample_env 1000,
      ReaperWakes 0 400000000000, Datagram sample_client (sample_data 5 1 [1, 2]) 151,
      ForwardLock 0 400000000001, WriteDone 0 2, ReaperRemoves]"

lemma exec_run: "bridge_exec C X evs bridge_init = Some B \<Longrightarrow> bridge_run C X evs B"
  using bridge_exec_run [of C X evs bridge_init B "[]"] bridge_run.start by simp

lemma exec_case:
  "(case bridge_exec C X evs bridge_init of None \<Rightarrow> False | Some B \<Rightarrow> P B) \<Longrightarrow> \<exists>B. bridge_run C X evs B \<and> P B"
  by (cases "bridge_exec C X evs bridge_init") (auto dest: exec_run)

lemma sample_history_ends:
  obtains B where "bridge_run toy sample_ctx sample_history B"
    and "br_written B = [(WUdp 7, [1, 2])]" and "length (br_heap B) = 1" and "length (session_frames 0 B) = 2"
proof -
  have "case bridge_exec toy sample_ctx sample_history bridge_init of None \<Rightarrow> False
      | Some B \<Rightarrow> br_written B = [(WUdp 7, [1, 2])] \<and> length (br_heap B) = 1 \<and> length (session_frames 0 B) = 2"
    by code_simp
  from exec_case [OF this] that show thesis by blast
qed

text \<open>C1: Nothing reaches a destination but what a licensed client sent.  Whatever the order in
  which the relay's tasks run, every write to a destination socket is (a prefix of) a payload that
  some received datagram carried, authenticated under a session key; that key was derived from a
  received SYN whose license token passed every check, and the socket was opened to the destination
  that SYN's CONNECT names.\<close>

theorem only_licensed_bytes_written:
  assumes "bridge_run C X evs B" and "(w, p) \<in> set (br_written B)"
  shows "\<exists>aead_key pkt h q n. p = take n q
    \<and> (\<exists>peer now_ts. Datagram peer pkt now_ts \<in> set evs) \<and> decrypt_frame C aead_key pkt = Ok (h, q)
    \<and> (\<exists>peer syn now_ts m connect i E t r.
         Datagram peer syn now_ts \<in> set evs \<and> accept_check C X m now_ts syn = Ok (aead_key, connect)
       \<and> DestOpened i E t \<in> set evs \<and> open_dest E connect = Ok (w, r))"
proof -
  have acc: "accounted C X evs B"
    using run_invariant [OF assms(1)] by simp
  then obtain q n where q: "authentic C evs B w q" "p = take n q"
    using assms(2) unfolding accounted_def by fast
  then obtain aead_key pkt h where k: "(aead_key, w) \<in> set (creds B)" "received evs pkt"
    "decrypt_frame C aead_key pkt = Ok (h, q)"
    unfolding authentic_def by blast
  have "session_admitted C X evs (aead_key, w)"
    using acc k(1) unfolding accounted_def by blast
  then show ?thesis
    using q(2) k(2,3) unfolding session_admitted_def admitted_def received_def prod.case by blast
qed

theorem only_licensed_bytes_written_witness:
  "\<exists>aead_key pkt h q n. [1, 2] = take n q
    \<and> (\<exists>peer now_ts. Datagram peer pkt now_ts \<in> set sample_history) \<and> decrypt_frame toy aead_key pkt = Ok (h, q)
    \<and> (\<exists>peer syn now_ts m connect i E t r.
         Datagram peer syn now_ts \<in> set sample_history
       \<and> accept_check toy sample_ctx m now_ts syn = Ok (aead_key, connect)
       \<and> DestOpened i E t \<in> set sample_history \<and> open_dest E connect = Ok (WUdp 7, r))"
  by (rule sample_history_ends, rule only_licensed_bytes_written, assumption) simp



text \<open>C12: The shared state stays well-formed under every interleaving: each key of the table names a
  live session, no session is reachable under two keys, and two writes in flight never belong to
  the same session (its mutex is held across the write).\<close>

theorem bridge_state_well_formed:
  assumes "bridge_run C X evs B"
  shows "(\<forall>k sid. hm_get (br_sessions B) k = Some sid \<longrightarrow> sid < length (br_heap B))
    \<and> (\<forall>k k' sid. hm_get (br_sessions B) k = Some sid \<and> hm_get (br_sessions B) k' = Some sid \<longrightarrow> k = k')
    \<and> distinct (map fst (br_writing B))
    \<and> (\<forall>sid. sid \<in> br_locked B \<longleftrightarrow> (\<exists>w p. (sid, w, p) \<in> set (br_writing B)))"
proof -
  have "sid \<in> fst ` set xs \<longleftrightarrow> (\<exists>w p. (sid, w, p) \<in> set xs)" for sid and xs :: "(nat \<times> dest_writer \<times> bytes) list"
    by force
  then show ?thesis
    using run_invariant [OF assms] unfolding tasks_ok_def table_ok_def by metis
qed

theorem bridge_state_well_formed_witness:
  "\<exists>B. bridge_run toy sample_ctx sample_history B \<and> distinct (map fst (br_writing B))"
  by (rule sample_history_ends) (use bridge_state_well_formed in blast)

text \<open>The session limit is not enforced across the \<open>await\<close> that opens the destination: two
  SYNs that arrive before either destination is open both pass the check, and a bridge configured
  for one session ends up with two.\<close>

theorem session_limit_race:
  "\<exists>B. bridge_run toy sample_ctx racing_history B
    \<and> bc_max_sessions (bx_config sample_ctx) = 1 \<and> hm_len (br_sessions B) = 2"
proof -
  have "case bridge_exec toy sample_ctx racing_history bridge_init of None \<Rightarrow> False
      | Some B \<Rightarrow> hm_len (br_sessions B) = 2"
    by code_simp
  from exec_case [OF this] show ?thesis
    by (auto simp: sample_ctx_def)
qed

text \<open>The reaper can remove a session that has just become active: a packet handled between its
  two passes stamps the session, and the second pass removes it all the same.\<close>

theorem reaper_removes_active_session:
  "\<exists>B. bridge_run toy sample_ctx reaping_history B \<and> length (br_heap B) = 1
    \<and> sn_last_active (br_heap B ! 0) = 400000000001 \<and> hm_get (br_sessions B) (sample_session_key 5) = None
    \<and> br_written B = [(WUdp 7, [1, 2])]"
proof -
  have "case bridge_exec toy sample_ctx reaping_history bridge_init of None \<Rightarrow> False
      | Some B \<Rightarrow> length (br_heap B) = 1 \<and> sn_last_active (br_heap B ! 0) = 400000000001
          \<and> hm_get (br_sessions B) (sample_session_key 5) = None \<and> br_written B = [(WUdp 7, [1, 2])]"
    by code_simp
  from exec_case [OF this] show ?thesis .
qed

end
