(* ===== verification/Lp_Bridge_Refine.thy ===== *)
theory Lp_Bridge_Refine
  imports Lp_Bridge_System
begin

text \<open>
  What the relay promises, as an abstract machine of four logs, and two refinements: the interleaved
  tasks of \<open>Lp_Bridge_System\<close> implement that machine, and the handlers of \<open>Lp_Bridge\<close>, each run to
  its end, are schedules of those tasks.
\<close>

section \<open>Refinement\<close>

text \<open>
  A concrete machine refines an abstract one under an abstraction function when, in a good state,
  every concrete step keeps the state good and is matched by a run of abstract steps (of any
  length, none included).
\<close>

locale refinement =
  fixes cstep :: "'e \<Rightarrow> 'c \<Rightarrow> 'c \<Rightarrow> bool" and astep :: "'a \<Rightarrow> 'a \<Rightarrow> bool"
    and abst :: "'c \<Rightarrow> 'a" and good :: "'c \<Rightarrow> bool"
  assumes keeps: "cstep e c c' \<Longrightarrow> good c \<Longrightarrow> good c'"
    and matched: "cstep e c c' \<Longrightarrow> good c \<Longrightarrow> astep\<^sup>*\<^sup>* (abst c) (abst c')"
begin

lemma runs:
  assumes "(\<lambda>c c'. \<exists>e. cstep e c c')\<^sup>*\<^sup>* c c'" and "good c"
  shows "good c' \<and> astep\<^sup>*\<^sup>* (abst c) (abst c')"
  using assms(1)
proof (induction rule: rtranclp_induct)
  case base
  then show ?case using assms(2) by simp
next
  case (step c1 c2)
  then show ?case
    using keeps matched rtranclp_trans [of astep "abst c" "abst c1" "abst c2"] by blast
qed

end

section \<open>The relay's contract\<close>

text \<open>
  The datagrams received (with the time), the grants (a session key and the destination opened for
  it), the writes to destinations, and the frames sent to clients, each with the number of its
  grant.  A grant needs a SYN that passes the bridge's check, whatever the size of the session
  table; a write needs a received frame that a grant's key authenticates; an answer is readable
  under its grant's key and carries the next number.
\<close>

record relay =
  rl_datagrams :: "(bytes \<times> i64) list"
  rl_grants :: "(bytes \<times> dest_writer) list"
  rl_delivered :: "(dest_writer \<times> bytes) list"
  rl_answered :: "(nat \<times> bytes \<times> sock_addr) list"

definition relay_init :: relay where
  "relay_init = \<lparr>rl_datagrams = [], rl_grants = [], rl_delivered = [], rl_answered = []\<rparr>"

inductive relay_step :: "crypto \<Rightarrow> bridge_ctx \<Rightarrow> relay \<Rightarrow> relay \<Rightarrow> bool"
  for C :: crypto and X :: bridge_ctx where
  receive: "relay_step C X S (S\<lparr>rl_datagrams := rl_datagrams S @ [d]\<rparr>)"
| grant: "(syn, t) \<in> set (rl_datagrams S) \<Longrightarrow> accept_check C X n t syn = Ok (k, connect) \<Longrightarrow>
    open_dest E connect = Ok (w, r) \<Longrightarrow> relay_step C X S (S\<lparr>rl_grants := rl_grants S @ [(k, w)]\<rparr>)"
| deliver: "(k, w) \<in> set (rl_grants S) \<Longrightarrow> (pkt, t) \<in> set (rl_datagrams S) \<Longrightarrow>
    decrypt_frame C k pkt = Ok (h, p) \<Longrightarrow>
    relay_step C X S (S\<lparr>rl_delivered := rl_delivered S @ [(w, take n p)]\<rparr>)"
| answer: "i < length (rl_grants S) \<Longrightarrow> decrypt_frame C (fst (rl_grants S ! i)) f = Ok (h, p) \<Longrightarrow>
    h_sequence h = of_nat (Suc (length (filter (\<lambda>x. fst x = i) (rl_answered S)))) \<Longrightarrow>
    relay_step C X S (S\<lparr>rl_answered := rl_answered S @ [(i, f, a)]\<rparr>)"

inductive_cases relay_stepE: "relay_step C X S S'"

text \<open>The contract's state, read off the relay's.\<close>

fun datagrams_of :: "bridge_event list \<Rightarrow> (bytes \<times> i64) list" where
  "datagrams_of [] = []"
| "datagrams_of (Datagram peer pkt now_ts # evs) = (pkt, now_ts) # datagrams_of evs"
| "datagrams_of (_ # evs) = datagrams_of evs"

definition relay_of :: "bridge_event list \<times> bridge \<Rightarrow> relay" where
  "relay_of = (\<lambda>(evs, B). \<lparr>rl_datagrams = datagrams_of evs, rl_grants = creds B,
     rl_delivered = br_written B, rl_answered = br_sent B\<rparr>)"

lemma datagrams_of_append [simp]: "datagrams_of (evs @ evs') = datagrams_of evs @ datagrams_of evs'"
  by (induction evs rule: datagrams_of.induct) auto

lemma datagrams_of_iff: "(pkt, t) \<in> set (datagrams_of evs) \<longleftrightarrow> (\<exists>peer. Datagram peer pkt t \<in> set evs)"
  by (induction evs rule: datagrams_of.induct) auto

lemma relay_of_receives: "(relay_step C X)\<^sup>*\<^sup>* (relay_of (evs, B)) (relay_of (evs @ [ev], B))"
proof (cases ev)
  case (Datagram peer pkt now_ts)
  then show ?thesis
    using relay_step.receive [of C X "relay_of (evs, B)" "(pkt, now_ts)"]
    by (simp add: relay_of_def r_into_rtranclp)
qed (simp_all add: relay_of_def)

section \<open>The tasks implement the contract\<close>

definition system_step ::
  "crypto \<Rightarrow> bridge_ctx \<Rightarrow> bridge_event \<Rightarrow> bridge_event list \<times> bridge \<Rightarrow> bridge_event list \<times> bridge \<Rightarrow> bool" where
  "system_step C X ev c c' \<longleftrightarrow> fst c' = fst c @ [ev] \<and> bridge_step C X ev (snd c) = Some (snd c')"

definition system_good :: "crypto \<Rightarrow> bridge_ctx \<Rightarrow> bridge_event list \<times> bridge \<Rightarrow> bool" where
  "system_good C X = (\<lambda>(evs, B). aead_ok C \<and> hkdf_ok C \<and> tasks_ok B \<and> accounted C X evs B
     \<and> sized B \<and> counted C B)"

lemma system_good_step: "system_step C X ev c c' \<Longrightarrow> system_good C X c \<Longrightarrow> system_good C X c'"
  using step_tasks_ok step_accounted step_sized step_counted
  by (auto simp: system_step_def system_good_def split: prod.splits)

lemma system_good_init: "aead_ok C \<Longrightarrow> hkdf_ok C \<Longrightarrow> system_good C X ([], bridge_init)"
  using run_invariant [OF bridge_run.start] run_counted [OF _ _ bridge_run.start] by (simp add: system_good_def)

lemma session_frames_count:
  "length (session_frames sid B) = length (filter (\<lambda>x. fst x = sid) (br_sent B))"
proof -
  have "(\<lambda>(i, _ :: bytes, _ :: sock_addr). i = sid) = (\<lambda>x. fst x = sid)" by auto
  then show ?thesis by (simp add: session_frames_def)
qed

lemma answered_in_turn:
  assumes "system_good C X (evs, B)" and "br_sending B = Some (pkt, sid)"
  shows "relay_step C X (relay_of (evs', B)) (relay_of (evs', (send_locked C pkt sid B)\<lparr>br_sending := None\<rparr>))"
proof -
  have sid: "sid < length (br_heap B)" and aead: "aead_ok C" and counted: "counted C B"
    and len: "length (dp_payload pkt) \<le> MAX_PAYLOAD_LEN" and "\<forall>c \<in> set (creds B). length (fst c) = 32"
    using assms by (auto simp: system_good_def tasks_ok_def sized_def)
  then have key: "length (sn_aead_key (br_heap B ! sid)) = 32"
    by (auto simp: creds_def)
  obtain w h where B': "send_locked C pkt sid B =
       B\<lparr>br_heap := (br_heap B)[sid := (br_heap B ! sid)\<lparr>sn_tx_sequence := sn_tx_sequence (br_heap B ! sid) + 1\<rparr>],
         br_sent := br_sent B @ [(sid, w, sk_client_addr (dp_session_key pkt))]\<rparr>"
    and dec: "decrypt_frame C (sn_aead_key (br_heap B ! sid)) w = Ok (h, dp_payload pkt)"
    and seq: "h_sequence h = sn_tx_sequence (br_heap B ! sid) + 1"
    by (rule send_locked_frame [OF aead key len])
  have "h_sequence h = of_nat (Suc (length (filter (\<lambda>x. fst x = sid) (br_sent B))))"
    using seq counted sid by (simp add: counted_def flip: session_frames_count)
  then show ?thesis
    using relay_step.answer [of sid "relay_of (evs', B)" C w h "dp_payload pkt" X "sk_client_addr (dp_session_key pkt)"]
      sid dec creds_send [of C pkt sid B]
    by (simp add: relay_of_def B' creds_def)
qed

lemma system_matched:
  assumes step: "system_step C X ev c c'" and good: "system_good C X c"
  shows "(relay_step C X)\<^sup>*\<^sup>* (relay_of c) (relay_of c')"
proof -
  obtain evs B B' where c: "c = (evs, B)" and c': "c' = (evs @ [ev], B')"
    by (metis prod.collapse step system_step_def)
  have st: "bridge_step C X ev B = Some B'"
    using step by (simp add: system_step_def c c')
  have acc: "accounted C X evs B" and tasks: "tasks_ok B"
    using good by (simp_all add: system_good_def c)
  let ?S = "relay_of (evs @ [ev], B)"
  have "?S = relay_of c' \<or> relay_step C X ?S (relay_of c')"
    using st
  proof (cases rule: bridge_step_cases)
    case (opened i E t key aead_key connect w r)
    then have "(key, aead_key, connect) \<in> set (br_accepting B)"
      by (metis nth_mem)
    then obtain peer syn now_ts n where "Datagram peer syn now_ts \<in> set evs"
      "accept_check C X n now_ts syn = Ok (aead_key, connect)"
      using acc by (auto simp: accounted_def admitted_def)
    then have "relay_step C X ?S (?S\<lparr>rl_grants := rl_grants ?S @ [(aead_key, w)]\<rparr>)"
      using opened(4) by (intro relay_step.grant) (auto simp: relay_of_def datagrams_of_iff)
    then show ?thesis
      using opened(5) by (simp add: relay_of_def c' creds_def session_new_def)
  next
    case (locked i t sid pkt h p)
    then have "creds B' = creds B"
      by (simp add: creds_def map_update_same)
    then show ?thesis
      by (simp add: relay_of_def c' locked(6))
  next
    case (written i n sid w p)
    then have "(sid, w, p) \<in> set (br_writing B)"
      by (metis nth_mem)
    then have "authentic C evs B w p"
      using acc by (auto simp: accounted_def)
    then obtain aead_key pkt h peer now_ts where "(aead_key, w) \<in> set (creds B)"
      "Datagram peer pkt now_ts \<in> set evs" "decrypt_frame C aead_key pkt = Ok (h, p)"
      by (auto simp: authentic_def received_def)
    then have "relay_step C X ?S (?S\<lparr>rl_delivered := rl_delivered ?S @ [(w, take n p)]\<rparr>)"
      by (intro relay_step.deliver) (auto simp: relay_of_def datagrams_of_iff)
    then show ?thesis
      using written(3) by (simp add: relay_of_def c')
  next
    case (sent pkt sid)
    then show ?thesis
      using answered_in_turn [of C X evs B pkt sid "evs @ [ev]"] good by (simp add: c c')
  qed (auto simp: relay_of_def c' creds_update reap_remove_def)
  then show ?thesis
    using relay_of_receives [of C X evs B ev] unfolding c
    by (metis rtranclp.rtrancl_into_rtrancl)
qed

interpretation tasks: refinement "system_step C X" "relay_step C X" relay_of "system_good C X"
  by unfold_locales (fact system_good_step, fact system_matched)

lemma run_system:
  "bridge_run C X evs B \<Longrightarrow> (\<lambda>c c'. \<exists>ev. system_step C X ev c c')\<^sup>*\<^sup>* ([], bridge_init) (evs, B)"
proof (induction rule: bridge_run.induct)
  case (step evs B ev B')
  then have "system_step C X ev (evs, B) (evs @ [ev], B')"
    by (simp add: system_step_def)
  then show ?case
    using step.IH by (metis (mono_tags, lifting) rtranclp.rtrancl_into_rtrancl)
qed simp

section \<open>The handlers are schedules of the tasks\<close>

text \<open>One operation of the relay run to its end, with nothing in between.\<close>

datatype relay_op =
  HandlePacket sock_addr bytes i64 dest_env instant
| ReadDest nat "(bytes, string) rs"
| SendNext
| Reap instant instant

fun relay_op_step :: "crypto \<Rightarrow> bridge_ctx \<Rightarrow> relay_op \<Rightarrow> bridge \<Rightarrow> bridge option" where
  "relay_op_step C X (HandlePacket peer pkt now_ts E t) B =
     (case handle_packet C X E now_ts t peer pkt B of Ok B' \<Rightarrow> Some B' | Err _ \<Rightarrow> Some B | Panic \<Rightarrow> None)"
| "relay_op_step C X (ReadDest i r) B = dest_read_step i r B"
| "relay_op_step C X SendNext B = Some (downstream_round C B)"
| "relay_op_step C X (Reap lo t) B =
     (case (idle_reaper_round lo X t B :: (bridge, unit) rs) of Ok B' \<Rightarrow> Some B' | _ \<Rightarrow> None)"

definition at_rest :: "bridge \<Rightarrow> bool" where
  "at_rest B \<longleftrightarrow> br_accepting B = [] \<and> br_forwarding B = [] \<and> br_writing B = [] \<and> br_locked B = {}
     \<and> br_sending B = None \<and> br_reaper B = Sleeping"

definition task_step :: "crypto \<Rightarrow> bridge_ctx \<Rightarrow> bridge \<Rightarrow> bridge \<Rightarrow> bool" where
  "task_step C X B B' \<longleftrightarrow> (\<exists>ev. bridge_step C X ev B = Some B')"

lemma remove_only [simp]: "remove_at 0 [x] = []"
  by (simp add: remove_at_def)

lemma exec_task_steps: "bridge_exec C X evs B = Some B' \<Longrightarrow> (task_step C X)\<^sup>*\<^sup>* B B'"
proof (induction evs arbitrary: B)
  case (Cons ev evs)
  then obtain B1 where "bridge_step C X ev B = Some B1" "(task_step C X)\<^sup>*\<^sup>* B1 B'"
    by (auto split: option.splits)
  then show ?case
    by (metis converse_rtranclp_into_rtranclp task_step_def)
qed simp

lemma task_steps_run: "(task_step C X)\<^sup>*\<^sup>* B B' \<Longrightarrow> bridge_run C X evs B \<Longrightarrow> \<exists>evs'. bridge_run C X evs' B'"
  by (induction rule: rtranclp_induct) (auto simp: task_step_def intro: bridge_run.step)

lemma rest_updates:
  "br_accepting B = [] \<Longrightarrow> B\<lparr>br_accepting := []\<rparr> = B" "br_forwarding B = [] \<Longrightarrow> B\<lparr>br_forwarding := []\<rparr> = B"
  "br_sending B = None \<Longrightarrow> B\<lparr>br_sending := None\<rparr> = B" "br_reaper B = Sleeping \<Longrightarrow> B\<lparr>br_reaper := Sleeping\<rparr> = B"
  "br_writing B = [] \<Longrightarrow> B\<lparr>br_writing := []\<rparr> = B" "br_locked B = {} \<Longrightarrow> B\<lparr>br_locked := {}\<rparr> = B"
  by (cases B, simp)+

lemma no_schedule: "\<exists>evs. bridge_exec C X evs B = Some B"
  by (rule exI [of _ "[]"]) simp

lemma accept_schedule:
  assumes "at_rest B" and "packet_header pkt = Ok h" and "contains_flag (h_flags h) SYN"
    and "accept_new_session C X E now_ts t \<lparr>sk_client_addr = peer, sk_connection_id = h_connection_id h\<rparr> pkt B = r"
  shows "\<exists>evs. bridge_exec C X evs B = Some (case r of Ok B' \<Rightarrow> B' | _ \<Rightarrow> B)"
proof (cases "accept_check C X (hm_len (br_sessions B)) now_ts pkt")
  case (Ok a)
  obtain k connect where a: "a = (k, connect)" by (cases a)
  have "bridge_exec C X [Datagram peer pkt now_ts, DestOpened 0 E t] B = Some (case r of Ok B' \<Rightarrow> B' | _ \<Rightarrow> B)"
    using assms Ok a unfolding at_rest_def
    by (auto simp: datagram_step_def dest_opened_step_def accept_new_session_def Let_def rest_updates split: rs.splits)
  then show ?thesis by blast
qed (use assms(4) in \<open>auto simp: accept_new_session_def intro!: no_schedule\<close>)

lemma forward_schedule:
  assumes rest: "at_rest B" and h: "packet_header pkt = Ok h" "\<not> contains_flag (h_flags h) SYN"
    and r: "forward_data C t \<lparr>sk_client_addr = peer, sk_connection_id = h_connection_id h\<rparr> pkt B = r"
  shows "\<exists>evs. bridge_exec C X evs B = Some (case r of Ok B' \<Rightarrow> B' | _ \<Rightarrow> B)"
proof (cases "hm_get (br_sessions B) \<lparr>sk_client_addr = peer, sk_connection_id = h_connection_id h\<rparr>")
  case None
  then show ?thesis
    using r by (auto simp: forward_data_def intro!: no_schedule)
next
  case (Some sid)
  let ?D = "Datagram peer pkt 0"
  let ?B1 = "B\<lparr>br_forwarding := [(sid, pkt)]\<rparr>"
  have idle: "br_forwarding B = []" "br_writing B = []" "br_locked B = {}"
    using rest by (simp_all add: at_rest_def)
  have take: "bridge_step C X ?D B = Some ?B1"
    using h Some idle by (simp add: datagram_step_def Let_def)
  show ?thesis
  proof (cases "forward_locked C t sid pkt B")
    case (Ok x)
    obtain B2 w p where x: "x = (B2, w, p)" by (cases x)
    obtain hd where dec: "decrypt_frame C (sn_aead_key (br_heap B ! sid)) pkt = Ok (hd, p)"
      and B2: "B2 = B\<lparr>br_heap := (br_heap B)[sid := (br_heap B ! sid)\<lparr>sn_last_active := t\<rparr>]\<rparr>"
      and w: "w = sn_dest_writer (br_heap B ! sid)"
      using Ok by (auto simp: x forward_locked_Ok)
    let ?B3 = "B2\<lparr>br_locked := {sid}, br_writing := [(sid, w, p)]\<rparr>"
    have "forward_locked C t sid pkt (?B1\<lparr>br_forwarding := []\<rparr>) = Ok (B2, w, p)"
      using dec w by (simp add: forward_locked_Ok B2 rest_updates idle)
    then have lock: "bridge_step C X (ForwardLock 0 t) ?B1 = Some ?B3"
      using idle by (simp add: forward_lock_step_def B2)
    have "r = Ok (B2\<lparr>br_written := br_written B2 @ [(w, p)]\<rparr>)"
      using r Some Ok by (simp add: forward_data_def x)
    moreover have "bridge_step C X (WriteDone 0 (length p)) ?B3
        = Some (B2\<lparr>br_written := br_written B2 @ [(w, p)]\<rparr>)"
      using idle by (simp add: write_done_step_def B2 rest_updates)
    ultimately have "bridge_exec C X [?D, ForwardLock 0 t, WriteDone 0 (length p)] B
        = Some (case r of Ok B' \<Rightarrow> B' | _ \<Rightarrow> B)"
      by (simp add: take lock del: bridge_step.simps)
    then show ?thesis by blast
  qed (use r Some in \<open>auto simp: forward_data_def intro!: no_schedule\<close>)
qed

lemma rest_kept:
  assumes "at_rest B"
  shows "at_rest (B\<lparr>br_heap := x\<rparr>)" "at_rest (B\<lparr>br_written := y\<rparr>)" "at_rest (B\<lparr>br_queue := z\<rparr>)"
    "at_rest (B\<lparr>br_draining := u\<rparr>)" "at_rest (B\<lparr>br_sessions := v\<rparr>)" "at_rest (B\<lparr>br_sent := s\<rparr>)"
  using assms by (simp_all add: at_rest_def)

lemma rest_send: "at_rest B \<Longrightarrow> at_rest (send_locked C pkt sid B)"
  by (auto simp: send_locked_def Let_def rest_kept split: rs.splits)

lemma op_keeps_rest: "relay_op_step C X op B = Some B' \<Longrightarrow> at_rest B \<Longrightarrow> at_rest B'"
proof (induction C X op B rule: relay_op_step.induct)
  case 1
  then show ?case
    by (auto simp: handle_packet_def accept_new_session_def accept_commit_def insert_session_def
        forward_data_def forward_locked_Ok Let_def rest_kept split: rs.splits if_splits prod.splits)
next
  case 2
  then show ?case
    by (auto simp: dest_read_step_def rest_kept dest!: drain_step_Some split: if_splits prod.splits option.splits)
next
  case 3
  then show ?case
    by (auto simp: downstream_round_def Let_def rest_kept rest_send split: list.splits option.splits)
next
  case 4
  then show ?case
    by (auto simp: idle_reaper_round_def reap_sessions_def reap_remove_def rest_kept split: rs.splits)
qed

lemma packet_schedule:
  assumes rest: "at_rest B"
  shows "\<exists>evs. bridge_exec C X evs B = Some (case handle_packet C X E now_ts t peer pkt B of Ok B' \<Rightarrow> B' | _ \<Rightarrow> B)"
proof (cases "packet_header pkt")
  case (Ok h)
  show ?thesis
  proof (cases "contains_flag (h_flags h) SYN")
    case True
    from accept_schedule [OF rest Ok True refl] show ?thesis
      unfolding handle_packet_def Ok rs_bind.simps Let_def if_P [OF True] .
  next
    case False
    from forward_schedule [OF rest Ok False refl] show ?thesis
      unfolding handle_packet_def Ok rs_bind.simps Let_def if_not_P [OF False] .
  qed
qed (auto simp: handle_packet_def intro!: no_schedule)

lemma send_schedule:
  assumes "at_rest B"
  shows "\<exists>evs. bridge_exec C X evs B = Some (downstream_round C B)"
proof (cases "br_queue B")
  case Nil
  then show ?thesis by (auto simp: downstream_round_def intro!: no_schedule)
next
  case (Cons pkt queue)
  have sending: "br_sending B = None" and locked: "br_locked B = {}"
    using assms by (simp_all add: at_rest_def)
  show ?thesis
  proof (cases "hm_get (br_sessions B) (dp_session_key pkt)")
    case None
    then have "bridge_exec C X [SenderTakes] B = Some (downstream_round C B)"
      using Cons sending by (simp add: sender_takes_step_def downstream_round_def rest_updates)
    then show ?thesis by blast
  next
    case (Some sid)
    let ?B1 = "B\<lparr>br_queue := queue\<rparr>"
    have "(send_locked C pkt sid (?B1\<lparr>br_sending := x\<rparr>))\<lparr>br_sending := None\<rparr> = send_locked C pkt sid ?B1" for x
      using sending by (auto simp: send_locked_def Let_def rest_updates split: rs.splits)
    then have "bridge_exec C X [SenderTakes, SenderSends] B = Some (downstream_round C B)"
      using Cons Some sending locked by (simp add: sender_takes_step_def sender_sends_step_def downstream_round_def)
    then show ?thesis by blast
  qed
qed

lemma reap_schedule:
  assumes "at_rest B" and cut: "(reap_cutoff lo X t :: (instant, unit) rs) = Ok cutoff"
  shows "\<exists>evs. bridge_exec C X evs B = Some (reap_sessions cutoff B)"
proof (cases "reap_scan cutoff B = []")
  case True
  then have "reap_sessions cutoff B = B"
    by (cases B) (simp add: reap_sessions_def reap_remove_def hm_remove_all_def)
  then show ?thesis by (simp add: no_schedule)
next
  case False
  then have "bridge_exec C X [ReaperWakes lo t, ReaperRemoves] B = Some (reap_sessions cutoff B)"
    using assms by (simp add: at_rest_def reaper_wakes_step_def reaper_removes_step_def reap_sessions_def
        reap_remove_def rest_updates Let_def)
  then show ?thesis by blast
qed

lemma op_schedule:
  assumes "relay_op_step C X op B = Some B'" and rest: "at_rest B"
  shows "\<exists>evs. bridge_exec C X evs B = Some B'"
proof (cases op)
  case (HandlePacket peer pkt now_ts E t)
  then have "B' = (case handle_packet C X E now_ts t peer pkt B of Ok B' \<Rightarrow> B' | _ \<Rightarrow> B)"
    using assms(1) by (auto split: rs.splits)
  then show ?thesis using packet_schedule [OF rest] by metis
next
  case (ReadDest i r)
  then have "bridge_exec C X [DestRead i r] B = Some B'" using assms(1) by simp
  then show ?thesis by blast
next
  case SendNext
  then have "B' = downstream_round C B" using assms(1) by simp
  then show ?thesis using send_schedule [OF rest] by blast
next
  case (Reap lo t)
  then obtain cutoff where "(reap_cutoff lo X t :: (instant, unit) rs) = Ok cutoff" and "B' = reap_sessions cutoff B"
    using assms(1) by (auto simp: idle_reaper_round_def split: rs.splits)
  then show ?thesis using reap_schedule [OF rest] by blast
qed

interpretation handlers: refinement "\<lambda>op B B'. relay_op_step C X op B = Some B'" "task_step C X" "\<lambda>B. B" at_rest
  using op_keeps_rest op_schedule exec_task_steps by unfold_locales blast+

section \<open>No deadlock\<close>

text \<open>The steps the tasks in flight still need at most: a waiting packet is locked in and written, a
  write finishes, an opening socket answers, the sender sends, the reaper removes.\<close>

definition steps_left :: "bridge \<Rightarrow> nat" where
  "steps_left B = 2 * length (br_forwarding B) + length (br_writing B) + length (br_accepting B)
     + (if br_sending B = None then 0 else 1) + (case br_reaper B of Removing _ \<Rightarrow> 1 | _ \<Rightarrow> 0)"

text \<open>Steps of tasks already in flight, as opposed to new input.\<close>

fun finishing :: "bridge_event \<Rightarrow> bool" where
  "finishing (DestOpened _ _ _) = True"
| "finishing (ForwardLock _ _) = True"
| "finishing (WriteDone _ _) = True"
| "finishing SenderSends = True"
| "finishing ReaperRemoves = True"
| "finishing _ = False"

lemma length_remove_first: "xs \<noteq> [] \<Longrightarrow> length (remove_at 0 xs) = length xs - 1"
  by (cases xs) (simp_all add: remove_at_def)

lemma forward_locked_fields:
  "forward_locked C t sid pkt B = Ok (B', w, p) \<Longrightarrow>
     br_forwarding B' = br_forwarding B \<and> br_writing B' = br_writing B \<and> br_accepting B' = br_accepting B
     \<and> br_sending B' = br_sending B \<and> br_reaper B' = br_reaper B"
  by (auto simp: forward_locked_Ok)

lemma waiting_packet_can_move:
  assumes "br_forwarding B \<noteq> []" and "br_locked B = {}"
  shows "\<exists>ev B'. finishing ev \<and> bridge_step C X ev B = Some B' \<and> steps_left B' < steps_left B"
proof -
  obtain sid pkt where first: "br_forwarding B ! 0 = (sid, pkt)" by (cases "br_forwarding B ! 0")
  have shorter: "length (br_forwarding B) = Suc (length (remove_at 0 (br_forwarding B)))"
    using assms(1) by (simp add: length_remove_first)
  let ?B1 = "B\<lparr>br_forwarding := remove_at 0 (br_forwarding B)\<rparr>"
  let ?B' = "case forward_locked C 0 sid pkt ?B1 of
      Ok (B', writer, payload) \<Rightarrow> B'\<lparr>br_locked := insert sid (br_locked B'), br_writing := br_writing B' @ [(sid, writer, payload)]\<rparr>
    | _ \<Rightarrow> ?B1"
  have "bridge_step C X (ForwardLock 0 0) B = Some ?B'"
    using assms first by (simp add: forward_lock_step_def Let_def)
  moreover have "steps_left ?B' < steps_left B"
  proof (cases "forward_locked C 0 sid pkt ?B1")
    case (Ok x)
    then show ?thesis
      using forward_locked_fields [of C 0 sid pkt ?B1] shorter by (cases x) (simp add: steps_left_def)
  qed (use shorter in \<open>simp_all add: steps_left_def\<close>)
  ultimately show ?thesis by (meson finishing.simps(2))
qed

lemma opening_socket_can_move:
  assumes "br_accepting B \<noteq> []"
  shows "\<exists>ev B'. finishing ev \<and> bridge_step C X ev B = Some B' \<and> steps_left B' < steps_left B"
proof -
  obtain key k connect where first: "br_accepting B ! 0 = (key, k, connect)" by (cases "br_accepting B ! 0")
  have shorter: "length (br_accepting B) = Suc (length (remove_at 0 (br_accepting B)))"
    using assms by (simp add: length_remove_first)
  let ?B1 = "B\<lparr>br_accepting := remove_at 0 (br_accepting B)\<rparr>"
  let ?B' = "case open_dest sample_env connect of Ok (writer, reader) \<Rightarrow> accept_commit key k writer reader 0 ?B1 | _ \<Rightarrow> ?B1"
  have "bridge_step C X (DestOpened 0 sample_env 0) B = Some ?B'"
    using assms first by (simp add: dest_opened_step_def Let_def)
  moreover have "steps_left ?B' < steps_left B"
    using shorter by (simp add: steps_left_def split: rs.split prod.split)
  ultimately show ?thesis by (meson finishing.simps(1))
qed

lemma some_task_can_move:
  assumes ok: "tasks_ok B" and left: "0 < steps_left B"
  shows "\<exists>ev B'. finishing ev \<and> bridge_step C X ev B = Some B' \<and> steps_left B' < steps_left B"
proof -
  have unlocked: "br_locked B = {}" if "br_writing B = []"
    using ok that by (simp add: tasks_ok_def)
  consider (writes) "br_writing B \<noteq> []"
    | (forward) "br_writing B = []" "br_forwarding B \<noteq> []"
    | (accept) "br_accepting B \<noteq> []"
    | (send) pkt sid where "br_writing B = []" "br_sending B = Some (pkt, sid)"
    | (reap) ks where "br_reaper B = Removing ks"
    using left by (fastforce simp: steps_left_def split: if_splits reaper_task.splits)
  then show ?thesis
  proof cases
    case writes
    obtain sid w p where first: "br_writing B ! 0 = (sid, w, p)" by (cases "br_writing B ! 0") auto
    show ?thesis
      by (rule exI [of _ "WriteDone 0 (length p)"])
        (use writes first in \<open>simp add: write_done_step_def steps_left_def length_remove_first\<close>)
  next
    case forward
    then show ?thesis using unlocked by (intro waiting_packet_can_move) auto
  next
    case accept
    then show ?thesis by (rule opening_socket_can_move)
  next
    case send
    have "br_forwarding (send_locked C pkt sid B) = br_forwarding B \<and> br_reaper (send_locked C pkt sid B) = br_reaper B"
      by (auto simp: send_locked_def Let_def split: rs.split)
    then show ?thesis
      by (intro exI [of _ SenderSends]) (use send unlocked in \<open>simp add: sender_sends_step_def steps_left_def\<close>)
  next
    case reap
    then show ?thesis
      by (intro exI [of _ ReaperRemoves]) (simp add: reaper_removes_step_def steps_left_def reap_remove_def)
  qed
qed

lemma tasks_finish:
  assumes "tasks_ok B"
  shows "\<exists>evs B'. bridge_exec C X evs B = Some B' \<and> list_all finishing evs \<and> length evs \<le> steps_left B \<and> steps_left B' = 0
    \<and> tasks_ok B'"
  using assms
proof (induction "steps_left B" arbitrary: B rule: less_induct)
  case less
  show ?case
  proof (cases "steps_left B = 0")
    case True
    then show ?thesis using less.prems by (intro exI [of _ "[]"] exI [of _ B]) simp
  next
    case False
    then obtain ev B1 where ev: "finishing ev" "bridge_step C X ev B = Some B1" "steps_left B1 < steps_left B"
      using some_task_can_move [OF less.prems, of C X] by auto
    from less.hyps [OF ev(3) step_tasks_ok [OF ev(2) less.prems]]
    obtain evs B' where "bridge_exec C X evs B1 = Some B'" "list_all finishing evs" "length evs \<le> steps_left B1"
      "steps_left B' = 0" "tasks_ok B'"
      by blast
    then show ?thesis
      using ev by (intro exI [of _ "ev # evs"] exI [of _ B']) simp
  qed
qed

section \<open>Properties\<close>





text \<open>C16: The relay never deadlocks: whatever has happened, the tasks in flight can all run to their ends
  without any new input, in at most two steps per waiting packet and one per other task.  Then no
  packet waits, no write is unfinished, every mutex is free, and no task is between its steps.\<close>

theorem relay_never_deadlocks:
  assumes "bridge_run C X evs B"
  shows "\<exists>evs' B'. bridge_run C X (evs @ evs') B' \<and> list_all finishing evs'
    \<and> length evs' \<le> 2 * length (br_forwarding B) + length (br_writing B) + length (br_accepting B) + 2
    \<and> br_accepting B' = [] \<and> br_forwarding B' = [] \<and> br_writing B' = [] \<and> br_locked B' = {}
    \<and> br_sending B' = None \<and> (\<forall>ks. br_reaper B' \<noteq> Removing ks)"
proof -
  have "tasks_ok B" using run_invariant [OF assms] by simp
  from tasks_finish [OF this, of C X] obtain evs' B' where
    evs': "bridge_exec C X evs' B = Some B'" "list_all finishing evs'" "length evs' \<le> steps_left B"
    and left: "steps_left B' = 0" and ok: "tasks_ok B'"
    by blast
  have "steps_left B \<le> 2 * length (br_forwarding B) + length (br_writing B) + length (br_accepting B) + 2"
    by (simp add: steps_left_def split: reaper_task.split)
  moreover have "br_accepting B' = [] \<and> br_forwarding B' = [] \<and> br_writing B' = [] \<and> br_locked B' = {}
    \<and> br_sending B' = None \<and> (\<forall>ks. br_reaper B' \<noteq> Removing ks)"
    using left ok by (auto simp: steps_left_def tasks_ok_def split: if_splits)
  ultimately show ?thesis
    using evs' bridge_exec_run [OF evs'(1) assms] by (meson order_trans)
qed

theorem relay_never_deadlocks_witness:
  "\<exists>B evs' B'. bridge_run toy sample_ctx racing_history B
    \<and> bridge_run toy sample_ctx (racing_history @ evs') B' \<and> list_all finishing evs' \<and> br_accepting B' = []"
proof -
  have "case bridge_exec toy sample_ctx racing_history bridge_init of None \<Rightarrow> False | Some B \<Rightarrow> True"
    by code_simp
  from exec_case [OF this] obtain B where run: "bridge_run toy sample_ctx racing_history B" by blast
  from relay_never_deadlocks [OF run] run show ?thesis by blast
qed

end
