(* ===== verification/Lp_Forwarder.thy ===== *)
theory Lp_Forwarder
  imports Lp_Handshake Lp_License Lp_Capture
begin

text \<open>
  The client's static forwarder (\<open>crates/gr-client/src/forwarder.rs\<close>): rules and the capture rules
  they give rise to, the SYN handshake that opens a tunnel, the pumps of a TCP connection, and the
  UDP listener with its sessions, responder tasks and idle reaper.  Sockets are named by numbers;
  what the operating system answers and the random bytes drawn are arguments.
\<close>

section \<open>Rules\<close>

record rule =
  ru_listen :: sock_addr
  ru_bridge :: sock_addr
  ru_bridge_x25519_pubkey_hex :: string
  ru_license_token :: string
  ru_dest_ip :: ip_addr
  ru_dest_port :: u16
  ru_protocol :: string
  ru_udp_idle_secs :: u64
  ru_capture :: bool
  ru_capture_dst_port_lo :: "u16 option"
  ru_capture_dst_port_hi :: "u16 option"
  ru_capture_dst_ip :: "ip_addr option"

definition default_proto :: string where "default_proto = ''tcp''"
definition default_udp_idle :: u64 where "default_udp_idle = 90"

datatype client_error =
  CHex string
| CHandshake handshake_error
| CLicense license_error
| CProto protocol_error
| CIo string
| CCapture capture_error
| CUnknownProtocol string
| CNoRules
| CNoBridges
| CNoSmartRouting

text \<open>The handling of \<open>--listen\<close> at the start of \<open>run\<close>.\<close>

definition override_listen :: "sock_addr option \<Rightarrow> rule list \<Rightarrow> (rule list, client_error) rs" where
  "override_listen listen_override rules =
     (case listen_override of
        None \<Rightarrow> Ok rules
      | Some addr \<Rightarrow>
          (case rules of [] \<Rightarrow> Err CNoRules | r # rest \<Rightarrow> Ok (r\<lparr>ru_listen := addr\<rparr> # rest)))"

definition unwrap_or :: "'a option \<Rightarrow> 'a \<Rightarrow> 'a" where
  "unwrap_or x d = (case x of Some y \<Rightarrow> y | None \<Rightarrow> d)"

fun capture_rules :: "rule list \<Rightarrow> redirect_rule list" where
  "capture_rules [] = []"
| "capture_rules (r # rest) =
     (if \<not> ru_capture r then capture_rules rest
      else
        case (if ru_protocol r = ''tcp'' then Some ProtoTcp
              else if ru_protocol r = ''udp'' then Some ProtoUdp else None) of
          None \<Rightarrow> capture_rules rest
        | Some proto \<Rightarrow>
            let lo = unwrap_or (ru_capture_dst_port_lo r) (ru_dest_port r) in
            \<lparr>rr_protocol = proto,
             rr_dst_ip = unwrap_or (ru_capture_dst_ip r) (ru_dest_ip r),
             rr_dst_port_lo = lo,
             rr_dst_port_hi = unwrap_or (ru_capture_dst_port_hi r) lo,
             rr_redirect_to_ip = sa_ip (ru_listen r),
             rr_redirect_to_port = sa_port (ru_listen r)\<rparr> # capture_rules rest)"

definition install_capture ::
  "(unit, string) rs \<Rightarrow> rule list \<Rightarrow> ((capture_config \<times> unit resolver \<times> unit capture) option, client_error) rs" where
  "install_capture spawn rules =
     (let cr = capture_rules rules in
      if cr = [] then Ok None
      else
        let (cfg, res) = capture_new cr in
        case capture_start cfg spawn (capture_init ()) of
          (Ok _, S) \<Rightarrow> Ok (Some (cfg, res, S))
        | (Err e, S) \<Rightarrow> Err (CCapture e)
        | (Panic, S) \<Rightarrow> Panic)"

text \<open>\<open>run_rule\<close>: which loop a rule runs, if any.\<close>

definition run_rule :: "rule \<Rightarrow> (transport_protocol, client_error) rs" where
  "run_rule r =
     (if ru_protocol r = ''tcp'' then Ok Tcp
      else if ru_protocol r = ''udp'' then Ok Udp
      else Err (CUnknownProtocol (ru_protocol r)))"

section \<open>Opening a tunnel\<close>

text \<open>The system's part: the 32 random bytes of the ephemeral key, the random connection id, and the
  outcomes of binding, connecting and sending on the UDP socket.\<close>

record tunnel_env =
  te_random :: bytes
  te_connection_id :: u32
  te_bind :: "ip_addr \<Rightarrow> (nat, string) rs"
  te_connect :: "nat \<Rightarrow> sock_addr \<Rightarrow> (unit, string) rs"
  te_send :: "nat \<Rightarrow> bytes \<Rightarrow> (unit, string) rs"

record tunnel =
  tn_udp_to_bridge :: nat
  tn_aead_key :: bytes
  tn_connection_id :: u32

text \<open>Returns the tunnel and the SYN it has sent.\<close>

definition open_tunnel ::
  "crypto \<Rightarrow> tunnel_env \<Rightarrow> rule \<Rightarrow> transport_protocol \<Rightarrow> (tunnel \<times> bytes, client_error) rs" where
  "open_tunnel C E r transport =
     (let (client_sk, client_pk) = generate_keypair C (te_random E) in
      rs_bind (rs_map_err CHex (hex_decode C (ru_bridge_x25519_pubkey_hex r))) (\<lambda>bridge_pk_bytes.
      rs_bind (rs_map_err CHandshake (pubkey_from_bytes bridge_pk_bytes)) (\<lambda>bridge_pk.
      rs_bind (client_derive_session_key C client_sk bridge_pk) (\<lambda>aead_key.
      rs_bind (rs_map_err CLicense (token_from_string_b64 C (ru_license_token r))) (\<lambda>token.
      let connection_id = te_connection_id E in
      rs_bind (rs_map_err CIo (te_bind E (if is_ipv4 (sa_ip (ru_bridge r)) then V4 0 else V6 0))) (\<lambda>udp.
      rs_bind (rs_map_err CIo (te_connect E udp (ru_bridge r))) (\<lambda>_.
      let connect = \<lparr>cr_protocol = transport, cr_dest_ip = ru_dest_ip r, cr_dest_port = ru_dest_port r\<rparr>;
          inner = token_to_bytes token @ connect_encode connect;
          h = \<lparr>h_version = PROTO_VERSION, h_flags = SYN, h_connection_id = connection_id, h_sequence = 0\<rparr>
      in
      rs_bind (rs_map_err CProto (encrypt_syn_frame C aead_key h client_pk inner)) (\<lambda>syn_wire.
      rs_bind (rs_map_err CIo (te_send E udp syn_wire)) (\<lambda>_.
      Ok (\<lparr>tn_udp_to_bridge = udp, tn_aead_key = aead_key, tn_connection_id = connection_id\<rparr>, syn_wire))))))))))"

section \<open>TCP connections\<close>

text \<open>
  The upstream loop of \<open>handle_tcp_local\<close>: each read of at most 1200 bytes becomes one frame.  The
  loop ends at end of file or a read error, and fails if a frame cannot be made or sent; a timeout
  goes round again.  The frames sent so far are returned with how it ended.
\<close>

datatype tcp_read = ReadBytes bytes | ReadEof | ReadError | ReadTimeout

definition data_header :: "u32 \<Rightarrow> u64 \<Rightarrow> header" where
  "data_header connection_id sq =
     \<lparr>h_version = PROTO_VERSION, h_flags = flags_empty, h_connection_id = connection_id, h_sequence = sq\<rparr>"

fun tcp_upstream ::
  "crypto \<Rightarrow> tunnel \<Rightarrow> (bytes \<Rightarrow> (unit, string) rs) \<Rightarrow> u64 \<Rightarrow> tcp_read list \<Rightarrow> bytes list
     \<Rightarrow> bytes list \<times> (unit, client_error) rs" where
  "tcp_upstream C tn send tx_sequence [] sent = (sent, Ok ())"
| "tcp_upstream C tn send tx_sequence (r # reads) sent =
     (case r of
        ReadEof \<Rightarrow> (sent, Ok ())
      | ReadError \<Rightarrow> (sent, Ok ())
      | ReadTimeout \<Rightarrow> tcp_upstream C tn send tx_sequence reads sent
      | ReadBytes bs \<Rightarrow>
          let buf = take MAX_PAYLOAD_LEN bs in
          if buf = [] then (sent, Ok ())
          else
            let tx_sequence = tx_sequence + 1 in
            case rs_bind (rs_map_err CProto (encrypt_frame C (tn_aead_key tn) (data_header (tn_connection_id tn) tx_sequence) buf))
                   (\<lambda>wire. rs_bind (rs_map_err CIo (send wire)) (\<lambda>_. Ok wire)) of
              Ok wire \<Rightarrow> tcp_upstream C tn send tx_sequence reads (sent @ [wire])
            | Err e \<Rightarrow> (sent, Err e)
            | Panic \<Rightarrow> (sent, Panic))"

text \<open>The receive task: whatever decrypts is written to the local socket, as it arrives.\<close>

definition tcp_downstream_datagram :: "crypto \<Rightarrow> tunnel \<Rightarrow> bytes \<Rightarrow> bytes \<Rightarrow> bytes" where
  "tcp_downstream_datagram C tn wire written =
     (case decrypt_frame C (tn_aead_key tn) wire of Ok (_, payload) \<Rightarrow> written @ payload | _ \<Rightarrow> written)"

definition tcp_downstream :: "crypto \<Rightarrow> tunnel \<Rightarrow> bytes list \<Rightarrow> bytes" where
  "tcp_downstream C tn wires = fold (tcp_downstream_datagram C tn) wires []"

text \<open>
  \<open>handle_tcp_local\<close> from the accepted connection to the end of its upstream loop: the tunnel, the
  datagrams sent (the SYN first), and how it ended.  What the receiving task of the tunnel has written
  to the local connection by then is \<open>tcp_downstream\<close> of the datagrams that reached it.
\<close>

definition handle_tcp_local ::
  "crypto \<Rightarrow> tunnel_env \<Rightarrow> rule \<Rightarrow> (bytes \<Rightarrow> (unit, string) rs) \<Rightarrow> tcp_read list
     \<Rightarrow> (tunnel \<times> bytes list \<times> (unit, client_error) rs, client_error) rs" where
  "handle_tcp_local C E r send reads =
     rs_bind (open_tunnel C E r Tcp) (\<lambda>(tn, syn).
     case tcp_upstream C tn send 0 reads [] of
       (frames, result) \<Rightarrow> Ok (tn, syn # frames, result))"

section \<open>UDP sessions\<close>

record udp_session =
  us_udp_to_bridge :: nat
  us_aead_key :: bytes
  us_connection_id :: u32
  us_tx_sequence :: u64
  us_last_active :: instant

definition udp_session_new :: "tunnel \<Rightarrow> instant \<Rightarrow> udp_session" where
  "udp_session_new tn t =
     \<lparr>us_udp_to_bridge = tn_udp_to_bridge tn, us_aead_key = tn_aead_key tn,
      us_connection_id = tn_connection_id tn, us_tx_sequence = 0, us_last_active = t\<rparr>"

definition touch :: "instant \<Rightarrow> udp_session \<Rightarrow> udp_session" where
  "touch t s = s\<lparr>us_last_active := t\<rparr>"

text \<open>
  The listener's state.  The map holds shared references to the sessions (\<open>Arc<UdpSession>\<close>), which
  live in \<open>uf_heap\<close>; each responder task holds one too, with the local address it answers.
  \<open>uf_sent\<close> logs what was sent to bridges (the session, its socket, the datagram), \<open>uf_local\<close> what was sent back to local sockets.
\<close>

record 'k udp_state =
  uf_sessions :: "('k, nat) hmap"
  uf_heap :: "udp_session list"
  uf_responders :: "(nat \<times> sock_addr) list"
  uf_sent :: "(nat \<times> nat \<times> bytes) list"
  uf_local :: "(sock_addr \<times> bytes) list"

definition udp_init :: "'k udp_state" where
  "udp_init = \<lparr>uf_sessions = hm_empty, uf_heap = [], uf_responders = [], uf_sent = [], uf_local = []\<rparr>"

definition udp_insert :: "'k \<Rightarrow> udp_session \<Rightarrow> 'k udp_state \<Rightarrow> 'k udp_state" where
  "udp_insert k s U =
     U\<lparr>uf_sessions := hm_insert k (length (uf_heap U)) (uf_sessions U), uf_heap := uf_heap U @ [s]\<rparr>"

text \<open>The end of the listener loop: stamp the session, take the next sequence number, encrypt, send.
  A payload the frame cannot carry is dropped, its number spent.\<close>

definition udp_forward :: "crypto \<Rightarrow> instant \<Rightarrow> nat \<Rightarrow> bytes \<Rightarrow> 'k udp_state \<Rightarrow> 'k udp_state" where
  "udp_forward C t sid payload U =
     (let s = touch t (uf_heap U ! sid);
          sq = us_tx_sequence s + 1;
          s = s\<lparr>us_tx_sequence := sq\<rparr>;
          U = U\<lparr>uf_heap := (uf_heap U)[sid := s]\<rparr>
      in case encrypt_frame C (us_aead_key s) (data_header (us_connection_id s) sq) payload of
           Ok wire \<Rightarrow> U\<lparr>uf_sent := uf_sent U @ [(sid, us_udp_to_bridge s, wire)]\<rparr>
         | _ \<Rightarrow> U)"

text \<open>One datagram from the local socket \<open>src\<close>, in \<open>run_udp_rule\<close>.\<close>

definition udp_rule_datagram ::
  "crypto \<Rightarrow> tunnel_env \<Rightarrow> rule \<Rightarrow> instant \<Rightarrow> sock_addr \<Rightarrow> bytes \<Rightarrow> sock_addr udp_state \<Rightarrow> sock_addr udp_state" where
  "udp_rule_datagram C E r t src payload U =
     (case hm_get (uf_sessions U) src of
        Some sid \<Rightarrow> udp_forward C t sid payload U
      | None \<Rightarrow>
          (case open_tunnel C E r Udp of
             Ok (tn, syn) \<Rightarrow>
               let sid = length (uf_heap U);
                   U = udp_insert src (udp_session_new tn t) U;
                   U = U\<lparr>uf_sent := uf_sent U @ [(sid, tn_udp_to_bridge tn, syn)],
                         uf_responders := uf_responders U @ [(sid, src)]\<rparr>
               in udp_forward C t sid payload U
           | _ \<Rightarrow> U))"

text \<open>One datagram from the bridge at a responder task; the task ends if the local socket fails.\<close>

definition udp_responder_datagram ::
  "crypto \<Rightarrow> instant \<Rightarrow> bool \<Rightarrow> nat \<Rightarrow> bytes \<Rightarrow> 'k udp_state \<Rightarrow> 'k udp_state" where
  "udp_responder_datagram C t sends i wire U =
     (let (sid, src) = uf_responders U ! i; s = uf_heap U ! sid in
      case decrypt_frame C (us_aead_key s) wire of
        Ok (_, payload) \<Rightarrow>
          if sends
          then U\<lparr>uf_local := uf_local U @ [(src, payload)], uf_heap := (uf_heap U)[sid := touch t s]\<rparr>
          else U\<lparr>uf_responders := take i (uf_responders U) @ drop (Suc i) (uf_responders U)\<rparr>
      | _ \<Rightarrow> U)"

text \<open>The idle reaper: collect, then remove.\<close>

definition udp_reap_scan :: "instant \<Rightarrow> 'k udp_state \<Rightarrow> 'k list" where
  "udp_reap_scan cutoff U = hm_select (\<lambda>_ sid. us_last_active (uf_heap U ! sid) < cutoff) (uf_sessions U)"

definition udp_reap_at :: "instant \<Rightarrow> 'k udp_state \<Rightarrow> 'k udp_state" where
  "udp_reap_at cutoff U = U\<lparr>uf_sessions := hm_remove_all (udp_reap_scan cutoff U) (uf_sessions U)\<rparr>"

definition udp_reap ::
  "instant \<Rightarrow> rule \<Rightarrow> instant \<Rightarrow> sock_addr udp_state \<Rightarrow> (sock_addr udp_state, unit) rs" where
  "udp_reap lo r t U =
     rs_bind (instant_sub lo t (secs (ru_udp_idle_secs r))) (\<lambda>cutoff. Ok (udp_reap_at cutoff U))"

section \<open>Sessions as an idle table\<close>

definition udp_session_of :: "'k udp_state \<Rightarrow> 'k \<Rightarrow> udp_session option" where
  "udp_session_of U k = map_option (\<lambda>sid. uf_heap U ! sid) (hm_get (uf_sessions U) k)"

definition udp_ok :: "'k udp_state \<Rightarrow> bool" where
  "udp_ok U \<longleftrightarrow> hm_wf (uf_sessions U)
     \<and> (\<forall>k sid. hm_get (uf_sessions U) k = Some sid \<longrightarrow> sid < length (uf_heap U))
     \<and> (\<forall>x \<in> set (uf_responders U). fst x < length (uf_heap U))
     \<and> (\<forall>x \<in> set (uf_sent U). fst x < length (uf_heap U))"

lemma udp_reap_get:
  "hm_wf (uf_sessions U) \<Longrightarrow> hm_get (uf_sessions (udp_reap_at c U)) k =
    (case hm_get (uf_sessions U) k of None \<Rightarrow> None
     | Some sid \<Rightarrow> if us_last_active (uf_heap U ! sid) < c then None else Some sid)"
  by (simp add: udp_reap_at_def udp_reap_scan_def hm_get_remove_select)

lemma udp_reap_fields [simp]:
  "uf_heap (udp_reap_at c U) = uf_heap U" "uf_sent (udp_reap_at c U) = uf_sent U"
  "uf_responders (udp_reap_at c U) = uf_responders U" "uf_local (udp_reap_at c U) = uf_local U"
  by (simp_all add: udp_reap_at_def)

lemma udp_ok_insert: "udp_ok U \<Longrightarrow> udp_ok (udp_insert k s U)"
  by (auto simp: udp_ok_def udp_insert_def less_SucI)

lemma udp_ok_reap: "udp_ok U \<Longrightarrow> udp_ok (udp_reap_at c U)"
  by (auto simp: udp_ok_def udp_reap_get, auto simp: udp_reap_at_def split: option.splits if_splits)

interpretation udp_table: idle_table udp_session_of udp_insert udp_reap_at us_last_active "\<lambda>_ _. False" udp_ok
proof
  fix U :: "'k udp_state" and k :: 'k and s :: udp_session and c :: instant
  assume ok: "udp_ok U"
  show "udp_session_of (udp_insert k s U) = (udp_session_of U)(k \<mapsto> s)"
    using ok by (auto simp: udp_session_of_def udp_insert_def fun_eq_iff nth_append udp_ok_def
        intro!: option.map_cong split: if_splits)
  show "udp_session_of (udp_reap_at c U) k = (case udp_session_of U k of None \<Rightarrow> None
       | Some v \<Rightarrow> if us_last_active v < c \<and> \<not> False then None else Some v)"
    using ok by (auto simp: udp_session_of_def udp_reap_get udp_ok_def split: option.splits)
qed (auto intro: udp_ok_insert udp_ok_reap)

section \<open>Runs of the UDP listener\<close>

datatype udp_event =
  LocalDatagram tunnel_env instant sock_addr bytes
| BridgeDatagram instant bool nat bytes \<comment> \<open>at the i-th responder\<close>
| ReapAt instant

fun udp_step :: "crypto \<Rightarrow> rule \<Rightarrow> udp_event \<Rightarrow> sock_addr udp_state \<Rightarrow> sock_addr udp_state" where
  "udp_step C r (LocalDatagram E t src payload) U = udp_rule_datagram C E r t src payload U"
| "udp_step C r (BridgeDatagram t sends i wire) U =
     (if i < length (uf_responders U) then udp_responder_datagram C t sends i wire U else U)"
| "udp_step C r (ReapAt cutoff) U = udp_reap_at cutoff U"

definition udp_run :: "crypto \<Rightarrow> rule \<Rightarrow> udp_event list \<Rightarrow> sock_addr udp_state" where
  "udp_run C r evs = fold (udp_step C r) evs udp_init"

text \<open>The datagrams sent for one session, and how they are numbered.\<close>

definition udp_frames :: "nat \<Rightarrow> 'k udp_state \<Rightarrow> bytes list" where
  "udp_frames sid U = map (\<lambda>(_, _, w). w) (filter (\<lambda>(i, _, _). i = sid) (uf_sent U))"

definition udp_numbered :: "nat \<Rightarrow> 'k udp_state \<Rightarrow> bool" where
  "udp_numbered n U \<longleftrightarrow> udp_ok U \<and>
     (\<forall>sid < length (uf_heap U).
        unat (us_tx_sequence (uf_heap U ! sid)) \<le> n
      \<and> sorted_wrt (<) (map frame_sequence (udp_frames sid U))
      \<and> (\<forall>w \<in> set (udp_frames sid U). frame_sequence w \<le> us_tx_sequence (uf_heap U ! sid)))"

lemma udp_numbered_forward:
  assumes "udp_numbered n U" and "sid < length (uf_heap U)" and "Suc n < 2 ^ 64"
  shows "udp_numbered (Suc n) (udp_forward C t sid payload U)"
proof -
  let ?s = "uf_heap U ! sid"
  let ?s' = "(touch t ?s)\<lparr>us_tx_sequence := us_tx_sequence ?s + 1\<rparr>"
  have tx: "unat (us_tx_sequence ?s) \<le> n"
    using assms(1,2) by (auto simp: udp_numbered_def)
  have succ: "unat (us_tx_sequence ?s + 1) = Suc (unat (us_tx_sequence ?s))"
    using tx assms(3) by (simp add: unat_word_ariths)
  then have less: "us_tx_sequence ?s < us_tx_sequence ?s + 1"
    by (simp add: word_less_nat_alt)
  show ?thesis
  proof (cases "encrypt_frame C (us_aead_key ?s) (data_header (us_connection_id ?s) (us_tx_sequence ?s + 1)) payload")
    case (Ok w)
    have "header_ok (data_header (us_connection_id ?s) (us_tx_sequence ?s + 1))"
      by (simp add: header_ok_def data_header_def flags_empty_def)
    from frame_sequence_encrypt [OF this Ok] have seq: "frame_sequence w = us_tx_sequence ?s + 1"
      by (simp add: data_header_def)
    have U': "udp_forward C t sid payload U = U\<lparr>uf_heap := (uf_heap U)[sid := ?s'],
        uf_sent := uf_sent U @ [(sid, us_udp_to_bridge ?s, w)]\<rparr>"
      using Ok by (simp add: udp_forward_def Let_def touch_def)
    have frames: "udp_frames i (udp_forward C t sid payload U) = udp_frames i U @ (if i = sid then [w] else [])" for i
      by (simp add: U' udp_frames_def)
    have old: "frame_sequence v < us_tx_sequence ?s + 1" if "v \<in> set (udp_frames sid U)" for v
      using assms(1,2) that less by (fastforce simp: udp_numbered_def)
    show ?thesis
      unfolding udp_numbered_def frames
      using assms(1,2) seq succ tx old
      by (auto simp: U' udp_numbered_def udp_ok_def nth_list_update sorted_wrt_append touch_def
          intro: le_SucI less_imp_le)
  next
    case (Err e)
    then show ?thesis
      using assms(1,2) succ tx less order_trans [OF _ less_imp_le [OF less]]
      by (auto simp: udp_forward_def Let_def touch_def udp_numbered_def udp_ok_def udp_frames_def nth_list_update
          intro: le_SucI)
  next
    case Panic
    then show ?thesis
      using assms(1,2) succ tx less order_trans [OF _ less_imp_le [OF less]]
      by (auto simp: udp_forward_def Let_def touch_def udp_numbered_def udp_ok_def udp_frames_def nth_list_update
          intro: le_SucI)
  qed
qed

lemma open_tunnel_Ok:
  "open_tunnel C E r transport = Ok (tn, syn) \<longleftrightarrow>
     (\<exists>pk token. hex_decode C (ru_bridge_x25519_pubkey_hex r) = Ok pk \<and> length pk = 32
        \<and> client_derive_session_key C (te_random E) pk = (Ok (tn_aead_key tn) :: (bytes, client_error) rs)
        \<and> token_from_string_b64 C (ru_license_token r) = Ok token
        \<and> te_bind E (if is_ipv4 (sa_ip (ru_bridge r)) then V4 0 else V6 0) = Ok (tn_udp_to_bridge tn)
        \<and> te_connect E (tn_udp_to_bridge tn) (ru_bridge r) = Ok ()
        \<and> tn_connection_id tn = te_connection_id E
        \<and> encrypt_syn_frame C (tn_aead_key tn)
            \<lparr>h_version = PROTO_VERSION, h_flags = SYN, h_connection_id = te_connection_id E, h_sequence = 0\<rparr>
            (x25519_public C (te_random E))
            (token_to_bytes token
             @ connect_encode \<lparr>cr_protocol = transport, cr_dest_ip = ru_dest_ip r, cr_dest_port = ru_dest_port r\<rparr>) = Ok syn
        \<and> te_send E (tn_udp_to_bridge tn) syn = Ok ())"
  by (cases tn) (auto simp: open_tunnel_def generate_keypair_def pubkey_from_bytes_def Let_def split: if_splits)

lemma open_tunnel_sequence: "open_tunnel C E r transport = Ok (tn, syn) \<Longrightarrow> frame_sequence syn = 0"
  by (auto simp: open_tunnel_Ok header_ok_def SYN_def dest!: frame_sequence_encrypt_syn [rotated])

lemma udp_numbered_mono: "udp_numbered n U \<Longrightarrow> udp_numbered (Suc n) U"
  by (auto simp: udp_numbered_def intro: le_SucI)

lemma udp_numbered_open:
  assumes "udp_numbered n U" and "frame_sequence syn = 0"
  shows "udp_numbered n ((udp_insert k (udp_session_new tn t) U)\<lparr>
      uf_sent := uf_sent U @ [(length (uf_heap U), sock, syn)],
      uf_responders := uf_responders U @ [(length (uf_heap U), src)]\<rparr>)"
proof -
  have "\<not> (length (uf_heap U), x) \<in> set (uf_sent U)" for x
    using assms(1) by (force simp: udp_numbered_def udp_ok_def)
  then have "udp_frames (length (uf_heap U)) U = []"
    by (auto simp: udp_frames_def filter_empty_conv)
  moreover have "udp_frames i ((udp_insert k (udp_session_new tn t) U)\<lparr>
      uf_sent := uf_sent U @ [(length (uf_heap U), sock, syn)],
      uf_responders := uf_responders U @ [(length (uf_heap U), src)]\<rparr>)
    = udp_frames i U @ (if i = length (uf_heap U) then [syn] else [])" for i
    by (auto simp: udp_frames_def)
  ultimately show ?thesis
    using assms udp_ok_insert [of U k "udp_session_new tn t"]
    by (auto simp: udp_numbered_def udp_ok_def udp_insert_def udp_session_new_def nth_append less_Suc_eq)
qed

lemma udp_numbered_responder:
  assumes "udp_numbered n U" and "i < length (uf_responders U)"
  shows "udp_numbered n (udp_responder_datagram C t sends i wire U)"
  using assms(1) nth_mem [OF assms(2)]
  by (auto simp: udp_responder_datagram_def Let_def udp_numbered_def udp_ok_def udp_frames_def touch_def
      nth_list_update dest: in_set_takeD in_set_dropD split: rs.splits prod.splits)

lemma udp_numbered_step:
  assumes "udp_numbered n U" and "Suc n < 2 ^ 64"
  shows "udp_numbered (Suc n) (udp_step C r ev U)"
proof (cases ev)
  case (LocalDatagram E t src payload)
  show ?thesis
  proof (cases "hm_get (uf_sessions U) src")
    case (Some sid)
    then have "sid < length (uf_heap U)"
      using assms(1) by (auto simp: udp_numbered_def udp_ok_def)
    then show ?thesis
      using LocalDatagram Some udp_numbered_forward [OF assms(1) _ assms(2)] by (simp add: udp_rule_datagram_def)
  next
    case None
    show ?thesis
    proof (cases "open_tunnel C E r Udp")
      case (Ok x)
      obtain tn syn where x: "x = (tn, syn)" by fastforce
      have "frame_sequence syn = 0"
        using open_tunnel_sequence Ok x by blast
      from udp_numbered_open [OF assms(1) this] show ?thesis
        using LocalDatagram None Ok x
        by (auto simp: udp_rule_datagram_def Let_def udp_insert_def intro!: udp_numbered_forward assms(2))
    qed (use LocalDatagram None udp_numbered_mono [OF assms(1)] in \<open>simp_all add: udp_rule_datagram_def\<close>)
  qed
next
  case (BridgeDatagram t sends i wire)
  then show ?thesis
    using udp_numbered_mono [OF udp_numbered_responder [OF assms(1)]] udp_numbered_mono [OF assms(1)] by auto
next
  case (ReapAt c)
  then show ?thesis
    using udp_numbered_mono [OF assms(1)] udp_ok_reap [of U c] by (auto simp: udp_numbered_def udp_frames_def)
qed

lemma udp_run_numbered: "length evs < 2 ^ 64 \<Longrightarrow> udp_numbered (length evs) (udp_run C r evs)"
proof (induction evs rule: rev_induct)
  case Nil
  show ?case by (simp add: udp_run_def udp_numbered_def udp_ok_def udp_init_def)
next
  case (snoc ev evs)
  then have "udp_numbered (Suc (length evs)) (udp_step C r ev (udp_run C r evs))"
    by (intro udp_numbered_step) auto
  then show ?case by (simp add: udp_run_def)
qed

section \<open>TCP pumps\<close>

text \<open>The bytes a connection hands to its upstream loop: everything read before the end.\<close>

fun tcp_stream :: "tcp_read list \<Rightarrow> bytes" where
  "tcp_stream [] = []"
| "tcp_stream (r # reads) =
     (case r of
        ReadBytes bs \<Rightarrow> if take MAX_PAYLOAD_LEN bs = [] then [] else take MAX_PAYLOAD_LEN bs @ tcp_stream reads
      | ReadTimeout \<Rightarrow> tcp_stream reads
      | _ \<Rightarrow> [])"

lemma tcp_downstream_snoc:
  "tcp_downstream C tn (ws @ [w]) = tcp_downstream_datagram C tn w (tcp_downstream C tn ws)"
  by (simp add: tcp_downstream_def)

lemma data_header_ok: "header_ok (data_header cid sq)"
  by (simp add: header_ok_def data_header_def flags_empty_def)

text \<open>A frame of a tunnel that carries the payload.\<close>

definition carries :: "crypto \<Rightarrow> tunnel \<Rightarrow> bytes \<Rightarrow> bytes \<Rightarrow> bool" where
  "carries C tn w p \<longleftrightarrow> (\<exists>sq. encrypt_frame C (tn_aead_key tn) (data_header (tn_connection_id tn) sq) p = Ok w)"

lemma tcp_upstream_frames:
  assumes "aead_ok C" and "length (tn_aead_key tn) = 32" and "\<And>w. send w = Ok ()"
  shows "\<exists>frames chunks. tcp_upstream C tn send sq reads sent = (sent @ frames, Ok ())
    \<and> list_all2 (carries C tn) frames chunks \<and> concat chunks = tcp_stream reads"
  using assms
proof (induction C tn send sq reads sent rule: tcp_upstream.induct)
  case (2 C tn send sq r reads sent)
  show ?case
  proof (cases r)
    case (ReadBytes bs)
    let ?buf = "take MAX_PAYLOAD_LEN bs"
    show ?thesis
    proof (cases "?buf = []")
      case True
      then show ?thesis using ReadBytes by simp
    next
      case ne: False
      obtain w where w: "encrypt_frame C (tn_aead_key tn) (data_header (tn_connection_id tn) (sq + 1)) ?buf = Ok w"
        using encrypt_frame_total [OF "2.prems"(1,2), of ?buf] by (metis length_take min.cobounded2)
      let ?step = "rs_bind (rs_map_err CProto (encrypt_frame C (tn_aead_key tn) (data_header (tn_connection_id tn) (sq + 1)) ?buf))
         (\<lambda>wire. rs_bind (rs_map_err CIo (send wire)) (\<lambda>_. Ok wire))"
      have ok: "?step = Ok w"
        using w "2.prems"(3) by simp
      obtain frames chunks where "tcp_upstream C tn send (sq + 1) reads (sent @ [w]) = ((sent @ [w]) @ frames, Ok ())"
        "list_all2 (carries C tn) frames chunks" "concat chunks = tcp_stream reads"
        using "2.IH"(1) [OF ReadBytes refl ne refl ok "2.prems"] by blast
      moreover have "carries C tn w ?buf"
        using w by (auto simp: carries_def)
      ultimately show ?thesis
        using ReadBytes ne ok by (intro exI [of _ "w # frames"] exI [of _ "?buf # chunks"]) (simp add: Let_def)
    qed
  next
    case ReadTimeout
    then show ?thesis using "2.IH"(2) [OF _ "2.prems"] by simp
  qed simp_all
qed simp

lemma tcp_downstream_chunks:
  assumes "aead_ok C" and "list_all2 (carries C tn) frames chunks"
  shows "tcp_downstream C tn frames = concat chunks"
proof -
  have "fold (tcp_downstream_datagram C tn) frames written = written @ concat chunks" for written
    using assms(2)
  proof (induction arbitrary: written rule: list_all2_induct)
    case (Cons w ws p ps)
    then obtain sq where "encrypt_frame C (tn_aead_key tn) (data_header (tn_connection_id tn) sq) p = Ok w"
      by (auto simp: carries_def)
    then have "decrypt_frame C (tn_aead_key tn) w = Ok (data_header (tn_connection_id tn) sq, p)"
      by (rule decrypt_encrypt_frame [OF assms(1) data_header_ok])
    then show ?case
      using Cons.IH by (simp add: tcp_downstream_datagram_def)
  qed simp
  then show ?thesis by (simp add: tcp_downstream_def)
qed

section \<open>Properties\<close>

text \<open>C34: The client never reuses a nonce within a session: over any run of the UDP listener of fewer
  than \<open>2 ^ 64\<close> events, whatever is reaped or reopened in between, the datagrams sent for one
  session carry strictly increasing sequence numbers, its SYN included.\<close>

theorem client_sequence_increases:
  assumes "length evs < 2 ^ 64" and "sid < length (uf_heap (udp_run C r evs))"
  shows "sorted_wrt (<) (map frame_sequence (udp_frames sid (udp_run C r evs)))"
  using udp_run_numbered [OF assms(1), of C r] assms(2) by (simp add: udp_numbered_def)

definition sample_rule :: rule where
  "sample_rule = \<lparr>ru_listen = sock_addr_new localhost 9000, ru_bridge = sock_addr_new (V4 0x05060708) 51820,
     ru_bridge_x25519_pubkey_hex = hex_encode toy (replicate 32 9),
     ru_license_token = token_to_string_b64 toy (token_sign toy
        \<lparr>lp_user_id = 1, lp_issued_at = 100, lp_expires_at = 200, lp_scope = 1\<rparr> (replicate 32 5)),
     ru_dest_ip = V4 0x08080808, ru_dest_port = 53, ru_protocol = ''udp'', ru_udp_idle_secs = 90,
     ru_capture = True, ru_capture_dst_port_lo = Some 7000, ru_capture_dst_port_hi = Some 7999,
     ru_capture_dst_ip = None\<rparr>"

definition sample_tunnel_env :: "u32 \<Rightarrow> tunnel_env" where
  "sample_tunnel_env cid = \<lparr>te_random = replicate 32 3, te_connection_id = cid, te_bind = (\<lambda>_. Ok 4),
     te_connect = (\<lambda>_ _. Ok ()), te_send = (\<lambda>_ _. Ok ())\<rparr>"

definition sample_local :: sock_addr where
  "sample_local = sock_addr_new localhost 5000"

definition sample_udp_events :: "udp_event list" where
  "sample_udp_events =
     [LocalDatagram (sample_tunnel_env 5) 10 sample_local [1], LocalDatagram (sample_tunnel_env 6) 20 sample_local [2]]"

theorem client_sequence_increases_witness:
  "sorted_wrt (<) (map frame_sequence (udp_frames 0 (udp_run toy sample_rule sample_udp_events)))
   \<and> length (udp_frames 0 (udp_run toy sample_rule sample_udp_events)) = 3"
proof
  show "sorted_wrt (<) (map frame_sequence (udp_frames 0 (udp_run toy sample_rule sample_udp_events)))"
  proof (rule client_sequence_increases)
    show "length sample_udp_events < 2 ^ 64" by (simp add: sample_udp_events_def)
    show "0 < length (uf_heap (udp_run toy sample_rule sample_udp_events))" by code_simp
  qed
  show "length (udp_frames 0 (udp_run toy sample_rule sample_udp_events)) = 3" by code_simp
qed

text \<open>A TCP connection's bytes cross the tunnel in order and complete when every frame does: if
  sending works, the upstream loop ends without error, and decrypting its frames in the order sent
  gives back exactly the bytes read before the end of the connection, cut into frames of at most
  1200 bytes.\<close>

theorem tcp_stream_delivered:
  assumes "aead_ok C" and "length (tn_aead_key tn) = 32" and "\<And>w. send w = Ok ()"
  shows "\<exists>frames. tcp_upstream C tn send 0 reads [] = (frames, Ok ())
    \<and> tcp_downstream C tn frames = tcp_stream reads"
  using tcp_upstream_frames [OF assms, where sq = 0 and reads = reads and sent = "[]"]
    tcp_downstream_chunks [OF assms(1)] by fastforce

theorem tcp_stream_delivered_witness:
  "\<exists>frames. tcp_upstream toy \<lparr>tn_udp_to_bridge = 4, tn_aead_key = replicate 32 1, tn_connection_id = 7\<rparr>
      (\<lambda>_. Ok ()) 0 [ReadBytes [1, 2], ReadTimeout, ReadBytes [3], ReadEof, ReadBytes [4]] [] = (frames, Ok ())
    \<and> tcp_downstream toy \<lparr>tn_udp_to_bridge = 4, tn_aead_key = replicate 32 1, tn_connection_id = 7\<rparr> frames
      = tcp_stream [ReadBytes [1, 2], ReadTimeout, ReadBytes [3], ReadEof, ReadBytes [4]]"
  by (rule tcp_stream_delivered [OF toy_aead]) simp_all

text \<open>But nothing restores the order: the receiving side writes payloads as frames arrive.  For
  any authentic frames, in any order and with any losses or duplicates, the local TCP stream is the
  concatenation of their payloads in order of arrival; the sequence numbers are ignored.\<close>

theorem tcp_downstream_ignores_sequence:
  assumes "\<forall>(w, p) \<in> set arrivals. \<exists>h. decrypt_frame C (tn_aead_key tn) w = Ok (h, p)"
  shows "tcp_downstream C tn (map fst arrivals) = concat (map snd arrivals)"
  using assms
proof (induction arrivals rule: rev_induct)
  case Nil
  show ?case by (simp add: tcp_downstream_def)
next
  case (snoc x arrivals)
  then show ?case
    by (cases x) (auto simp: tcp_downstream_snoc tcp_downstream_datagram_def)
qed

theorem tcp_downstream_ignores_sequence_witness:
  "let k = replicate 32 (1 :: u8); tn = \<lparr>tn_udp_to_bridge = 4, tn_aead_key = k, tn_connection_id = 7\<rparr>;
       frame = (\<lambda>sq p. header_encode (data_header 7 sq) @ p
          @ toy_tag k (derive_nonce 7 sq) (header_encode (data_header 7 sq)) p)
   in tcp_downstream toy tn [frame 2 [20], frame 1 [10], frame 1 [10]] = [20, 10, 10]"
proof -
  let ?k = "replicate 32 1 :: bytes"
  let ?tn = "\<lparr>tn_udp_to_bridge = 4, tn_aead_key = ?k, tn_connection_id = 7\<rparr>"
  let ?frame = "\<lambda>sq (p :: bytes). header_encode (data_header 7 sq) @ p
          @ toy_tag ?k (derive_nonce 7 sq) (header_encode (data_header 7 sq)) p"
  have dec: "decrypt_frame toy ?k (?frame sq p) = Ok (data_header 7 sq, p)" for sq p
    using data_header_ok [of 7 sq] by (subst decrypt_frame_Ok_iff [OF toy_aead]) (simp add: toy_def data_header_def)
  let ?arrivals = "[(?frame 2 [20], [20 :: u8]), (?frame 1 [10], [10]), (?frame 1 [10], [10])]"
  have "\<forall>(w, p) \<in> set ?arrivals. \<exists>h. decrypt_frame toy (tn_aead_key ?tn) w = Ok (h, p)"
    using dec [of 2 "[20]"] dec [of 1 "[10]"] by auto
  from tcp_downstream_ignores_sequence [OF this] show ?thesis by (simp add: Let_def)
qed

text \<open>Capture rules are what the configuration says: they are built from the rules that ask for
  capture and have a known protocol, in their order; each redirects the rule's destination (or its
  override), over its port range (a single port by default), to the rule's listen address.\<close>

theorem capture_rules_spec:
  "capture_rules rules =
     map (\<lambda>r. let lo = unwrap_or (ru_capture_dst_port_lo r) (ru_dest_port r) in
            \<lparr>rr_protocol = (if ru_protocol r = ''tcp'' then ProtoTcp else ProtoUdp),
             rr_dst_ip = unwrap_or (ru_capture_dst_ip r) (ru_dest_ip r),
             rr_dst_port_lo = lo, rr_dst_port_hi = unwrap_or (ru_capture_dst_port_hi r) lo,
             rr_redirect_to_ip = sa_ip (ru_listen r), rr_redirect_to_port = sa_port (ru_listen r)\<rparr>)
       (filter (\<lambda>r. ru_capture r \<and> (ru_protocol r = ''tcp'' \<or> ru_protocol r = ''udp'')) rules)"
  by (induction rules) (auto simp: Let_def)

end
