(* ===== verification/Lp_Tunnel.thy ===== *)
theory Lp_Tunnel
  imports Lp_Forwarder Lp_Bridge
begin

text \<open>
  The two ends of a tunnel together: the client of \<open>Lp_Forwarder\<close> (\<open>forwarder.rs\<close>) against the relay
  of \<open>Lp_Bridge\<close> (\<open>server.rs\<close>).  The results show what the network may rely on when it delivers
  datagrams, and what sharing one key between both directions gives away.
\<close>

section \<open>Opening\<close>

lemma derive_aead_key_iff: "derive_aead_key C s = Ok k \<longleftrightarrow> hkdf_expand C s HKDF_INFO 32 = Some k"
  by (simp add: derive_aead_key_def)

lemma same_session_key:
  assumes "dh_ok C" and "length sb = 32" and "length sc = 32"
  shows "client_derive_session_key C sc (x25519_public C sb) = Ok k
    \<longleftrightarrow> bridge_derive_session_key C sb (x25519_public C sc) = Ok k"
  using dh_agree [OF assms]
  by (simp add: client_derive_session_key_def bridge_derive_session_key_def derive_aead_key_iff)

text \<open>What makes a rule and a bridge belong together: the rule holds the bridge's public key and a
  token the bridge accepts now.\<close>

definition rule_for_bridge :: "crypto \<Rightarrow> bridge_ctx \<Rightarrow> i64 \<Rightarrow> rule \<Rightarrow> bool" where
  "rule_for_bridge C X now_ts r \<longleftrightarrow> length (bx_bridge_secret X) = 32
     \<and> hex_decode C (ru_bridge_x25519_pubkey_hex r) = Ok (x25519_public C (bx_bridge_secret X))
     \<and> (case token_from_string_b64 C (ru_license_token r) of Ok token \<Rightarrow> licensed C X now_ts token | _ \<Rightarrow> False)"

definition rule_connect :: "rule \<Rightarrow> transport_protocol \<Rightarrow> connect_request" where
  "rule_connect r transport =
     \<lparr>cr_protocol = transport, cr_dest_ip = ru_dest_ip r, cr_dest_port = ru_dest_port r\<rparr>"

text \<open>A rule that captures a range of ports redirects packets to each of them to its listener, but its tunnel
  leads to the rule's own port whichever of them a packet was for.\<close>

lemma captured_range_one_port:
  assumes "ru_capture r" and "ru_protocol r = ''udp''" and "ru_capture_dst_ip r = None"
    and "ru_capture_dst_port_lo r = Some lo" and "ru_capture_dst_port_hi r = Some hi" and "lo \<le> port" and "port \<le> hi"
  shows "fixed_resolve (capture_rules [r]) (sock_addr_new (ru_dest_ip r) port) ProtoUdp = RewriteTo (ru_listen r)"
    and "sock_addr_new (cr_dest_ip (rule_connect r Udp)) (cr_dest_port (rule_connect r Udp)) = sock_addr_new (ru_dest_ip r) port
      \<longleftrightarrow> port = ru_dest_port r"
  using assms by (auto simp: unwrap_or_def Let_def sock_addr_new_def rule_connect_def)

lemma token_from_string_sig: "token_from_string_b64 C s = Ok token \<Longrightarrow> length (lt_signature token) = SIG_LEN"
  by (auto simp: token_from_string_b64_def token_codec.dec_exact)

lemma open_tunnel_accepted:
  assumes "aead_ok C" and "dh_ok C" and "rule_for_bridge C X now_ts r" and "length (te_random E) = 32"
    and "n < bc_max_sessions (bx_config X)" and "open_tunnel C E r transport = Ok (tn, syn)"
  shows "accept_check C X n now_ts syn = Ok (tn_aead_key tn, rule_connect r transport)"
    and "header_decode syn = Ok \<lparr>h_version = PROTO_VERSION, h_flags = SYN,
           h_connection_id = tn_connection_id tn, h_sequence = 0\<rparr>"
proof -
  let ?h = "\<lparr>h_version = PROTO_VERSION, h_flags = SYN, h_connection_id = te_connection_id E, h_sequence = 0\<rparr>"
  have key: "client_derive_session_key C (te_random E) (x25519_public C (bx_bridge_secret X))
      = (Ok (tn_aead_key tn) :: (bytes, client_error) rs)"
    and cid: "tn_connection_id tn = te_connection_id E"
    using assms(3,6) by (auto simp: open_tunnel_Ok rule_for_bridge_def)
  obtain token where token: "token_from_string_b64 C (ru_license_token r) = Ok token"
    and syn: "encrypt_syn_frame C (tn_aead_key tn) ?h (x25519_public C (te_random E))
      (token_to_bytes token @ connect_encode (rule_connect r transport)) = Ok syn"
    using assms(6) by (auto simp: open_tunnel_Ok rule_connect_def)
  have lic: "licensed C X now_ts token"
    using assms(3) token by (simp add: rule_for_bridge_def)
  have bkey: "bridge_derive_session_key C (bx_bridge_secret X) (x25519_public C (te_random E))
      = (Ok (tn_aead_key tn) :: (bytes, bridge_error) rs)"
    by (rule same_session_key [THEN iffD1, OF assms(2) _ assms(4) key])
      (use assms(3) in \<open>simp add: rule_for_bridge_def\<close>)
  have "header_ok ?h" by (simp add: header_ok_def SYN_def)
  note dec = syn_decodes [OF assms(1) this length_x25519_public [OF assms(2,4)] syn]
  show "accept_check C X n now_ts syn = Ok (tn_aead_key tn, rule_connect r transport)"
    unfolding accept_check_Ok
    using assms(5) dec bkey lic token_from_string_sig [OF token] by (metis append_Nil2)
  show "header_decode syn = Ok \<lparr>h_version = PROTO_VERSION, h_flags = SYN,
           h_connection_id = tn_connection_id tn, h_sequence = 0\<rparr>"
    using dec cid by simp
qed

section \<open>Linked sessions\<close>

text \<open>A client session and a bridge session are linked when they agree on the key and the
  connection id; this is what a successful handshake leaves behind.\<close>

definition linked :: "udp_session \<Rightarrow> session_key \<Rightarrow> session \<Rightarrow> bool" where
  "linked s k b \<longleftrightarrow> us_aead_key s = sn_aead_key b \<and> us_connection_id s = sk_connection_id k
     \<and> length (us_aead_key s) = 32"

lemma packet_header_iff:
  "packet_header pkt = Ok h \<longleftrightarrow> header_decode pkt = Ok h \<and> h_version h = PROTO_VERSION"
  by (auto simp: packet_header_def split: if_splits)

lemma packet_header_data:
  assumes "aead_ok C" and "encrypt_frame C k (data_header cid sq) p = Ok w"
  shows "packet_header w = Ok (data_header cid sq)"
    and "decrypt_frame C k w = Ok (data_header cid sq, p)"
proof -
  have "header_decode w = Ok (data_header cid sq)"
    using assms(2) header_codec.dec_enc [OF data_header_ok] by (auto simp: encrypt_frame_Ok_iff)
  then show "packet_header w = Ok (data_header cid sq)"
    by (simp add: packet_header_iff data_header_def)
  show "decrypt_frame C k w = Ok (data_header cid sq, p)"
    by (rule decrypt_encrypt_frame [OF assms(1) data_header_ok assms(2)])
qed

lemma not_syn: "\<not> contains_flag (h_flags (data_header cid sq)) SYN"
  by (simp add: data_header_def contains_flag_def flags_empty_def SYN_def)

text \<open>Any data frame made with a session's key and connection id, by whichever side, is written to
  the session's destination when it arrives from the session's client address.\<close>

lemma bridge_writes_data_frame:
  assumes "aead_ok C" and "table_ok B" and "session_of B k = Some b"
    and "encrypt_frame C (sn_aead_key b) (data_header (sk_connection_id k) sq) p = Ok w"
  obtains B' where "handle_packet C X E now_ts t (sk_client_addr k) w B = Ok B'" and "table_ok B'"
    and "br_written B' = br_written B @ [(sn_dest_writer b, p)]"
    and "session_of B' = (session_of B)(k \<mapsto> b\<lparr>sn_last_active := t\<rparr>)"
proof -
  have k: "\<lparr>sk_client_addr = sk_client_addr k, sk_connection_id = h_connection_id (data_header (sk_connection_id k) sq)\<rparr> = k"
    by (simp add: data_header_def)
  show ?thesis
    by (rule data_frame_written [OF assms(2) packet_header_data(1) [OF assms(1,4)] not_syn,
          where peer = "sk_client_addr k", unfolded k, OF assms(3) packet_header_data(2) [OF assms(1,4)]])
      (rule that)
qed

section \<open>What the client emits\<close>

lemma udp_forward_sends:
  assumes "aead_ok C" and "length (us_aead_key (uf_heap U ! sid)) = 32" and "length payload \<le> MAX_PAYLOAD_LEN"
  obtains w where "encrypt_frame C (us_aead_key (uf_heap U ! sid))
        (data_header (us_connection_id (uf_heap U ! sid)) (us_tx_sequence (uf_heap U ! sid) + 1)) payload = Ok w"
    and "uf_sent (udp_forward C t sid payload U) = uf_sent U @ [(sid, us_udp_to_bridge (uf_heap U ! sid), w)]"
proof -
  obtain w where w: "encrypt_frame C (us_aead_key (uf_heap U ! sid))
      (data_header (us_connection_id (uf_heap U ! sid)) (us_tx_sequence (uf_heap U ! sid) + 1)) payload = Ok w"
    using encrypt_frame_total [OF assms] by metis
  then show ?thesis
    by (intro that [of w]) (simp_all add: udp_forward_def Let_def touch_def)
qed

lemma bridge_sends_head:
  assumes "aead_ok C" and "session_of B k = Some b" and "length (sn_aead_key b) = 32"
    and "br_queue B = \<lparr>dp_session_key = k, dp_payload = p\<rparr> # rest" and "length p \<le> MAX_PAYLOAD_LEN"
  obtains n w where "encrypt_frame C (sn_aead_key b) (data_header (sk_connection_id k) (sn_tx_sequence b + 1)) p = Ok w"
    and "br_sent (downstream_round C B) = br_sent B @ [(n, w, sk_client_addr k)]"
proof -
  obtain sid where sid: "hm_get (br_sessions B) k = Some sid" "br_heap B ! sid = b"
    using assms(2) by (auto simp: session_of_def)
  obtain w where w: "encrypt_frame C (sn_aead_key b) (data_header (sk_connection_id k) (sn_tx_sequence b + 1)) p = Ok w"
    using encrypt_frame_total [OF assms(1,3,5)] by metis
  show ?thesis
    by (rule that [of w sid]) (use w sid assms(4) in
      \<open>simp_all add: downstream_round_def send_locked_def Let_def data_header_def\<close>)
qed

text \<open>A session comes back from the sender's round with its number counted up and nothing else changed.\<close>

lemma downstream_round_session:
  assumes "table_ok B" and "session_of B k = Some b"
    and "br_queue B = \<lparr>dp_session_key = k, dp_payload = p\<rparr> # rest"
  shows "session_of (downstream_round C B) k = Some (b\<lparr>sn_tx_sequence := sn_tx_sequence b + 1\<rparr>)"
    and "br_written (downstream_round C B) = br_written B"
proof -
  obtain sid where sid: "hm_get (br_sessions B) k = Some sid" "br_heap B ! sid = b"
    using assms(2) by (auto simp: session_of_def)
  then show "session_of (downstream_round C B) k = Some (b\<lparr>sn_tx_sequence := sn_tx_sequence b + 1\<rparr>)"
    using session_of_update [of "B\<lparr>br_queue := rest\<rparr>" k sid] assms(1,3)
    by (auto simp: downstream_round_def send_locked_def Let_def split: rs.split)
  show "br_written (downstream_round C B) = br_written B"
    using sid assms(3) by (auto simp: downstream_round_def send_locked_def Let_def split: rs.split)
qed

section \<open>A connection's datagrams at the bridge\<close>

fun receive_all ::
  "crypto \<Rightarrow> bridge_ctx \<Rightarrow> dest_env \<Rightarrow> i64 \<Rightarrow> sock_addr \<Rightarrow> (instant \<times> bytes) list \<Rightarrow> bridge \<Rightarrow> (bridge, bridge_error) rs" where
  "receive_all C X D now_ts peer [] B = Ok B"
| "receive_all C X D now_ts peer ((t, w) # arrivals) B =
     rs_bind (handle_packet C X D now_ts t peer w B) (receive_all C X D now_ts peer arrivals)"

lemma receive_all_frames:
  assumes "aead_ok C" and "table_ok B" and "session_of B k = Some b"
    and "sn_aead_key b = tn_aead_key tn" and "sk_connection_id k = tn_connection_id tn"
    and "list_all2 (carries C tn) (map snd arrivals) chunks"
  shows "\<exists>B'. receive_all C X D now_ts (sk_client_addr k) arrivals B = Ok B'
    \<and> br_written B' = br_written B @ map (Pair (sn_dest_writer b)) chunks"
  using assms(2-6)
proof (induction arrivals arbitrary: B b chunks)
  case (Cons a arrivals)
  obtain t w where a: "a = (t, w)" by (cases a)
  obtain p ps where chunks: "chunks = p # ps" and w: "carries C tn w p"
    and rest: "list_all2 (carries C tn) (map snd arrivals) ps"
    using Cons.prems(5) by (auto simp: a list_all2_Cons1)
  obtain sq where "encrypt_frame C (sn_aead_key b) (data_header (sk_connection_id k) sq) p = Ok w"
    using w Cons.prems(3,4) by (auto simp: carries_def)
  from bridge_writes_data_frame [OF assms(1) Cons.prems(1,2) this]
  obtain B1 where B1: "handle_packet C X D now_ts t (sk_client_addr k) w B = Ok B1" "table_ok B1"
    "br_written B1 = br_written B @ [(sn_dest_writer b, p)]"
    "session_of B1 = (session_of B)(k \<mapsto> b\<lparr>sn_last_active := t\<rparr>)"
    by metis
  have "session_of B1 k = Some (b\<lparr>sn_last_active := t\<rparr>)" "sn_aead_key (b\<lparr>sn_last_active := t\<rparr>) = tn_aead_key tn"
    using B1(4) Cons.prems(3) by simp_all
  from Cons.IH [OF B1(2) this Cons.prems(4) rest] show ?case
    using B1(1,3) by (auto simp: a chunks)
qed simp

section \<open>A client session opened for a datagram\<close>

text \<open>What both kinds of listener do once a tunnel is open: register the session under the local key,
  note the SYN as sent, start the responder, and forward the datagram.\<close>

definition first_datagram ::
  "crypto \<Rightarrow> tunnel \<Rightarrow> bytes \<Rightarrow> instant \<Rightarrow> 'k \<Rightarrow> sock_addr \<Rightarrow> bytes \<Rightarrow> 'k udp_state \<Rightarrow> 'k udp_state" where
  "first_datagram C tn syn t key src payload U =
     udp_forward C t (length (uf_heap U)) payload
       ((udp_insert key (udp_session_new tn t) U)\<lparr>
          uf_sent := uf_sent U @ [(length (uf_heap U), tn_udp_to_bridge tn, syn)],
          uf_responders := uf_responders U @ [(length (uf_heap U), src)]\<rparr>)"

lemma first_datagram_fields:
  "uf_responders (first_datagram C tn syn t key src payload U) = uf_responders U @ [(length (uf_heap U), src)]"
  "uf_local (first_datagram C tn syn t key src payload U) = uf_local U"
  by (simp_all add: first_datagram_def udp_forward_def Let_def udp_insert_def split: rs.split)

lemma first_datagram_delivered:
  fixes peer src :: sock_addr and t :: instant and key :: 'k and U :: "'k udp_state"
  assumes "aead_ok C" and "dh_ok C" and "hkdf_ok C"
    and "rule_for_bridge C X now_ts r" and "length (te_random E) = 32"
    and "open_tunnel C E r Udp = Ok (tn, syn)" and "length payload \<le> MAX_PAYLOAD_LEN"
    and "table_ok B" and "hm_len (br_sessions B) < bc_max_sessions (bx_config X)"
    and "open_dest D (rule_connect r Udp) = Ok (writer, reader)"
  defines "k \<equiv> \<lparr>sk_client_addr = peer, sk_connection_id = tn_connection_id tn\<rparr>"
    and "U' \<equiv> first_datagram C tn syn t key src payload U"
  shows "\<exists>w B1 B2. uf_sent U' = uf_sent U @ [(length (uf_heap U), tn_udp_to_bridge tn, syn),
          (length (uf_heap U), tn_udp_to_bridge tn, w)]
    \<and> handle_packet C X D now_ts t1 peer syn B = Ok B1 \<and> handle_packet C X D now_ts t2 peer w B1 = Ok B2
    \<and> br_written B2 = br_written B @ [(writer, payload)]
    \<and> (\<exists>b. session_of B2 k = Some b \<and> linked (uf_heap U' ! length (uf_heap U)) k b)"
proof -
  let ?sid = "length (uf_heap U)"
  let ?U = "(udp_insert key (udp_session_new tn t) U)\<lparr>
      uf_sent := uf_sent U @ [(?sid, tn_udp_to_bridge tn, syn)],
      uf_responders := uf_responders U @ [(?sid, src)]\<rparr>"
  have U': "U' = udp_forward C t ?sid payload ?U"
    by (simp add: U'_def first_datagram_def)
  have s: "uf_heap ?U ! ?sid = udp_session_new tn t"
    by (simp add: udp_insert_def)
  have len: "length (tn_aead_key tn) = 32"
    using assms(6) derive_length(2) [OF assms(3)] by (auto simp: open_tunnel_Ok)
  note syn = open_tunnel_accepted [OF assms(1,2,4,5,9,6)]
  let ?b = "session_new t1 (tn_aead_key tn) writer"
  let ?B1 = "accept_commit k (tn_aead_key tn) writer reader t1 B"
  have B1: "handle_packet C X D now_ts t1 peer syn B = Ok ?B1"
    using syn assms(10)
    by (simp add: handle_packet_def packet_header_iff accept_new_session_Ok k_def contains_flag_def Let_def)
  have ok: "table_ok ?B1" and b: "session_of ?B1 k = Some ?b" and w: "br_written ?B1 = br_written B"
    using session_of_insert [OF assms(8)] table_ok_insert [OF assms(8)]
    by (simp_all add: accept_commit_def insert_session_def)
  obtain w where w1: "encrypt_frame C (tn_aead_key tn) (data_header (tn_connection_id tn) 1) payload = Ok w"
    and w2: "uf_sent U' = uf_sent ?U @ [(?sid, tn_udp_to_bridge tn, w)]"
    using udp_forward_sends [OF assms(1) _ assms(7), of ?U ?sid] len
    unfolding s U' by (auto simp: udp_session_new_def)
  have w3: "encrypt_frame C (sn_aead_key ?b) (data_header (sk_connection_id k) 1) payload = Ok w"
    using w1 by (simp add: k_def session_new_def)
  obtain B2 where "handle_packet C X D now_ts t2 (sk_client_addr k) w ?B1 = Ok B2"
    "br_written B2 = br_written ?B1 @ [(sn_dest_writer ?b, payload)]"
    "session_of B2 = (session_of ?B1)(k \<mapsto> ?b\<lparr>sn_last_active := t2\<rparr>)"
    by (rule bridge_writes_data_frame [OF assms(1) ok b w3, where X = X and E = D and now_ts = now_ts and t = t2])
  then have "handle_packet C X D now_ts t2 peer w ?B1 = Ok B2"
    "br_written B2 = br_written B @ [(writer, payload)]"
    "session_of B2 k = Some (?b\<lparr>sn_last_active := t2\<rparr>)"
    using w by (simp_all add: k_def session_new_def)
  moreover have "linked (uf_heap U' ! ?sid) k (?b\<lparr>sn_last_active := t2\<rparr>)"
    unfolding U' using len
    by (simp add: udp_forward_def Let_def s touch_def udp_insert_def linked_def udp_session_new_def session_new_def k_def
        split: rs.split)
  ultimately show ?thesis
    using B1 w2 by (intro exI [of _ w] exI [of _ ?B1] exI [of _ B2]) auto
qed

lemma answer_delivered:
  assumes "aead_ok C" and "session_of B k = Some b"
    and "br_queue B = \<lparr>dp_session_key = k, dp_payload = p\<rparr> # rest" and "length p \<le> MAX_PAYLOAD_LEN"
    and "uf_responders U ! i = (sid, src)" and "linked (uf_heap U ! sid) k b"
  shows "\<exists>n w. br_sent (downstream_round C B) = br_sent B @ [(n, w, sk_client_addr k)]
    \<and> uf_local (udp_responder_datagram C t True i w U) = uf_local U @ [(src, p)]"
proof -
  have key: "us_aead_key (uf_heap U ! sid) = sn_aead_key b" and len: "length (sn_aead_key b) = 32"
    using assms(6) by (auto simp: linked_def)
  obtain n w where "br_sent (downstream_round C B) = br_sent B @ [(n, w, sk_client_addr k)]"
    and w: "encrypt_frame C (sn_aead_key b) (data_header (sk_connection_id k) (sn_tx_sequence b + 1)) p = Ok w"
    using bridge_sends_head [OF assms(1,2) len assms(3,4)] by blast
  then show ?thesis
    using packet_header_data(2) [OF assms(1) w]
    by (intro exI [of _ n] exI [of _ w]) (simp add: udp_responder_datagram_def assms(5) key Let_def)
qed

text \<open>Both ways, in one exchange: the datagram that opened the session goes out, an answer comes back.\<close>

lemma first_exchange:
  fixes peer src :: sock_addr and t :: instant and key :: 'k and U :: "'k udp_state"
  assumes "aead_ok C" and "dh_ok C" and "hkdf_ok C"
    and "rule_for_bridge C X now_ts r" and "length (te_random E) = 32"
    and "open_tunnel C E r Udp = Ok (tn, syn)" and "length payload \<le> MAX_PAYLOAD_LEN"
    and "table_ok B" and "hm_len (br_sessions B) < bc_max_sessions (bx_config X)"
    and "open_dest D (rule_connect r Udp) = Ok (writer, reader)" and "length ans \<le> MAX_PAYLOAD_LEN"
  defines "k \<equiv> \<lparr>sk_client_addr = peer, sk_connection_id = tn_connection_id tn\<rparr>"
    and "U' \<equiv> first_datagram C tn syn t key src payload U"
  shows "\<exists>w B1 B2. uf_sent U' = uf_sent U @ [(length (uf_heap U), tn_udp_to_bridge tn, syn),
          (length (uf_heap U), tn_udp_to_bridge tn, w)]
    \<and> handle_packet C X D now_ts t1 peer syn B = Ok B1 \<and> handle_packet C X D now_ts t2 peer w B1 = Ok B2
    \<and> br_written B2 = br_written B @ [(writer, payload)]
    \<and> (\<exists>n f. br_sent (downstream_round C (B2\<lparr>br_queue := [\<lparr>dp_session_key = k, dp_payload = ans\<rparr>]\<rparr>)) = br_sent B2 @ [(n, f, peer)]
         \<and> uf_local (udp_responder_datagram C t3 True (length (uf_responders U)) f U') = uf_local U @ [(src, ans)])"
proof -
  let ?sid = "length (uf_heap U)"
  obtain w B1 B2 s where there: "uf_sent U' = uf_sent U @ [(?sid, tn_udp_to_bridge tn, syn), (?sid, tn_udp_to_bridge tn, w)]"
      "handle_packet C X D now_ts t1 peer syn B = Ok B1" "handle_packet C X D now_ts t2 peer w B1 = Ok B2"
      "br_written B2 = br_written B @ [(writer, payload)]"
    and s: "session_of B2 k = Some s" and linked: "linked (uf_heap U' ! ?sid) k s"
    using first_datagram_delivered [OF assms(1-10),
        where peer = peer and U = U and t = t and key = key and src = src and ?t1.0 = t1 and ?t2.0 = t2]
    unfolding U'_def k_def by blast
  let ?B3 = "B2\<lparr>br_queue := [\<lparr>dp_session_key = k, dp_payload = ans\<rparr>]\<rparr>"
  have "session_of ?B3 k = Some s" and "br_queue ?B3 = \<lparr>dp_session_key = k, dp_payload = ans\<rparr> # []"
    and "uf_responders U' ! length (uf_responders U) = (?sid, src)"
    using s by (simp_all add: U'_def first_datagram_fields)
  from answer_delivered [OF assms(1) this(1,2) assms(11) this(3) linked, where t = t3]
  have "\<exists>n f. br_sent (downstream_round C ?B3) = br_sent B2 @ [(n, f, peer)]
      \<and> uf_local (udp_responder_datagram C t3 True (length (uf_responders U)) f U') = uf_local U @ [(src, ans)]"
    by (simp add: U'_def first_datagram_fields k_def)
  then show ?thesis using there by blast
qed

lemma sample_open: "open_tunnel toy (sample_tunnel_env 5) sample_rule Udp
    = Ok (\<lparr>tn_udp_to_bridge = 4, tn_aead_key = sample_aead_key, tn_connection_id = 5\<rparr>, sample_syn 5)"
  by code_simp

lemma sample_rule_for_bridge: "rule_for_bridge toy sample_ctx 150 sample_rule"
  by code_simp

section \<open>Properties\<close>



text \<open>The rule that captures a packet: it names the packet's destination, and no rule before it does.\<close>

lemma fixed_resolve_append:
  "fixed_resolve (xs @ ys) dst proto = (case fixed_resolve xs dst proto of Passthrough \<Rightarrow> fixed_resolve ys dst proto | a \<Rightarrow> a)"
  by (induction xs) auto

lemma capture_rules_append: "capture_rules (xs @ ys) = capture_rules xs @ capture_rules ys"
  by (induction xs) (auto simp: Let_def)

lemma rule_captures:
  assumes "ru_capture r" and "ru_protocol r = ''udp''" and "ru_capture_dst_ip r = None"
    and "ru_capture_dst_port_lo r = None" and "ru_capture_dst_port_hi r = None"
    and "fixed_resolve (capture_rules before) (sock_addr_new (ru_dest_ip r) (ru_dest_port r)) ProtoUdp = Passthrough"
  shows "fixed_resolve (capture_rules (before @ r # later)) (sock_addr_new (ru_dest_ip r) (ru_dest_port r)) ProtoUdp
    = RewriteTo (sock_addr_new (sa_ip (ru_listen r)) (sa_port (ru_listen r)))"
  using assms by (simp add: capture_rules_append fixed_resolve_append unwrap_or_def sock_addr_new_def Let_def)





text \<open>C8: End to end, back: what the destination answers reaches the local program.  For linked
  sessions, one round of the bridge's sender turns the answer at the head of its queue into a frame
  for the client's address, and the client's responder task, given that frame, sends exactly the
  answer to the local address the session belongs to.\<close>

theorem answer_reaches_program:
  assumes "aead_ok C" and "session_of B k = Some b"
    and "br_queue B = \<lparr>dp_session_key = k, dp_payload = p\<rparr> # rest" and "length p \<le> MAX_PAYLOAD_LEN"
    and "uf_responders U ! i = (sid, src)" and "linked (uf_heap U ! sid) k b"
  shows "\<exists>n w. br_sent (downstream_round C B) = br_sent B @ [(n, w, sk_client_addr k)]
    \<and> uf_local (udp_responder_datagram C t True i w U) = uf_local U @ [(src, p)]"
  using assms by (rule answer_delivered)

definition sample_answering :: bridge where
  "sample_answering = sample_bridge\<lparr>br_queue := [\<lparr>dp_session_key = sample_session_key 5, dp_payload = [9]\<rparr>]\<rparr>"

definition sample_listener :: "sock_addr udp_state" where
  "sample_listener = udp_init\<lparr>uf_heap := [\<lparr>us_udp_to_bridge = 4, us_aead_key = sample_aead_key,
     us_connection_id = 5, us_tx_sequence = 0, us_last_active = 10\<rparr>], uf_responders := [(0, sample_local)],
     uf_sessions := [(sample_local, 0)]\<rparr>"

lemma sample_answering_ok: "table_ok sample_answering"
  unfolding sample_answering_def by (simp only: table_ok_other sample_bridge_ok)

lemma sample_answering_session:
  "session_of sample_answering (sample_session_key 5) = Some (session_new 1000 sample_aead_key (WUdp 7))"
  unfolding sample_answering_def by (simp only: session_of_other sample_session)

lemma sample_answering_queue:
  "br_queue sample_answering = \<lparr>dp_session_key = sample_session_key 5, dp_payload = [9]\<rparr> # []"
  by (simp add: sample_answering_def)

lemma sample_linked:
  "linked (uf_heap sample_listener ! 0) (sample_session_key 5) (session_new 1000 sample_aead_key (WUdp 7))"
  by (simp add: linked_def sample_listener_def sample_session_key_def session_new_def sample_aead_key_def)

lemma short_payload: "length [b] \<le> MAX_PAYLOAD_LEN"
  by (simp add: wire_defs)

definition sample_roomy :: bridge_ctx where
  "sample_roomy = sample_ctx\<lparr>bx_config := (bx_config sample_ctx)\<lparr>bc_max_sessions := 10\<rparr>\<rparr>"

definition sample_sent :: bridge where
  "sample_sent = insert_session (sample_session_key 5)
     ((session_new 1000 sample_aead_key (WUdp 7))\<lparr>sn_tx_sequence := 3\<rparr>) bridge_init"

theorem answer_reaches_program_witness:
  "\<exists>n w. br_sent (downstream_round toy sample_answering) = br_sent sample_answering @ [(n, w, sk_client_addr (sample_session_key 5))]
    \<and> uf_local (udp_responder_datagram toy 20 True 0 w sample_listener) = uf_local sample_listener @ [(sample_local, [9])]"
  by (rule answer_reaches_program [OF toy_aead sample_answering_session sample_answering_queue short_payload
        _ sample_linked]) (simp add: sample_listener_def)

text \<open>Nonces are shared between the directions.  Linked sessions that have sent equally many
  data frames (as both have after the handshake: none) encrypt the client's next payload and the
  bridge's next payload under the same key, the same nonce and the same header.\<close>

theorem directions_share_nonces:
  assumes "aead_ok C" and "session_of B k = Some b"
    and "br_queue B = \<lparr>dp_session_key = k, dp_payload = q\<rparr> # rest" and "length q \<le> MAX_PAYLOAD_LEN"
    and "length p \<le> MAX_PAYLOAD_LEN" and "linked (uf_heap U ! sid) k b"
    and "us_tx_sequence (uf_heap U ! sid) = sn_tx_sequence b"
  shows "\<exists>hdr nonce c c' n.
      uf_sent (udp_forward C t sid p U) = uf_sent U @ [(sid, us_udp_to_bridge (uf_heap U ! sid), hdr @ c)]
    \<and> br_sent (downstream_round C B) = br_sent B @ [(n, hdr @ c', sk_client_addr k)]
    \<and> aead_encrypt C (sn_aead_key b) nonce hdr p = Some c
    \<and> aead_encrypt C (sn_aead_key b) nonce hdr q = Some c'"
proof -
  let ?s = "uf_heap U ! sid" and ?h = "data_header (sk_connection_id k) (sn_tx_sequence b + 1)"
  have same: "us_aead_key ?s = sn_aead_key b" "us_connection_id ?s = sk_connection_id k" "length (sn_aead_key b) = 32"
    using assms(6) by (auto simp: linked_def)
  obtain w where w: "encrypt_frame C (sn_aead_key b) ?h p = Ok w"
    and sent: "uf_sent (udp_forward C t sid p U) = uf_sent U @ [(sid, us_udp_to_bridge ?s, w)]"
    using udp_forward_sends [OF assms(1) _ assms(5), of U sid] same assms(7) by metis
  obtain n w' where w': "encrypt_frame C (sn_aead_key b) ?h q = Ok w'"
    and sent': "br_sent (downstream_round C B) = br_sent B @ [(n, w', sk_client_addr k)]"
    using bridge_sends_head [OF assms(1,2) same(3) assms(3,4)] by blast
  show ?thesis
    using w w' sent sent' unfolding encrypt_frame_Ok_iff by blast
qed

theorem directions_share_nonces_witness:
  "\<exists>hdr nonce c c' n.
      uf_sent (udp_forward toy 20 0 [1] sample_listener) = uf_sent sample_listener @ [(0, 4, hdr @ c)]
    \<and> br_sent (downstream_round toy sample_answering) = br_sent sample_answering @ [(n, hdr @ c', sk_client_addr (sample_session_key 5))]
    \<and> aead_encrypt toy sample_aead_key nonce hdr [1] = Some c
    \<and> aead_encrypt toy sample_aead_key nonce hdr [9] = Some c'"
  using directions_share_nonces [OF toy_aead sample_answering_session sample_answering_queue short_payload
      short_payload sample_linked, of 20 1]
  by (simp add: session_new_def sample_listener_def)

text \<open>Frames can be reflected: because a frame does not say who made it, the bridge's own frame
  for a client, sent back to the bridge from that client's address, is accepted and its payload
  (what the destination sent) is written to the destination.\<close>

theorem reflected_frame_accepted:
  assumes "aead_ok C" and "table_ok B" and "session_of B k = Some b" and "length (sn_aead_key b) = 32"
    and "br_queue B = \<lparr>dp_session_key = k, dp_payload = p\<rparr> # rest" and "length p \<le> MAX_PAYLOAD_LEN"
  shows "\<exists>n w B'. br_sent (downstream_round C B) = br_sent B @ [(n, w, sk_client_addr k)]
    \<and> handle_packet C X E now_ts t (sk_client_addr k) w (downstream_round C B) = Ok B'
    \<and> br_written B' = br_written B @ [(sn_dest_writer b, p)]"
proof -
  let ?b = "b\<lparr>sn_tx_sequence := sn_tx_sequence b + 1\<rparr>" and ?B = "downstream_round C B"
  obtain n w where w: "encrypt_frame C (sn_aead_key b) (data_header (sk_connection_id k) (sn_tx_sequence b + 1)) p = Ok w"
    and sent: "br_sent ?B = br_sent B @ [(n, w, sk_client_addr k)]"
    by (rule bridge_sends_head [OF assms(1,3,4,5,6)])
  have w: "encrypt_frame C (sn_aead_key ?b) (data_header (sk_connection_id k) (sn_tx_sequence b + 1)) p = Ok w"
    using w by simp
  note after = downstream_round_session [OF assms(2,3,5), where C = C]
  obtain B' where "handle_packet C X E now_ts t (sk_client_addr k) w ?B = Ok B'"
    "br_written B' = br_written ?B @ [(sn_dest_writer ?b, p)]"
    by (rule bridge_writes_data_frame [OF assms(1) downstream_round_keeps(1) [OF assms(2)] after(1) w,
          where X = X and E = E and now_ts = now_ts and t = t])
  then show ?thesis using sent after(2) by auto
qed

theorem reflected_frame_accepted_witness:
  "\<exists>n w B'. br_sent (downstream_round toy sample_answering) = br_sent sample_answering @ [(n, w, sk_client_addr (sample_session_key 5))]
    \<and> handle_packet toy sample_ctx sample_env 150 2000 (sk_client_addr (sample_session_key 5)) w
        (downstream_round toy sample_answering) = Ok B'
    \<and> br_written B' = br_written sample_answering @ [(WUdp 7, [9])]"
  using reflected_frame_accepted [OF toy_aead sample_answering_ok sample_answering_session _ sample_answering_queue
      short_payload, where X = sample_ctx and E = sample_env and now_ts = 150 and t = 2000]
  by (simp add: session_new_def sample_aead_key_def)

text \<open>A repeated SYN rolls a session's numbering back: while its token is valid, the SYN that
  opened a session is accepted again from the same address, and replaces the session by one with
  the same key whose counter is zero, so the bridge's next frames repeat nonces it has used.\<close>

theorem repeated_syn_restarts_numbering:
  assumes "table_ok B" and "header_decode syn = Ok h" and "contains_flag (h_flags h) SYN"
    and "accept_check C X n then_ts syn = Ok (sn_aead_key b, connect)"
    and "session_of B \<lparr>sk_client_addr = peer, sk_connection_id = h_connection_id h\<rparr> = Some b"
    and "handle_packet C X E now_ts t peer syn B = Ok B'"
  shows "\<exists>b'. session_of B' \<lparr>sk_client_addr = peer, sk_connection_id = h_connection_id h\<rparr> = Some b'
    \<and> sn_aead_key b' = sn_aead_key b \<and> sn_tx_sequence b' = 0"
proof -
  let ?k = "\<lparr>sk_client_addr = peer, sk_connection_id = h_connection_id h\<rparr>"
  have "accept_new_session C X E now_ts t ?k syn B = Ok B'"
    using assms(2,3,6) by (auto simp: handle_packet_def packet_header_iff)
  then obtain aead_key c w r where c: "accept_check C X (hm_len (br_sessions B)) now_ts syn = Ok (aead_key, c)"
    and B': "B' = accept_commit ?k aead_key w r t B"
    by (auto simp: accept_new_session_Ok)
  have "aead_key = sn_aead_key b"
    using c assms(4) by (auto simp: accept_check_Ok)
  then show ?thesis
    using B' session_of_insert [OF assms(1)] by (simp add: accept_commit_def session_new_def)
qed

theorem repeated_syn_restarts_numbering_witness:
  "\<exists>B' b'. handle_packet toy sample_roomy sample_env 150 2000 sample_client (sample_syn 5) sample_sent = Ok B'
    \<and> session_of B' \<lparr>sk_client_addr = sample_client, sk_connection_id = 5\<rparr> = Some b'
    \<and> sn_aead_key b' = sample_aead_key \<and> sn_tx_sequence b' = 0"
proof -
  let ?h = "\<lparr>h_version = 1, h_flags = SYN, h_connection_id = 5, h_sequence = 0\<rparr>"
  let ?b = "(session_new 1000 sample_aead_key (WUdp 7))\<lparr>sn_tx_sequence := 3\<rparr>"
  have h: "header_decode (sample_syn 5) = Ok ?h" and f: "contains_flag (h_flags ?h) SYN"
    and a: "accept_check toy sample_roomy 0 150 (sample_syn 5) = Ok (sn_aead_key ?b, sample_connect)" by code_simp+
  have ok: "table_ok sample_sent"
    unfolding sample_sent_def by (rule table_ok_insert) (simp add: table_ok_def bridge_init_def)
  have s: "session_of sample_sent \<lparr>sk_client_addr = sample_client, sk_connection_id = h_connection_id ?h\<rparr> = Some ?b"
    by (simp add: sample_sent_def session_of_insert table_ok_def bridge_init_def sample_session_key_def)
  obtain B' where B': "handle_packet toy sample_roomy sample_env 150 2000 sample_client (sample_syn 5) sample_sent = Ok B'"
  proof -
    have "case handle_packet toy sample_roomy sample_env 150 2000 sample_client (sample_syn 5) sample_sent of
        Ok _ \<Rightarrow> True | _ \<Rightarrow> False" by code_simp
    then show ?thesis using that by (auto split: rs.splits)
  qed
  show ?thesis
    using repeated_syn_restarts_numbering [OF ok h f a s B'] B' by (auto simp: session_new_def)
qed

end
