(* ===== verification/Lp_Smart.thy ===== *)
theory Lp_Smart
  imports Lp_Router Lp_Tunnel
begin

text \<open>
  Smart routing (\<open>crates/gr-client/src/smart.rs\<close>) and the two ways the client starts it
  (\<open>run_smart_mode\<close> in \<open>forwarder.rs\<close>, \<open>run_with_tui\<close> in \<open>main.rs\<close>): the resolver that lets the
  router of \<open>Lp_Router\<close> decide for the capture of \<open>Lp_Capture\<close>, and the per-bridge UDP listeners that
  open a tunnel to wherever the captured program was going.
\<close>

section \<open>The resolver\<close>

record smart_routing_config =
  sc_bridges :: "bridge_entry list"
  sc_direct_rtt_ms :: "(string, f64) hmap"
  sc_margin_ms :: f64

definition default_margin :: f64 where "default_margin = Fin 2"

text \<open>
  \<open>SmartResolver\<close>: its constant part.  The router it shares is the resolver's state, with the
  number of times the clock has been read; \<open>clock n\<close> is the n-th reading.
\<close>

record smart_resolver =
  sr_direct_rtt_ms :: "(string, f64) hmap"
  sr_aws :: aws_lookup

definition smart_resolver_new :: "aws_lookup \<Rightarrow> (string, f64) hmap \<Rightarrow> smart_resolver" where
  "smart_resolver_new aws direct_rtt_ms = \<lparr>sr_direct_rtt_ms = direct_rtt_ms, sr_aws = aws\<rparr>"

definition direct_rtt_of :: "smart_resolver \<Rightarrow> ip_addr \<Rightarrow> (f64, unit) rs" where
  "direct_rtt_of sr ip =
     rs_bind (region_for (sr_aws sr) ip) (\<lambda>rgn.
     Ok (case rgn of
           None \<Rightarrow> PosInf
         | Some r \<Rightarrow> (case hm_get (sr_direct_rtt_ms sr) r of None \<Rightarrow> PosInf | Some ms \<Rightarrow> ms)))"

definition smart_resolve :: "(nat \<Rightarrow> instant) \<Rightarrow> smart_resolver \<Rightarrow> (router \<times> nat) resolver" where
  "smart_resolve clock sr dst proto st =
     (case st of (R, n) \<Rightarrow>
        rs_bind (direct_rtt_of sr (sa_ip dst)) (\<lambda>direct_rtt.
        rs_bind (pick (clock n) dst direct_rtt R) (\<lambda>(route, R').
        case route of
          Direct \<Rightarrow> Ok (Passthrough, (R', Suc n))
        | ViaBridge idx \<Rightarrow>
            rs_bind (index (rt_bridges R') idx) (\<lambda>b.
            Ok (RewriteTo (sock_addr_new localhost (be_listen_port b)), (R', Suc n))))))"

section \<open>Starting up\<close>

text \<open>The placeholder times \<open>start_smart\<close> seeds its router with.\<close>

definition seed_rtt :: "string \<Rightarrow> f64" where
  "seed_rtt name =
     (if name = ''dallas'' then Fin 22
      else if name = ''nj'' then Fin 35
      else if name = ''seattle'' \<or> name = ''sea'' then Fin 50
      else if name = ''frankfurt'' \<or> name = ''fra'' then Fin 110
      else Fin 40)"

definition seed_router :: "bridge_entry list \<Rightarrow> router \<Rightarrow> router" where
  "seed_router bridges R = fold (\<lambda>b. record_client_to_bridge (be_name b) (seed_rtt (be_name b))) bridges R"

definition listener_addr :: "bridge_entry \<Rightarrow> sock_addr" where
  "listener_addr b = sock_addr_new localhost (be_listen_port b)"

text \<open>\<open>start_smart\<close>: its own router, seeded, and the listeners it spawns.\<close>

definition start_smart :: "aws_lookup \<Rightarrow> smart_routing_config \<Rightarrow> router \<times> (bridge_entry \<times> sock_addr) list" where
  "start_smart aws cfg =
     (seed_router (sc_bridges cfg) (router_new aws (sc_bridges cfg)),
      map (\<lambda>b. (b, listener_addr b)) (sc_bridges cfg))"

text \<open>
  What runs once smart routing is up: the capture with its resolver, whose state is inside the
  capture's, the router the listeners' starter returned, and the listeners.
\<close>

record smart_mode =
  sm_config :: capture_config
  sm_resolver :: smart_resolver
  sm_capture :: "(router \<times> nat) capture"
  sm_router :: router
  sm_listeners :: "(bridge_entry \<times> sock_addr) list"

definition run_smart_mode ::
  "aws_lookup \<Rightarrow> (unit, string) rs \<Rightarrow> smart_routing_config \<Rightarrow> (smart_mode, client_error) rs" where
  "run_smart_mode aws spawn cfg =
     (if sc_bridges cfg = [] then Err CNoBridges
      else
        let bridges = sc_bridges cfg;
            router = router_new aws bridges;
            resolver = smart_resolver_new aws (sc_direct_rtt_ms cfg);
            redirect_targets = map listener_addr bridges;
            bridge_endpoints = map be_endpoint bridges;
            config = with_resolver redirect_targets bridge_endpoints
        in case capture_start config spawn (capture_init (router, 0)) of
             (Ok _, capture) \<Rightarrow>
               let (router', listeners) = start_smart aws cfg in
               Ok \<lparr>sm_config = config, sm_resolver = resolver, sm_capture = capture,
                   sm_router = router', sm_listeners = listeners\<rparr>
           | (Err e, _) \<Rightarrow> Err (CCapture e)
           | (Panic, _) \<Rightarrow> Panic)"

text \<open>\<open>run_with_tui\<close> sets the same up by hand, seeding the router the resolver uses.\<close>

definition run_with_tui ::
  "aws_lookup \<Rightarrow> (unit, string) rs \<Rightarrow> smart_routing_config option \<Rightarrow> (smart_mode, client_error) rs" where
  "run_with_tui aws spawn smart_routing =
     rs_bind (ok_or CNoSmartRouting smart_routing) (\<lambda>cfg.
     let bridges = sc_bridges cfg;
         router = router_new aws bridges;
         resolver = smart_resolver_new aws (sc_direct_rtt_ms cfg);
         config = with_resolver (map listener_addr bridges) (map be_endpoint bridges)
     in case capture_start config spawn (capture_init (router, 0)) of
          (Ok _, capture) \<Rightarrow>
            let router = seed_router bridges router in
            Ok \<lparr>sm_config = config, sm_resolver = resolver, sm_capture = capture\<lparr>ct_resolver := (router, 0)\<rparr>,
                sm_router = router, sm_listeners = map (\<lambda>b. (b, listener_addr b)) bridges\<rparr>
        | (Err e, _) \<Rightarrow> Err (CCapture e)
        | (Panic, _) \<Rightarrow> Panic)"

text \<open>What the driver has delivered over a run of the loop.\<close>

definition received_packets :: "(instant \<times> (bytes \<times> bool) option) list \<Rightarrow> bytes list" where
  "received_packets turns = concat (map (\<lambda>(_, r). case r of Some (d, _) \<Rightarrow> [d] | None \<Rightarrow> []) turns)"

section \<open>The resolver behind the capture's interface\<close>

lemma scan_back_no_Err: "scan_back ps v idx bs best \<noteq> (Err e :: ((u8 \<times> u32) option, unit) rs)"
  by (induction bs arbitrary: best) (auto simp: scan_prefix_def Let_def split: option.splits if_splits)

lemma region_for_no_Err: "region_for L ip \<noteq> (Err e :: (string option, unit) rs)"
  by (cases ip) (auto simp: region_for_def Let_def scan_back_no_Err simp del: upt_Suc split: option.splits)

text \<open>A router the resolver can be in: made from these bridges, its address table not empty.\<close>

definition smart_good :: "bridge_entry list \<Rightarrow> smart_resolver \<Rightarrow> router \<times> nat \<Rightarrow> bool" where
  "smart_good bridges sr st \<longleftrightarrow> (case st of (R, _) \<Rightarrow> router_ok R \<and> rt_bridges R = bridges \<and> rt_aws R = sr_aws sr
     \<and> (\<forall>ip. region_for (sr_aws sr) ip \<noteq> (Panic :: (string option, unit) rs)))"

lemma region_for_Ok:
  assumes "\<And>ip. region_for L ip \<noteq> (Panic :: (string option, unit) rs)"
  obtains rgn where "region_for L ip = (Ok rgn :: (string option, unit) rs)"
  using assms [of ip] region_for_no_Err [of L ip "()"] by (cases "region_for L ip :: (string option, unit) rs") auto

lemma pick_Ok:
  assumes "region_for (rt_aws R) (sa_ip dest) \<noteq> (Panic :: (string option, unit) rs)"
  obtains r R' where "pick t dest d R = Ok (r, R')"
proof -
  have "pick t dest d R \<noteq> Err e" for e
    by (auto simp: pick_def pick_fresh_eq region_for_no_Err split: option.splits prod.splits)
  with that pick_panics [OF assms, of t d] show thesis by (cases "pick t dest d R") auto
qed

lemma smart_resolve_good:
  assumes "smart_good bridges sr st"
  shows "\<exists>action st'. smart_resolve clock sr dst proto st = Ok (action, st') \<and> smart_good bridges sr st'
    \<and> (\<forall>tgt. action = RewriteTo tgt \<longrightarrow> tgt \<in> set (map listener_addr bridges))"
proof -
  obtain R n where st: "st = (R, n)" by fastforce
  have R: "router_ok R" "rt_bridges R = bridges" "rt_aws R = sr_aws sr"
    and aws: "\<And>ip. region_for (sr_aws sr) ip \<noteq> (Panic :: (string option, unit) rs)"
    using assms st by (auto simp: smart_good_def)
  obtain rgn where rgn: "region_for (sr_aws sr) (sa_ip dst) = (Ok rgn :: (string option, unit) rs)"
    by (rule region_for_Ok [OF aws])
  then obtain d where d: "direct_rtt_of sr (sa_ip dst) = Ok d"
    by (simp add: direct_rtt_of_def)
  obtain r R' where p: "pick (clock n) dst d R = Ok (r, R')"
    by (rule pick_Ok [of R dst]) (simp_all add: R aws)
  note keeps = pick_keeps [OF R(1) p]
  have good: "smart_good bridges sr (R', Suc n)"
    using keeps R aws by (simp add: smart_good_def)
  show ?thesis
  proof (cases r)
    case Direct
    then show ?thesis using st d p good by (simp add: smart_resolve_def)
  next
    case (ViaBridge i)
    then have "i < length bridges"
      using keeps(2) R(2) by (simp add: route_ok_def)
    then show ?thesis
      using ViaBridge st d p good keeps(3) R(2)
      by (simp add: smart_resolve_def rs_simps listener_addr_def)
  qed
qed

interpretation smart: route_resolver "smart_resolve clock sr" "map listener_addr bridges" "smart_good bridges sr"
  for clock sr bridges
proof
  fix r r' :: "router \<times> nat" and d proto action tgt
  assume good: "smart_good bridges sr r"
  note res = smart_resolve_good [OF good, of clock d proto]
  show "\<exists>action r'. smart_resolve clock sr d proto r = Ok (action, r')"
    using res by blast
  show "smart_resolve clock sr d proto r = Ok (action, r') \<Longrightarrow> smart_good bridges sr r'"
    using res by auto
  show "smart_resolve clock sr d proto r = Ok (RewriteTo tgt, r') \<Longrightarrow> tgt \<in> set (map listener_addr bridges)"
    using res by auto
qed

section \<open>A resolver that redirects nothing\<close>

text \<open>With no targets at all, the interface says that the capture is idle: it records no flow,
  rewrites nothing, and passes every packet on as it came.\<close>

context route_resolver begin

lemma idle_packet:
  assumes "targets = []" and "good r" and "\<forall>p. hm_get fl p = None"
  shows "\<exists>r'. process_packet resolve t d outbound r fl = Ok (None, r', fl) \<and> good r'"
proof (cases d rule: parse_ip_cases)
  case none
  then show ?thesis using assms(2) by (simp add: process_unparsed)
next
  case (some hl proto)
  obtain action r' where res: "resolve (sock_addr_new (V4 (ip_dst d)) (l4_dst hl d)) proto r = Ok (action, r')"
    using answers [OF assms(2)] by blast
  moreover have "action = Passthrough"
    using rewrites_to_target [OF assms(2)] res assms(1) by (cases action) auto
  ultimately show ?thesis
    using stays_good [OF assms(2) res] assms(2,3)
    by (cases outbound) (simp_all add: process_outbound [OF some(1,2,4)] process_inbound [OF some(1,2,4)])
qed

lemma idle_turn:
  assumes "targets = []" and "good (ct_resolver S)" and "\<forall>p. hm_get (ct_flows S) p = None"
    and "hm_wf (ct_flows S)" and "lo \<le> t - cc_flow_idle cfg"
  shows "\<exists>S'. capture_turn lo cfg resolve recalc sends t received S = Ok S'
    \<and> good (ct_resolver S') \<and> (\<forall>p. hm_get (ct_flows S') p = None) \<and> hm_wf (ct_flows S') \<and> ct_running S' = ct_running S
    \<and> ct_outbound_redirected S' = ct_outbound_redirected S \<and> ct_inbound_rewritten S' = ct_inbound_rewritten S
    \<and> ct_sent S' = ct_sent S @ (case received of Some (d, _) \<Rightarrow> if sends then [d] else [] | None \<Rightarrow> [])"
proof -
  have "hm_get (retain_flows c (ct_flows S)) p = None" for c p
    using flow_table.reap_only_removes [OF assms(4), of c p] assms(3)
    by (cases "hm_get (retain_flows c (ct_flows S)) p") auto
  then obtain S1 where S1: "capture_reap lo cfg t S = Ok S1" "ct_resolver S1 = ct_resolver S"
    "\<forall>p. hm_get (ct_flows S1) p = None" "hm_wf (ct_flows S1)" "ct_sent S1 = ct_sent S" "ct_running S1 = ct_running S"
    "ct_outbound_redirected S1 = ct_outbound_redirected S" "ct_inbound_rewritten S1 = ct_inbound_rewritten S"
    using assms flow_table.wf_reap [OF assms(4)]
    by (cases "secs 15 < t - ct_last_reap S") (auto simp: capture_reap_def reap_flows_def instant_sub_def)
  show ?thesis
  proof (cases received)
    case None
    then show ?thesis using S1 assms(2) by (simp add: capture_turn_def)
  next
    case (Some x)
    obtain d out where x: "x = (d, out)" by fastforce
    obtain r' where "process_packet resolve t d out (ct_resolver S1) (ct_flows S1) = Ok (None, r', ct_flows S1)" "good r'"
      using idle_packet [OF assms(1) _ S1(3)] assms(2) S1(2) by metis
    then show ?thesis
      using Some x S1 by (simp add: capture_turn_def capture_packet_def capture_emit_def Let_def)
  qed
qed

lemma idle_run:
  assumes "targets = []" and "good (ct_resolver S)" and "\<forall>p. hm_get (ct_flows S) p = None"
    and "hm_wf (ct_flows S)" and "ct_running S" and "\<forall>(t, _) \<in> set turns. lo \<le> t - cc_flow_idle cfg"
  shows "\<exists>S'. run_capture_loop lo cfg resolve recalc True turns S = Ok S'
    \<and> (\<forall>p. hm_get (ct_flows S') p = None)
    \<and> ct_outbound_redirected S' = ct_outbound_redirected S \<and> ct_inbound_rewritten S' = ct_inbound_rewritten S
    \<and> ct_sent S' = ct_sent S @ received_packets turns"
  using assms(2-6)
proof (induction turns arbitrary: S)
  case (Cons x turns)
  obtain t received where x: "x = (t, received)" by fastforce
  obtain S1 where S1: "capture_turn lo cfg resolve recalc True t received S = Ok S1"
    "good (ct_resolver S1)" "\<forall>p. hm_get (ct_flows S1) p = None" "hm_wf (ct_flows S1)" "ct_running S1"
    "ct_outbound_redirected S1 = ct_outbound_redirected S" "ct_inbound_rewritten S1 = ct_inbound_rewritten S"
    "ct_sent S1 = ct_sent S @ (case received of Some (d, _) \<Rightarrow> if True then [d] else [] | None \<Rightarrow> [])"
    using idle_turn [OF assms(1) Cons.prems(1,2,3), where lo = lo and t = t and cfg = cfg and sends = True
        and received = received and recalc = recalc] Cons.prems(4,5) x by auto
  obtain S' where "run_capture_loop lo cfg resolve recalc True turns S1 = Ok S'"
    "\<forall>p. hm_get (ct_flows S') p = None"
    "ct_outbound_redirected S' = ct_outbound_redirected S1" "ct_inbound_rewritten S' = ct_inbound_rewritten S1"
    "ct_sent S' = ct_sent S1 @ received_packets turns"
    using Cons.IH [OF S1(2-5)] Cons.prems(5) by auto
  then show ?case
    using S1 x Cons.prems(4) by (auto simp: received_packets_def split: option.splits prod.splits)
qed (simp add: received_packets_def)

end

section \<open>A router without estimates\<close>

definition unseeded :: "router \<Rightarrow> bool" where
  "unseeded R \<longleftrightarrow> rt_client_to_bridge_ms R = hm_empty
     \<and> (\<forall>a d. hm_get (rt_cache R) a = Some d \<longrightarrow> dc_route d = Direct)"

lemma best_loop_unseeded: "best_loop rgn hm_empty idx bs None = None"
  by (induction bs arbitrary: idx) (simp_all add: via_total_def)

lemma pick_unseeded:
  assumes "unseeded R" and "pick t dest d R = Ok (r, R')"
  shows "r = Direct" and "unseeded R'"
proof -
  have "r = Direct \<and> unseeded R'" if "pick_fresh t dest d R = Ok (r, R')"
    using that assms(1) unfolding pick_fresh_Ok
    by (auto simp: unseeded_def best_loop_unseeded choose_route_def split: if_splits)
  moreover have "pick_fresh t dest d R = Ok (r, R') \<or> r = Direct \<and> R' = R"
    using assms by (auto simp: pick_def unseeded_def split: option.splits if_splits)
  ultimately show "r = Direct" "unseeded R'"
    using assms(1) by blast+
qed

interpretation idle: route_resolver "smart_resolve clock sr" "[]"
  "\<lambda>st. smart_good bridges sr st \<and> unseeded (fst st)" for clock sr bridges
proof
  fix st st' :: "router \<times> nat" and d proto action tgt
  assume good: "smart_good bridges sr st \<and> unseeded (fst st)"
  then show "\<exists>action st'. smart_resolve clock sr d proto st = Ok (action, st')"
    using smart.answers by blast
  have direct: "action = Passthrough \<and> unseeded (fst st')" if "smart_resolve clock sr d proto st = Ok (action, st')"
    for action st'
  proof -
    note res = that
    obtain R n where st: "st = (R, n)" by fastforce
    obtain dr x where dr: "direct_rtt_of sr (sa_ip d) = Ok dr" and x: "pick (clock n) d dr R = Ok x"
      using res unfolding st smart_resolve_def by fastforce
    obtain r R' where xr: "x = (r, R')" by fastforce
    have "r = Direct" "unseeded R'"
      using pick_unseeded x good unfolding st xr by auto
    then show ?thesis
      using res dr x by (auto simp: st xr smart_resolve_def)
  qed
  show "smart_resolve clock sr d proto st = Ok (action, st') \<Longrightarrow> smart_good bridges sr st' \<and> unseeded (fst st')"
    using direct smart.stays_good good by blast
  show "smart_resolve clock sr d proto st = Ok (RewriteTo tgt, st') \<Longrightarrow> tgt \<in> set []"
    using direct by blast
qed

section \<open>Smart mode\<close>

lemma capture_start_Ok:
  "capture_start cfg spawn (capture_init r) = (Ok u, S) \<Longrightarrow>
     ct_resolver S = r \<and> ct_running S \<and> ct_flows S = hm_empty \<and> ct_sent S = []
     \<and> ct_outbound_redirected S = 0 \<and> ct_inbound_rewritten S = 0"
  by (auto simp: capture_start_def capture_init_def Let_def split: rs.splits)

lemma run_smart_mode_Ok:
  assumes "run_smart_mode aws spawn cfg = Ok M"
  shows "sm_config M = with_resolver (map listener_addr (sc_bridges cfg)) (map be_endpoint (sc_bridges cfg))"
    and "sm_resolver M = smart_resolver_new aws (sc_direct_rtt_ms cfg)"
    and "ct_resolver (sm_capture M) = (router_new aws (sc_bridges cfg), 0)"
    and "ct_running (sm_capture M)" and "ct_flows (sm_capture M) = hm_empty" and "ct_sent (sm_capture M) = []"
    and "ct_outbound_redirected (sm_capture M) = 0" and "ct_inbound_rewritten (sm_capture M) = 0"
  using assms
  by (auto simp: run_smart_mode_def start_smart_def Let_def dest!: capture_start_Ok
      split: if_splits rs.splits prod.splits)

lemma fresh_router_good:
  assumes "\<And>ip. region_for aws ip \<noteq> (Panic :: (string option, unit) rs)"
  shows "smart_good bridges (smart_resolver_new aws ms) (router_new aws bridges, n)" and "unseeded (router_new aws bridges)"
  using assms router_ok_new by (simp_all add: smart_good_def smart_resolver_new_def router_new_def unseeded_def)

section \<open>Properties of the modes\<close>

text \<open>C39: Smart mode as started without the dashboard never tunnels anything.  The router its capture
  asks is never given a client-to-bridge time (the seeded one is another), so whatever packets arrive
  and whatever the configuration's region times say, every packet is re-injected as it came, nothing
  is rewritten, and no listener ever finds the origin of a flow.\<close>

theorem smart_mode_never_tunnels:
  assumes "run_smart_mode aws spawn cfg = Ok M"
    and "\<And>ip. region_for aws ip \<noteq> (Panic :: (string option, unit) rs)"
    and "\<forall>(t, _) \<in> set turns. lo \<le> t - secs 120"
  shows "\<exists>S0 S'. capture_open (Ok ()) t0 (sm_capture M) = Ok S0
    \<and> run_capture_loop lo (sm_config M) (smart_resolve clock (sm_resolver M)) recalc True turns S0 = Ok S'
    \<and> ct_sent S' = received_packets turns
    \<and> ct_outbound_redirected S' = 0 \<and> ct_inbound_rewritten S' = 0
    \<and> (\<forall>p. flow_origin (ct_flows S') p = None)"
proof -
  note M = run_smart_mode_Ok [OF assms(1)]
  let ?S = "(sm_capture M)\<lparr>ct_last_reap := t0\<rparr>"
  have "smart_good (sc_bridges cfg) (sm_resolver M) (ct_resolver ?S) \<and> unseeded (fst (ct_resolver ?S))"
    using fresh_router_good [OF assms(2)] M by simp
  from idle.idle_run [OF refl this, where turns = turns and lo = lo and cfg = "sm_config M" and recalc = recalc,
      of clock]
  show ?thesis
    using M assms(3) by (auto simp: capture_open_def flow_origin_def with_resolver_def hm_wf_empty)
qed

lemma sample_aws_total: "region_for sample_aws ip \<noteq> (Panic :: (string option, unit) rs)"
proof (cases ip)
  case (V6 a)
  then show ?thesis by (simp add: region_for_def)
next
  case (V4 a)
  have "al_prefixes sample_aws \<noteq> []" by code_simp
  then show ?thesis
    unfolding V4 sample_aws_def by (subst region_for_panics_table) simp_all
qed

definition sample_smart_config :: smart_routing_config where
  "sample_smart_config = \<lparr>sc_bridges = sample_bridges, sc_direct_rtt_ms = [(''us-east-1'', Fin 60)], sc_margin_ms = Fin 2\<rparr>"

definition sample_mode :: smart_mode where
  "sample_mode = (case run_smart_mode sample_aws (Ok ()) sample_smart_config of Ok M \<Rightarrow> M)"

lemma sample_mode: "run_smart_mode sample_aws (Ok ()) sample_smart_config = Ok sample_mode"
proof -
  have "sample_bridges \<noteq> []" by (simp add: sample_bridges_def)
  then show ?thesis
    by (simp add: sample_mode_def run_smart_mode_def sample_smart_config_def Let_def capture_start_def
        capture_init_def build_filter_def with_resolver_def split: prod.splits)
qed

theorem smart_mode_never_tunnels_witness:
  "\<exists>S0 S'. capture_open (Ok ()) 100000000000 (sm_capture sample_mode) = Ok S0 \<and> run_capture_loop 0 (sm_config sample_mode) (smart_resolve (\<lambda>_. 0) (sm_resolver sample_mode)) Some True
      [(200000000000, Some (sample_packet 0x0A000001 5000 0x0A010203 7777, True))] S0 = Ok S'
    \<and> ct_sent S' = [sample_packet 0x0A000001 5000 0x0A010203 7777]
    \<and> ct_outbound_redirected S' = 0"
  using smart_mode_never_tunnels [where ?t0.0 = 100000000000, OF sample_mode sample_aws_total,
      of "[(200000000000, Some (sample_packet 0x0A000001 5000 0x0A010203 7777, True))]" 0 "\<lambda>_. 0" Some]
  by (auto simp: secs_def received_packets_def)

lemma hm_get_seeded:
  "hm_get (rt_client_to_bridge_ms (seed_router bs R)) name =
     (if name \<in> be_name ` set bs then Some (seed_rtt name) else hm_get (rt_client_to_bridge_ms R) name)"
  by (induction bs arbitrary: R) (auto simp: seed_router_def record_client_to_bridge_def)

lemma seed_router_fields [simp]:
  "rt_bridges (seed_router bs R) = rt_bridges R" "rt_cache (seed_router bs R) = rt_cache R"
  "rt_margin_ms (seed_router bs R) = rt_margin_ms R" "rt_aws (seed_router bs R) = rt_aws R"
  by (induction bs arbitrary: R) (simp_all add: seed_router_def record_client_to_bridge_def)

text \<open>The estimate a seeded router works with.\<close>

definition seeded_total :: "string \<Rightarrow> bridge_entry \<Rightarrow> f64 option" where
  "seeded_total rgn b = map_option (f64_add (seed_rtt (be_name b))) (hm_get (be_region_rtt_ms b) rgn)"

lemma via_total_seeded:
  "b \<in> set bs \<Longrightarrow> via_total (Some rgn) (rt_client_to_bridge_ms (seed_router bs R)) b = seeded_total rgn b"
  by (auto simp: via_total_def hm_get_seeded seeded_total_def split: option.splits)

lemma run_with_tui_Ok:
  assumes "run_with_tui aws spawn (Some cfg) = Ok M"
  shows "sm_resolver M = smart_resolver_new aws (sc_direct_rtt_ms cfg)"
    and "ct_resolver (sm_capture M) = (seed_router (sc_bridges cfg) (router_new aws (sc_bridges cfg)), 0)"
  using assms by (auto simp: run_with_tui_def Let_def split: if_splits rs.splits prod.splits)

text \<open>The first choice of a router seeded with the listed bridges: the cheapest seeded total, if it
  beats the direct way by the margin.\<close>

lemma seeded_pick_best:
  assumes "region_for aws (sa_ip dst) = (Ok (Some rgn) :: (string option, unit) rs)"
    and "\<forall>b \<in> set bs. seeded_total rgn b \<noteq> Some NaN"
  shows "\<exists>r R'. pick now dst direct (seed_router bs (router_new aws bs)) = Ok (r, R') \<and> rt_bridges R' = bs
    \<and> (\<forall>i. r = ViaBridge i \<longleftrightarrow> (\<exists>v. i < length bs \<and> seeded_total rgn (bs ! i) = Some v
          \<and> f64_lt (f64_add v (Fin 2)) direct
          \<and> (\<forall>j w. j < length bs \<longrightarrow> seeded_total rgn (bs ! j) = Some w \<longrightarrow>
               \<not> f64_lt w v \<and> (j < i \<longrightarrow> f64_lt v w))))"
proof -
  let ?R = "seed_router bs (router_new aws bs)"
  have R: "rt_bridges ?R = bs" "rt_margin_ms ?R = Fin 2" "rt_cache ?R = hm_empty" "rt_aws ?R = aws"
    by (simp_all add: router_new_def)
  have tot: "via_total (Some rgn) (rt_client_to_bridge_ms ?R) (bs ! i) = seeded_total rgn (bs ! i)"
    if "i < length bs" for i
    using that by (simp add: via_total_seeded)
  have fresh: "pick now dst direct ?R = pick_fresh now dst direct ?R"
    by (rule pick_stale) (simp add: router_new_def)
  have rgn: "region_for (rt_aws ?R) (sa_ip dst) = (Ok (Some rgn) :: (string option, unit) rs)"
    using assms(1) R by simp
  have nan: "\<forall>b \<in> set (rt_bridges ?R). via_total (Some rgn) (rt_client_to_bridge_ms ?R) b \<noteq> Some NaN"
    using assms(2) unfolding R by (simp add: via_total_seeded)
  obtain r R' where p: "pick now dst direct ?R = Ok (r, R')"
    and best: "\<And>i. r = ViaBridge i \<longleftrightarrow> (\<exists>v. i < length bs \<and> seeded_total rgn (bs ! i) = Some v
          \<and> f64_lt (f64_add v (Fin 2)) direct
          \<and> (\<forall>j w. j < length bs \<longrightarrow> seeded_total rgn (bs ! j) = Some w \<longrightarrow>
               \<not> f64_lt w v \<and> (j < i \<longrightarrow> f64_lt v w)))"
    using pick_fresh_best [OF rgn nan, of now direct] tot unfolding fresh R by metis
  have "rt_bridges R' = bs"
    using p unfolding fresh pick_fresh_Ok by (auto simp: router_new_def)
  then show ?thesis using p best by blast
qed


definition sample_tui_mode :: smart_mode where
  "sample_tui_mode = (case run_with_tui sample_aws (Ok ()) (Some sample_smart_config) of Ok M \<Rightarrow> M)"

lemma sample_tui_mode: "run_with_tui sample_aws (Ok ()) (Some sample_smart_config) = Ok sample_tui_mode"
proof -
  have "sample_bridges \<noteq> []" by (simp add: sample_bridges_def)
  then show ?thesis
    by (simp add: sample_tui_mode_def run_with_tui_def sample_smart_config_def Let_def capture_start_def
        capture_init_def build_filter_def with_resolver_def)
qed


section \<open>Per-bridge listeners\<close>

text \<open>
  \<open>smart.rs\<close> declares sessions and opened tunnels of its own, with the fields of the forwarder's; its
  session map is keyed by the local port alone.
\<close>

type_synonym smart_tunnel = tunnel

type_synonym smart_sessions = "u16 udp_state"

text \<open>
  It also has its own \<open>open_tunnel\<close>, from a bridge entry and the destination the captured program
  was going to.
\<close>

definition smart_open_tunnel ::
  "crypto \<Rightarrow> tunnel_env \<Rightarrow> bridge_entry \<Rightarrow> sock_addr \<Rightarrow> (smart_tunnel \<times> bytes, client_error) rs" where
  "smart_open_tunnel C E bridge dest =
     (let (client_sk, client_pk) = generate_keypair C (te_random E) in
      rs_bind (rs_map_err CHex (hex_decode C (be_bridge_x25519_pubkey_hex bridge))) (\<lambda>bridge_pk_bytes.
      rs_bind (rs_map_err CHandshake (pubkey_from_bytes bridge_pk_bytes)) (\<lambda>bridge_pk.
      rs_bind (client_derive_session_key C client_sk bridge_pk) (\<lambda>aead_key.
      rs_bind (rs_map_err CLicense (token_from_string_b64 C (be_license_token bridge))) (\<lambda>token.
      let connection_id = te_connection_id E in
      rs_bind (rs_map_err CIo (te_bind E (if is_ipv4 (sa_ip (be_endpoint bridge)) then V4 0 else V6 0))) (\<lambda>udp.
      rs_bind (rs_map_err CIo (te_connect E udp (be_endpoint bridge))) (\<lambda>_.
      let connect = \<lparr>cr_protocol = Udp, cr_dest_ip = sa_ip dest, cr_dest_port = sa_port dest\<rparr>;
          inner = token_to_bytes token @ connect_encode connect;
          h = \<lparr>h_version = PROTO_VERSION, h_flags = SYN, h_connection_id = connection_id, h_sequence = 0\<rparr>
      in
      rs_bind (rs_map_err CProto (encrypt_syn_frame C aead_key h client_pk inner)) (\<lambda>syn_wire.
      rs_bind (rs_map_err CIo (te_send E udp syn_wire)) (\<lambda>_.
      Ok (\<lparr>tn_udp_to_bridge = udp, tn_aead_key = aead_key, tn_connection_id = connection_id\<rparr>, syn_wire))))))))))"

text \<open>
  One datagram at a bridge's listener: sessions are keyed by the local source port; a new one goes
  to the origin the capture remembers for that port, if there is a capture and it remembers one.
\<close>

definition smart_datagram ::
  "crypto \<Rightarrow> tunnel_env \<Rightarrow> bridge_entry \<Rightarrow> flows option \<Rightarrow> instant \<Rightarrow> sock_addr \<Rightarrow> bytes \<Rightarrow> smart_sessions \<Rightarrow> smart_sessions" where
  "smart_datagram C E bridge capture t src payload U =
     (case hm_get (uf_sessions U) (sa_port src) of
        Some sid \<Rightarrow> udp_forward C t sid payload U
      | None \<Rightarrow>
          (case Option.bind capture (\<lambda>fl. flow_origin fl (sa_port src)) of
             None \<Rightarrow> U
           | Some orig_dest \<Rightarrow>
               (case smart_open_tunnel C E bridge orig_dest of
                  Ok (tn, syn) \<Rightarrow>
                    let sid = length (uf_heap U);
                        U = udp_insert (sa_port src) (udp_session_new tn t) U;
                        U = U\<lparr>uf_sent := uf_sent U @ [(sid, tn_udp_to_bridge tn, syn)],
                              uf_responders := uf_responders U @ [(sid, src)]\<rparr>
                    in udp_forward C t sid payload U
                | _ \<Rightarrow> U)))"

datatype smart_event =
  SmartDatagram tunnel_env "flows option" instant sock_addr bytes
| SmartAnswer instant bool nat bytes \<comment> \<open>at the i-th responder\<close>

fun smart_step :: "crypto \<Rightarrow> bridge_entry \<Rightarrow> smart_event \<Rightarrow> smart_sessions \<Rightarrow> smart_sessions" where
  "smart_step C b (SmartDatagram E capture t src payload) U = smart_datagram C E b capture t src payload U"
| "smart_step C b (SmartAnswer t sends i wire) U =
     (if i < length (uf_responders U) then udp_responder_datagram C t sends i wire U else U)"

definition run_bridge_listener :: "crypto \<Rightarrow> bridge_entry \<Rightarrow> smart_event list \<Rightarrow> smart_sessions \<Rightarrow> smart_sessions" where
  "run_bridge_listener C b evs U = fold (smart_step C b) evs U"

text \<open>The rule of \<open>forwarder.rs\<close> that would open the same tunnel.\<close>

definition bridge_rule :: "bridge_entry \<Rightarrow> sock_addr \<Rightarrow> rule" where
  "bridge_rule b dest =
     \<lparr>ru_listen = listener_addr b, ru_bridge = be_endpoint b,
      ru_bridge_x25519_pubkey_hex = be_bridge_x25519_pubkey_hex b, ru_license_token = be_license_token b,
      ru_dest_ip = sa_ip dest, ru_dest_port = sa_port dest, ru_protocol = ''udp'',
      ru_udp_idle_secs = default_udp_idle, ru_capture = False, ru_capture_dst_port_lo = None,
      ru_capture_dst_port_hi = None, ru_capture_dst_ip = None\<rparr>"

lemma smart_open_tunnel_eq: "smart_open_tunnel C E b dest = open_tunnel C E (bridge_rule b dest) Udp"
  by (simp add: smart_open_tunnel_def open_tunnel_def bridge_rule_def)

text \<open>What no operation of a listener changes about a session once it exists.\<close>

definition session_identity :: "udp_session \<Rightarrow> nat \<times> bytes \<times> u32" where
  "session_identity s = (us_udp_to_bridge s, us_aead_key s, us_connection_id s)"

definition grows :: "'k udp_state \<Rightarrow> 'k udp_state \<Rightarrow> bool" where
  "grows U U' \<longleftrightarrow> (\<forall>p sid. hm_get (uf_sessions U) p = Some sid \<longrightarrow> hm_get (uf_sessions U') p = Some sid)
     \<and> length (uf_heap U) \<le> length (uf_heap U')
     \<and> (\<forall>sid < length (uf_heap U). session_identity (uf_heap U' ! sid) = session_identity (uf_heap U ! sid))"

lemma grows_refl: "grows U U"
  by (simp add: grows_def)

lemma grows_trans: "grows U U' \<Longrightarrow> grows U' U'' \<Longrightarrow> grows U U''"
  by (auto simp: grows_def)

lemma udp_forward_grows: "grows U (udp_forward C t sid payload U)"
  by (cases "sid < length (uf_heap U)")
    (auto simp: grows_def udp_forward_def Let_def touch_def session_identity_def nth_list_update split: rs.split)

lemma udp_insert_grows: "hm_get (uf_sessions U) k = None \<Longrightarrow> grows U (udp_insert k s U)"
  by (auto simp: grows_def udp_insert_def nth_append)

lemma grows_logs: "grows U U' \<Longrightarrow> grows U (U'\<lparr>uf_sent := xs, uf_responders := ys\<rparr>)"
  by (simp add: grows_def)

lemma smart_step_grows: "grows U (smart_step C b ev U)"
proof (cases ev)
  case (SmartDatagram E capture t src payload)
  have "grows U (udp_forward C t sid payload ((udp_insert (sa_port src) s U)\<lparr>uf_sent := xs, uf_responders := ys\<rparr>))"
    if "hm_get (uf_sessions U) (sa_port src) = None" for sid s xs ys
    by (rule grows_trans [OF grows_logs [OF udp_insert_grows [OF that]] udp_forward_grows])
  then show ?thesis
    using SmartDatagram udp_forward_grows grows_refl
    by (auto simp: smart_datagram_def Let_def split: option.splits rs.splits)
next
  case (SmartAnswer t sends i wire)
  show ?thesis
    by (cases "fst (uf_responders U ! i) < length (uf_heap U)")
      (auto simp: SmartAnswer grows_def udp_responder_datagram_def Let_def touch_def session_identity_def
        nth_list_update split: rs.split prod.split)
qed

lemma run_bridge_listener_grows: "grows U (run_bridge_listener C b evs U)"
proof (induction evs arbitrary: U)
  case Nil
  then show ?case by (simp add: run_bridge_listener_def grows_refl)
next
  case (Cons ev evs)
  then show ?case
    using grows_trans [OF smart_step_grows Cons.IH] by (simp add: run_bridge_listener_def)
qed

lemma smart_numbered_step:
  assumes "udp_numbered n U" and "Suc n < 2 ^ 64"
  shows "udp_numbered (Suc n) (smart_step C b ev U)"
proof (cases ev)
  case (SmartDatagram E capture t src payload)
  show ?thesis
  proof (cases "hm_get (uf_sessions U) (sa_port src)")
    case (Some sid)
    then have "sid < length (uf_heap U)"
      using assms(1) by (auto simp: udp_numbered_def udp_ok_def)
    then show ?thesis
      using SmartDatagram Some udp_numbered_forward [OF assms(1) _ assms(2)] by (simp add: smart_datagram_def)
  next
    case None
    have opened: "udp_numbered (Suc n) (udp_forward C t (length (uf_heap U)) payload
        ((udp_insert (sa_port src) (udp_session_new tn t) U)\<lparr>
          uf_sent := uf_sent U @ [(length (uf_heap U), tn_udp_to_bridge tn, syn)],
          uf_responders := uf_responders U @ [(length (uf_heap U), src)]\<rparr>))"
      if "smart_open_tunnel C E b dest = Ok (tn, syn)" for dest tn syn
      using udp_numbered_open [OF assms(1) open_tunnel_sequence [OF that [unfolded smart_open_tunnel_eq]]]
      by (rule udp_numbered_forward) (use assms(2) in \<open>simp_all add: udp_insert_def\<close>)
    show ?thesis
      using SmartDatagram None udp_numbered_mono [OF assms(1)] opened
      by (auto simp: smart_datagram_def Let_def udp_insert_def split: option.splits rs.splits)
  qed
next
  case (SmartAnswer t sends i wire)
  then show ?thesis
    using udp_numbered_mono [OF udp_numbered_responder [OF assms(1)]] udp_numbered_mono [OF assms(1)] by auto
qed

lemma run_bridge_listener_numbered:
  "length evs < 2 ^ 64 \<Longrightarrow> udp_numbered (length evs) (run_bridge_listener C b evs udp_init)"
proof (induction evs rule: rev_induct)
  case Nil
  show ?case by (simp add: run_bridge_listener_def udp_numbered_def udp_ok_def udp_init_def)
next
  case (snoc ev evs)
  then have "udp_numbered (Suc (length evs)) (smart_step C b ev (run_bridge_listener C b evs udp_init))"
    by (intro smart_numbered_step) auto
  then show ?case by (simp add: run_bridge_listener_def)
qed

section \<open>Properties of the listeners\<close>

text \<open>A listener never reuses a nonce either: over any run of fewer than \<open>2 ^ 64\<close> events the
  datagrams it sends for one session carry strictly increasing sequence numbers.\<close>

theorem smart_sequence_increases:
  assumes "length evs < 2 ^ 64" and "sid < length (uf_heap (run_bridge_listener C b evs udp_init))"
  shows "sorted_wrt (<) (map frame_sequence (udp_frames sid (run_bridge_listener C b evs udp_init)))"
  using run_bridge_listener_numbered [OF assms(1), of C b] assms(2) by (simp add: udp_numbered_def)

text \<open>A local port is bound to its first destination for good.  Sessions are keyed by source port
  and never reaped, so once a port has a session, then whatever happens later (other origins
  remembered for the port, hours of silence) every datagram from it is sent through that session:
  same socket, same key, same connection id, hence to the same destination.\<close>

theorem smart_port_keeps_first_tunnel:
  fixes C :: crypto and b :: bridge_entry and evs :: "smart_event list"
  assumes "hm_get (uf_sessions U) (sa_port src) = Some sid" and "sid < length (uf_heap U)"
  defines "U' \<equiv> run_bridge_listener C b evs U"
  shows "smart_datagram C E b capture t src payload U' = udp_forward C t sid payload U'
    \<and> us_udp_to_bridge (uf_heap U' ! sid) = us_udp_to_bridge (uf_heap U ! sid)
    \<and> us_aead_key (uf_heap U' ! sid) = us_aead_key (uf_heap U ! sid)
    \<and> us_connection_id (uf_heap U' ! sid) = us_connection_id (uf_heap U ! sid)"
  using run_bridge_listener_grows [of U C b evs] assms(1,2)
  by (simp add: grows_def session_identity_def smart_datagram_def U'_def)

text \<open>A captured datagram is tunnelled to where it was going.  When the capture has rewritten an
  outgoing UDP packet, the listener that gets it from a port without a session finds the packet's
  original destination as the flow's origin, and the SYN it sends makes the bridge open exactly that
  address and port.\<close>

theorem captured_datagram_tunnelled:
  assumes "parse_ip d = Ok (Some (hl, proto))" and "process_packet resolve t d True r fl = Ok (Some out, r', fl')"
    and "hm_get (uf_sessions U) (l4_src hl d) = None" and "sa_port src = l4_src hl d"
    and "smart_open_tunnel C E b (sock_addr_new (V4 (ip_dst d)) (l4_dst hl d)) = Ok (tn, syn)"
    and "aead_ok C" and "dh_ok C" and "hkdf_ok C" and "length (te_random E) = 32" and "length payload \<le> MAX_PAYLOAD_LEN"
    and "rule_for_bridge C X now_ts (bridge_rule b (sock_addr_new (V4 (ip_dst d)) (l4_dst hl d)))"
    and "n < bc_max_sessions (bx_config X)"
  shows "\<exists>w. uf_sent (smart_datagram C E b (Some fl') t' src payload U) =
      uf_sent U @ [(length (uf_heap U), tn_udp_to_bridge tn, syn), (length (uf_heap U), tn_udp_to_bridge tn, w)]
    \<and> accept_check C X n now_ts syn = Ok (tn_aead_key tn,
        \<lparr>cr_protocol = Udp, cr_dest_ip = V4 (ip_dst d), cr_dest_port = l4_dst hl d\<rparr>)"
proof -
  let ?dest = "sock_addr_new (V4 (ip_dst d)) (l4_dst hl d)" and ?sid = "length (uf_heap U)"
  have b: "20 \<le> hl" "hl + 8 \<le> length d"
    using assms(1) by (cases d rule: parse_ip_cases; simp)+
  have origin: "flow_origin fl' (sa_port src) = Some ?dest"
    using assms(2,4) unfolding process_outbound_Some [OF assms(1) b] by (auto simp: flow_origin_def)
  note opened = assms(5) [unfolded smart_open_tunnel_eq]
  have key: "length (tn_aead_key tn) = 32"
    using opened derive_length(2) [OF assms(8)] by (auto simp: open_tunnel_Ok)
  let ?U = "(udp_insert (sa_port src) (udp_session_new tn t') U)\<lparr>
      uf_sent := uf_sent U @ [(?sid, tn_udp_to_bridge tn, syn)],
      uf_responders := uf_responders U @ [(?sid, src)]\<rparr>"
  have s: "uf_heap ?U ! ?sid = udp_session_new tn t'"
    by (simp add: udp_insert_def)
  have "smart_datagram C E b (Some fl') t' src payload U = udp_forward C t' ?sid payload ?U"
    using assms(3,4,5) origin by (simp add: smart_datagram_def Let_def udp_insert_def)
  moreover obtain w where "uf_sent (udp_forward C t' ?sid payload ?U) = uf_sent ?U @ [(?sid, tn_udp_to_bridge tn, w)]"
    using udp_forward_sends [OF assms(6) _ assms(10), of ?U ?sid] key unfolding s by (auto simp: udp_session_new_def)
  ultimately show ?thesis
    using open_tunnel_accepted(1) [OF assms(6,7,11,9,12) opened]
    by (auto simp: rule_connect_def bridge_rule_def sock_addr_new_def)
qed


section \<open>Witnesses\<close>

definition sample_exit :: bridge_entry where
  "sample_exit = \<lparr>be_name = ''nj'', be_endpoint = sock_addr_new (V4 0x05060708) 51820,
     be_bridge_x25519_pubkey_hex = hex_encode toy (replicate 32 9), be_license_token = ru_license_token sample_rule,
     be_listen_port = 9000, be_region_rtt_ms = []\<rparr>"

definition sample_flows :: flows where
  "sample_flows = [(5000, \<lparr>fe_orig_dst_ip = 0x01020304, fe_orig_dst_port = 7777,
     fe_redirect_target = sample_target, fe_last_seen = 5\<rparr>)]"

definition sample_smart_events :: "smart_event list" where
  "sample_smart_events =
     [SmartDatagram (sample_tunnel_env 5) (Some sample_flows) 10 sample_local [1],
      SmartDatagram (sample_tunnel_env 6) None 20 sample_local [2]]"

theorem smart_sequence_increases_witness:
  "sorted_wrt (<) (map frame_sequence (udp_frames 0 (run_bridge_listener toy sample_exit sample_smart_events udp_init)))
   \<and> length (udp_frames 0 (run_bridge_listener toy sample_exit sample_smart_events udp_init)) = 3"
proof
  show "sorted_wrt (<) (map frame_sequence (udp_frames 0 (run_bridge_listener toy sample_exit sample_smart_events udp_init)))"
  proof (rule smart_sequence_increases)
    show "length sample_smart_events < 2 ^ 64" by (simp add: sample_smart_events_def)
    show "0 < length (uf_heap (run_bridge_listener toy sample_exit sample_smart_events udp_init))" by code_simp
  qed
  show "length (udp_frames 0 (run_bridge_listener toy sample_exit sample_smart_events udp_init)) = 3" by code_simp
qed

lemma sample_listening: "hm_get (uf_sessions (run_bridge_listener toy sample_exit sample_smart_events udp_init)) 5000 = Some 0"
  "0 < length (uf_heap (run_bridge_listener toy sample_exit sample_smart_events udp_init))"
  by code_simp+

theorem smart_port_keeps_first_tunnel_witness:
  "let U = run_bridge_listener toy sample_exit sample_smart_events udp_init;
       U' = run_bridge_listener toy sample_exit [SmartDatagram (sample_tunnel_env 7) None 9999 sample_local [3]] U
   in smart_datagram toy (sample_tunnel_env 8) sample_exit
        (Some [(5000, \<lparr>fe_orig_dst_ip = 0x08080808, fe_orig_dst_port = 1, fe_redirect_target = sample_target, fe_last_seen = 9\<rparr>)])
        99999 sample_local [4] U' = udp_forward toy 99999 0 [4] U'
    \<and> us_connection_id (uf_heap U' ! 0) = us_connection_id (uf_heap U ! 0)"
proof -
  have "hm_get (uf_sessions (run_bridge_listener toy sample_exit sample_smart_events udp_init)) (sa_port sample_local) = Some 0"
    using sample_listening(1) by (simp add: sample_local_def sock_addr_new_def)
  from smart_port_keeps_first_tunnel [OF this sample_listening(2)] show ?thesis
    by (simp add: Let_def)
qed

theorem captured_datagram_tunnelled_witness:
  "\<exists>(tn :: tunnel) syn w. uf_sent (smart_datagram toy (sample_tunnel_env 5) sample_exit (Some sample_flows) 10 sample_local [1] udp_init) =
      [(0, tn_udp_to_bridge tn, syn), (0, tn_udp_to_bridge tn, w)]
    \<and> accept_check toy sample_ctx 0 150 syn = Ok (tn_aead_key tn,
        \<lparr>cr_protocol = Udp, cr_dest_ip = V4 0x01020304, cr_dest_port = 7777\<rparr>)"
proof -
  let ?d = "sample_packet 0x0A000001 5000 0x01020304 7777"
  have d: "parse_ip ?d = Ok (Some (20, ProtoUdp))" and f: "ip_dst ?d = 0x01020304" "l4_dst 20 ?d = 7777" "l4_src 20 ?d = 5000"
    by code_simp+
  have out: "process_packet (fixed_resolver sample_rules) 5 ?d True () []
      = Ok (Some (sample_packet 0x0A000001 5000 0x7F000001 9000), (), sample_flows)"
    using sample_outbound by (simp add: sample_flows_def)
  have "case smart_open_tunnel toy (sample_tunnel_env 5) sample_exit (sock_addr_new (V4 0x01020304) 7777) of
      Ok _ \<Rightarrow> True | _ \<Rightarrow> False" by code_simp
  then obtain tn syn where opened: "smart_open_tunnel toy (sample_tunnel_env 5) sample_exit
      (sock_addr_new (V4 (ip_dst ?d)) (l4_dst 20 ?d)) = Ok (tn, syn)"
    unfolding f by (auto split: rs.splits)
  have rule: "rule_for_bridge toy sample_ctx 150 (bridge_rule sample_exit (sock_addr_new (V4 (ip_dst ?d)) (l4_dst 20 ?d)))"
    unfolding f by code_simp
  have "hm_get (uf_sessions (udp_init :: u16 udp_state)) (l4_src 20 ?d) = None"
    and "sa_port sample_local = l4_src 20 ?d" and "length (te_random (sample_tunnel_env 5)) = 32"
    and "length [1 :: u8] \<le> MAX_PAYLOAD_LEN" and "0 < bc_max_sessions (bx_config sample_ctx)"
    by (simp_all add: udp_init_def f sample_local_def sock_addr_new_def sample_tunnel_env_def wire_defs sample_ctx_def)
  note tunnelled = captured_datagram_tunnelled [OF d out this(1,2) opened toy_aead toy_dh toy_hkdf this(3,4) rule this(5),
      where t' = 10]
  have "\<exists>w. uf_sent (smart_datagram toy (sample_tunnel_env 5) sample_exit (Some sample_flows) 10 sample_local [1] udp_init) =
      [(0, tn_udp_to_bridge tn, syn), (0, tn_udp_to_bridge tn, w)]
    \<and> accept_check toy sample_ctx 0 150 syn = Ok (tn_aead_key tn,
        \<lparr>cr_protocol = Udp, cr_dest_ip = V4 0x01020304, cr_dest_port = 7777\<rparr>)"
    using tunnelled unfolding f by (simp add: udp_init_def)
  then show ?thesis by blast
qed


end
