(* ===== verification/Lp_Network.thy ===== *)
theory Lp_Network
  imports Lp_Smart Lp_Bridge_System
begin

text \<open>
  A client listener (the UDP rule of \<open>forwarder.rs\<close> or a smart listener of \<open>smart.rs\<close>) and the relay with
  all its tasks (\<open>server.rs\<close>), joined by a network that may lose, repeat, reorder, misdirect, reflect and
  invent datagrams.  What it cannot do is forge: a datagram that opens under a key the two ends alone hold
  is one that an end made.  The theory shows which bytes can then come out at either side.
\<close>

section \<open>Listeners\<close>

text \<open>What tells the two kinds of listener apart: how sessions are keyed, what a datagram from a local
  program does (with what the system and the capture answer meanwhile, \<open>'e\<close>), and whether idle sessions
  are reaped.\<close>

record ('e, 'k) listener_ops =
  ls_key :: "sock_addr \<Rightarrow> 'k"
  ls_send :: "'e \<Rightarrow> instant \<Rightarrow> sock_addr \<Rightarrow> bytes \<Rightarrow> 'k udp_state \<Rightarrow> 'k udp_state"
  ls_reaps :: bool

definition rule_listener :: "crypto \<Rightarrow> rule \<Rightarrow> (tunnel_env, sock_addr) listener_ops" where
  "rule_listener C r = \<lparr>ls_key = (\<lambda>src. src), ls_send = (\<lambda>E. udp_rule_datagram C E r), ls_reaps = True\<rparr>"

definition smart_listener :: "crypto \<Rightarrow> bridge_entry \<Rightarrow> (tunnel_env \<times> flows option, u16) listener_ops" where
  "smart_listener C b =
     \<lparr>ls_key = sa_port, ls_send = (\<lambda>(E, capture). smart_datagram C E b capture), ls_reaps = False\<rparr>"

definition is_syn :: "bytes \<Rightarrow> bool" where
  "is_syn w = (case header_decode w of Ok h \<Rightarrow> contains_flag (h_flags h) SYN | _ \<Rightarrow> False)"

text \<open>What a listener does with a datagram: forward it through the session of its key, or drop it, or open
  a session for its key and forward it through that.\<close>

locale listener =
  fixes C :: crypto and L :: "('e, 'k) listener_ops"
  assumes known: "hm_get (uf_sessions U) (ls_key L src) = Some sid \<Longrightarrow> ls_send L E t src p U = udp_forward C t sid p U"
    and unknown: "hm_get (uf_sessions U) (ls_key L src) = None \<Longrightarrow> ls_send L E t src p U = U
      \<or> (\<exists>tn syn. is_syn syn \<and> ls_send L E t src p U = first_datagram C tn syn t (ls_key L src) src p U)"

lemma open_tunnel_syn: "open_tunnel C E r transport = Ok (tn, syn) \<Longrightarrow> is_syn syn"
proof -
  let ?h = "\<lparr>h_version = PROTO_VERSION, h_flags = SYN, h_connection_id = te_connection_id E, h_sequence = 0\<rparr>"
  have "header_ok ?h" by (simp add: header_ok_def SYN_def)
  assume "open_tunnel C E r transport = Ok (tn, syn)"
  then obtain rest where "syn = header_encode ?h @ rest"
    by (auto simp: open_tunnel_Ok encrypt_syn_frame_Ok_iff)
  then show ?thesis
    using header_codec.dec_enc [OF \<open>header_ok ?h\<close>, of rest] by (simp add: is_syn_def contains_flag_def)
qed

interpretation rule_listens: listener C "rule_listener C r" for C r
proof
  fix U :: "sock_addr udp_state" and src and E t p
  assume "hm_get (uf_sessions U) (ls_key (rule_listener C r) src) = None"
  then show "ls_send (rule_listener C r) E t src p U = U \<or> (\<exists>tn syn. is_syn syn
      \<and> ls_send (rule_listener C r) E t src p U = first_datagram C tn syn t (ls_key (rule_listener C r) src) src p U)"
    using open_tunnel_syn [of C E r Udp]
    by (cases "open_tunnel C E r Udp")
      (fastforce simp: rule_listener_def udp_rule_datagram_def first_datagram_def udp_insert_def Let_def)+
qed (simp add: rule_listener_def udp_rule_datagram_def)

interpretation smart_listens: listener C "smart_listener C b" for C b
proof
  fix U :: "u16 udp_state" and src and x :: "tunnel_env \<times> flows option" and t p
  obtain E capture where x: "x = (E, capture)" by fastforce
  assume "hm_get (uf_sessions U) (ls_key (smart_listener C b) src) = None"
  then show "ls_send (smart_listener C b) x t src p U = U \<or> (\<exists>tn syn. is_syn syn
      \<and> ls_send (smart_listener C b) x t src p U = first_datagram C tn syn t (ls_key (smart_listener C b) src) src p U)"
    unfolding x
    by (auto simp: smart_listener_def smart_datagram_def first_datagram_def udp_insert_def Let_def smart_open_tunnel_eq
        dest: open_tunnel_syn split: option.split rs.split)
qed (auto simp: smart_listener_def smart_datagram_def)

section \<open>The joined system\<close>

text \<open>
  Beside the two ends' states, four history variables record what the outside did: the key (local address
  or port) each client session was opened for, the key each bridge session was accepted under, the
  datagrams the local programs sent (by key), and the reads of the relay's drain tasks.
\<close>

record 'k tunnel_net =
  nt_client :: "'k udp_state"
  nt_bridge :: bridge
  nt_owner :: "'k list"
  nt_bound :: "session_key list"
  nt_asked :: "('k \<times> bytes) list"
  nt_answered :: "(session_key \<times> bytes) list"

definition net_init :: "'k tunnel_net" where
  "net_init = \<lparr>nt_client = udp_init, nt_bridge = bridge_init, nt_owner = [], nt_bound = [],
     nt_asked = [], nt_answered = []\<rparr>"

datatype 'e net_event =
  ProgramSends 'e instant sock_addr bytes
| ClientReceives instant bool nat bytes \<comment> \<open>at the i-th responder task\<close>
| ClientReaps instant
| AtBridge bridge_event

text \<open>What the network may deliver: \<open>H\<close> lists the keys that only the two ends hold.  Frames flagged
  SYN are delivered freely to the relay, which never opens them as data.\<close>

definition client_key :: "'k tunnel_net \<Rightarrow> nat \<Rightarrow> bytes" where
  "client_key N sid = us_aead_key (uf_heap (nt_client N) ! sid)"

definition bridge_key :: "'k tunnel_net \<Rightarrow> nat \<Rightarrow> bytes" where
  "bridge_key N n = sn_aead_key (br_heap (nt_bridge N) ! n)"

definition made_under :: "'k tunnel_net \<Rightarrow> bytes \<Rightarrow> bytes \<Rightarrow> bool" where
  "made_under N k w \<longleftrightarrow> \<not> is_syn w \<and>
     ((\<exists>(sid, _, v) \<in> set (uf_sent (nt_client N)). v = w \<and> client_key N sid = k)
    \<or> (\<exists>(n, v, _) \<in> set (br_sent (nt_bridge N)). v = w \<and> bridge_key N n = k))"

definition unforged :: "crypto \<Rightarrow> bytes list \<Rightarrow> 'k tunnel_net \<Rightarrow> bytes \<Rightarrow> bool" where
  "unforged C H N w \<longleftrightarrow>
     (\<forall>k \<in> set H. case decrypt_frame C k w of Ok _ \<Rightarrow> made_under N k w | _ \<Rightarrow> True)"

definition delivers :: "bridge_event \<Rightarrow> bytes option" where
  "delivers ev = (case ev of Datagram peer pkt now_ts \<Rightarrow> Some pkt | _ \<Rightarrow> None)"

definition binds :: "bridge_event \<Rightarrow> bridge \<Rightarrow> bridge \<Rightarrow> session_key list" where
  "binds ev B B' =
     (case ev of
        DestOpened i E t \<Rightarrow>
          if length (br_heap B) < length (br_heap B') then [fst (br_accepting B ! i)] else []
      | _ \<Rightarrow> [])"

definition answers :: "bridge_event \<Rightarrow> bridge \<Rightarrow> (session_key \<times> bytes) list" where
  "answers ev B =
     (case ev of DestRead i r \<Rightarrow> (case r of Ok bs \<Rightarrow> [(fst (br_draining B ! i), bs)] | _ \<Rightarrow> []) | _ \<Rightarrow> [])"

fun net_step ::
  "crypto \<Rightarrow> bridge_ctx \<Rightarrow> ('e, 'k) listener_ops \<Rightarrow> bytes list \<Rightarrow> 'e net_event \<Rightarrow> 'k tunnel_net \<Rightarrow> 'k tunnel_net option" where
  "net_step C X L H (ProgramSends E t src payload) N =
     (let U = ls_send L E t src payload (nt_client N);
          new = (if length (uf_heap (nt_client N)) < length (uf_heap U) then [ls_key L src] else [])
      in Some (N\<lparr>nt_client := U, nt_owner := nt_owner N @ new,
                 nt_asked := nt_asked N @ [(ls_key L src, payload)]\<rparr>))"
| "net_step C X L H (ClientReceives t sends i w) N =
     (if i < length (uf_responders (nt_client N)) \<and> unforged C H N w
      then Some (N\<lparr>nt_client := udp_responder_datagram C t sends i w (nt_client N)\<rparr>)
      else None)"
| "net_step C X L H (ClientReaps cutoff) N =
     (if ls_reaps L then Some (N\<lparr>nt_client := udp_reap_at cutoff (nt_client N)\<rparr>) else None)"
| "net_step C X L H (AtBridge ev) N =
     (if case delivers ev of Some w \<Rightarrow> is_syn w \<or> unforged C H N w | None \<Rightarrow> True
      then map_option (\<lambda>B. N\<lparr>nt_bridge := B, nt_bound := nt_bound N @ binds ev (nt_bridge N) B,
                             nt_answered := nt_answered N @ answers ev (nt_bridge N)\<rparr>)
             (bridge_step C X ev (nt_bridge N))
      else None)"

text \<open>\<open>net_run C X L H N\<close>: started afresh, the two ends and the network can come to \<open>N\<close>.\<close>

inductive net_run :: "crypto \<Rightarrow> bridge_ctx \<Rightarrow> ('e, 'k) listener_ops \<Rightarrow> bytes list \<Rightarrow> 'k tunnel_net \<Rightarrow> bool"
  for C :: crypto and X :: bridge_ctx and L :: "('e, 'k) listener_ops" and H :: "bytes list" where
  start: "net_run C X L H net_init"
| step: "net_run C X L H N \<Longrightarrow> net_step C X L H ev N = Some N' \<Longrightarrow> net_run C X L H N'"

fun net_exec ::
  "crypto \<Rightarrow> bridge_ctx \<Rightarrow> ('e, 'k) listener_ops \<Rightarrow> bytes list \<Rightarrow> 'e net_event list \<Rightarrow> 'k tunnel_net \<Rightarrow> 'k tunnel_net option" where
  "net_exec C X L H [] N = Some N"
| "net_exec C X L H (ev # evs) N =
     (case net_step C X L H ev N of None \<Rightarrow> None | Some N' \<Rightarrow> net_exec C X L H evs N')"

lemma net_exec_run: "net_exec C X L H evs N = Some N' \<Longrightarrow> net_run C X L H N \<Longrightarrow> net_run C X L H N'"
  by (induction evs arbitrary: N) (auto split: option.splits intro: net_run.step)

section \<open>What bytes can be genuine\<close>

text \<open>
  Under a key, the genuine payloads are those a local program sent through a client session of that
  key, and those a drain task read for a bridge session of that key.
\<close>

definition asked_under :: "'k tunnel_net \<Rightarrow> bytes \<Rightarrow> bytes \<Rightarrow> bool" where
  "asked_under N k p \<longleftrightarrow>
     (\<exists>sid < length (uf_heap (nt_client N)). client_key N sid = k \<and> (nt_owner N ! sid, p) \<in> set (nt_asked N))"

definition answered_under :: "'k tunnel_net \<Rightarrow> bytes \<Rightarrow> bytes \<Rightarrow> bool" where
  "answered_under N k p \<longleftrightarrow>
     (\<exists>n < length (br_heap (nt_bridge N)). bridge_key N n = k
        \<and> (\<exists>bs. (nt_bound N ! n, bs) \<in> set (nt_answered N) \<and> p = take MAX_PAYLOAD_LEN bs))"

definition genuine :: "'k tunnel_net \<Rightarrow> bytes \<Rightarrow> bytes \<Rightarrow> bool" where
  "genuine N k p \<longleftrightarrow> asked_under N k p \<or> answered_under N k p"

text \<open>Histories only grow, and what identifies a session never changes.\<close>

definition later :: "'k tunnel_net \<Rightarrow> 'k tunnel_net \<Rightarrow> bool" where
  "later N N' \<longleftrightarrow>
     length (uf_heap (nt_client N)) \<le> length (uf_heap (nt_client N'))
   \<and> (\<forall>sid < length (uf_heap (nt_client N)).
        client_key N' sid = client_key N sid \<and> nt_owner N' ! sid = nt_owner N ! sid)
   \<and> length (br_heap (nt_bridge N)) \<le> length (br_heap (nt_bridge N'))
   \<and> (\<forall>n < length (br_heap (nt_bridge N)).
        bridge_key N' n = bridge_key N n \<and> nt_bound N' ! n = nt_bound N ! n
      \<and> sn_dest_writer (br_heap (nt_bridge N') ! n) = sn_dest_writer (br_heap (nt_bridge N) ! n))
   \<and> set (nt_asked N) \<subseteq> set (nt_asked N') \<and> set (nt_answered N) \<subseteq> set (nt_answered N')
   \<and> set (uf_sent (nt_client N)) \<subseteq> set (uf_sent (nt_client N'))
   \<and> set (br_sent (nt_bridge N)) \<subseteq> set (br_sent (nt_bridge N'))"

lemma later_refl [simp]: "later N N"
  by (simp add: later_def)

lemma later_client:
  "later N N' \<Longrightarrow> sid < length (uf_heap (nt_client N)) \<Longrightarrow> sid < length (uf_heap (nt_client N'))
     \<and> client_key N' sid = client_key N sid \<and> nt_owner N' ! sid = nt_owner N ! sid"
  unfolding later_def by auto

lemma later_bridge:
  "later N N' \<Longrightarrow> n < length (br_heap (nt_bridge N)) \<Longrightarrow> n < length (br_heap (nt_bridge N'))
     \<and> bridge_key N' n = bridge_key N n \<and> nt_bound N' ! n = nt_bound N ! n
     \<and> sn_dest_writer (br_heap (nt_bridge N') ! n) = sn_dest_writer (br_heap (nt_bridge N) ! n)"
  unfolding later_def by auto

lemma later_logs:
  "later N N' \<Longrightarrow> x \<in> set (nt_asked N) \<Longrightarrow> x \<in> set (nt_asked N')"
  "later N N' \<Longrightarrow> y \<in> set (nt_answered N) \<Longrightarrow> y \<in> set (nt_answered N')"
  unfolding later_def by auto

lemma asked_later:
  assumes "later N N'" and "asked_under N k p"
  shows "asked_under N' k p"
  using assms(2) later_client [OF assms(1)] later_logs(1) [OF assms(1)] unfolding asked_under_def by fastforce

lemma answered_later:
  assumes "later N N'" and "answered_under N k p"
  shows "answered_under N' k p"
  using assms(2) later_bridge [OF assms(1)] later_logs(2) [OF assms(1)] unfolding answered_under_def by fastforce

lemma genuine_later: "later N N' \<Longrightarrow> genuine N k p \<Longrightarrow> genuine N' k p"
  using asked_later answered_later unfolding genuine_def by blast

section \<open>The invariant\<close>

text \<open>One predicate for each place where bytes of a session can be.\<close>

definition asked_frame :: "crypto \<Rightarrow> 'k tunnel_net \<Rightarrow> nat \<times> nat \<times> bytes \<Rightarrow> bool" where
  "asked_frame C N = (\<lambda>(sid, _, w). sid < length (uf_heap (nt_client N)) \<and>
     (is_syn w \<or> (\<exists>h p. decrypt_frame C (client_key N sid) w = Ok (h, p) \<and> (nt_owner N ! sid, p) \<in> set (nt_asked N))))"

definition answered_payload :: "'k tunnel_net \<Rightarrow> downstream_packet \<Rightarrow> bool" where
  "answered_payload N pkt \<longleftrightarrow>
     (\<exists>bs. (dp_session_key pkt, bs) \<in> set (nt_answered N) \<and> dp_payload pkt = take MAX_PAYLOAD_LEN bs)"

definition answered_frame :: "crypto \<Rightarrow> 'k tunnel_net \<Rightarrow> nat \<times> bytes \<times> sock_addr \<Rightarrow> bool" where
  "answered_frame C N = (\<lambda>(n, w, _). n < length (br_heap (nt_bridge N)) \<and>
     (\<exists>h bs. decrypt_frame C (bridge_key N n) w = Ok (h, take MAX_PAYLOAD_LEN bs)
        \<and> (nt_bound N ! n, bs) \<in> set (nt_answered N)))"

definition arrived :: "crypto \<Rightarrow> bytes list \<Rightarrow> 'k tunnel_net \<Rightarrow> nat \<times> bytes \<Rightarrow> bool" where
  "arrived C H N = (\<lambda>(n, w). n < length (br_heap (nt_bridge N)) \<and>
     (bridge_key N n \<in> set H \<longrightarrow>
       (\<forall>h p. decrypt_frame C (bridge_key N n) w = Ok (h, p) \<longrightarrow> genuine N (bridge_key N n) p)))"

definition to_dest :: "bytes list \<Rightarrow> 'k tunnel_net \<Rightarrow> dest_writer \<times> bytes \<Rightarrow> bool" where
  "to_dest H N = (\<lambda>(wr, p). \<exists>n < length (br_heap (nt_bridge N)).
     sn_dest_writer (br_heap (nt_bridge N) ! n) = wr \<and>
     (bridge_key N n \<in> set H \<longrightarrow> (\<exists>q m. genuine N (bridge_key N n) q \<and> p = take m q)))"

definition to_program :: "('e, 'k) listener_ops \<Rightarrow> bytes list \<Rightarrow> 'k tunnel_net \<Rightarrow> sock_addr \<times> bytes \<Rightarrow> bool" where
  "to_program L H N = (\<lambda>(src, p). \<exists>sid < length (uf_heap (nt_client N)).
     nt_owner N ! sid = ls_key L src \<and> (client_key N sid \<in> set H \<longrightarrow> genuine N (client_key N sid) p))"

definition named_ok :: "('e, 'k) listener_ops \<Rightarrow> 'k tunnel_net \<Rightarrow> bool" where
  "named_ok L N \<longleftrightarrow> udp_ok (nt_client N) \<and> tasks_ok (nt_bridge N)
   \<and> length (nt_owner N) = length (uf_heap (nt_client N))
   \<and> length (nt_bound N) = length (br_heap (nt_bridge N))
   \<and> (\<forall>src sid. hm_get (uf_sessions (nt_client N)) src = Some sid \<longrightarrow> nt_owner N ! sid = src)
   \<and> (\<forall>k n. hm_get (br_sessions (nt_bridge N)) k = Some n \<longrightarrow> nt_bound N ! n = k)
   \<and> (\<forall>x \<in> set (uf_responders (nt_client N)). nt_owner N ! fst x = ls_key L (snd x))
   \<and> (\<forall>pkt n. br_sending (nt_bridge N) = Some (pkt, n) \<longrightarrow> nt_bound N ! n = dp_session_key pkt)"

definition traced :: "crypto \<Rightarrow> ('e, 'k) listener_ops \<Rightarrow> bytes list \<Rightarrow> 'k tunnel_net \<Rightarrow> bool" where
  "traced C L H N \<longleftrightarrow>
     (\<forall>x \<in> set (uf_sent (nt_client N)). asked_frame C N x)
   \<and> (\<forall>x \<in> set (uf_local (nt_client N)). to_program L H N x)
   \<and> (\<forall>x \<in> set (br_sent (nt_bridge N)). answered_frame C N x)
   \<and> (\<forall>x \<in> set (br_queue (nt_bridge N)). answered_payload N x)
   \<and> (\<forall>pkt n. br_sending (nt_bridge N) = Some (pkt, n) \<longrightarrow> answered_payload N pkt)
   \<and> (\<forall>x \<in> set (br_forwarding (nt_bridge N)). arrived C H N x)
   \<and> (\<forall>x \<in> set (br_writing (nt_bridge N)). to_dest H N (snd x))
   \<and> (\<forall>x \<in> set (br_written (nt_bridge N)). to_dest H N x)"

text \<open>What held of a place before still holds later.\<close>

lemma later_places:
  assumes "later N N'"
  shows "asked_frame C N x \<Longrightarrow> asked_frame C N' x" and "to_program L H N y \<Longrightarrow> to_program L H N' y"
    and "answered_frame C N z \<Longrightarrow> answered_frame C N' z" and "answered_payload N pkt \<Longrightarrow> answered_payload N' pkt"
    and "arrived C H N u \<Longrightarrow> arrived C H N' u" and "to_dest H N v \<Longrightarrow> to_dest H N' v"
proof -
  note client = later_client [OF assms] and bridge = later_bridge [OF assms]
    and logs = later_logs [OF assms] and gen = genuine_later [OF assms]
  show "asked_frame C N x \<Longrightarrow> asked_frame C N' x"
    using client [of "fst x"] logs(1) unfolding asked_frame_def by (auto split: prod.splits)
  show "answered_payload N pkt \<Longrightarrow> answered_payload N' pkt"
    using logs(2) unfolding answered_payload_def by blast
  show "answered_frame C N z \<Longrightarrow> answered_frame C N' z"
    using bridge [of "fst z"] logs(2) unfolding answered_frame_def by (auto split: prod.splits)
  show "to_program L H N y \<Longrightarrow> to_program L H N' y"
    using client gen unfolding to_program_def by (cases y) fastforce
  show "arrived C H N u \<Longrightarrow> arrived C H N' u"
    using bridge [of "fst u"] gen unfolding arrived_def by (auto split: prod.splits)
  show "to_dest H N v \<Longrightarrow> to_dest H N' v"
  proof -
    assume "to_dest H N v"
    then obtain n where n: "n < length (br_heap (nt_bridge N))" "sn_dest_writer (br_heap (nt_bridge N) ! n) = fst v"
      "bridge_key N n \<in> set H \<longrightarrow> (\<exists>q m. genuine N (bridge_key N n) q \<and> snd v = take m q)"
      unfolding to_dest_def by (auto split: prod.splits)
    then have "bridge_key N n \<in> set H \<longrightarrow> (\<exists>q m. genuine N' (bridge_key N n) q \<and> snd v = take m q)"
      using gen by blast
    then have "to_dest H N' (fst v, snd v)"
      using bridge [OF n(1)] n(2) unfolding to_dest_def prod.case by metis
    then show "to_dest H N' v" by simp
  qed
qed

text \<open>A datagram the network may deliver opens, if at all, to genuine bytes.\<close>

lemma unforged_genuine:
  assumes "traced C L H N" and "unforged C H N w" and "k \<in> set H" and "decrypt_frame C k w = Ok (h, p)"
  shows "genuine N k p"
proof -
  have "made_under N k w"
    using assms(2-4) unfolding unforged_def by fastforce
  then consider sid s where "(sid, s, w) \<in> set (uf_sent (nt_client N))" "client_key N sid = k" "\<not> is_syn w"
    | n a where "(n, w, a) \<in> set (br_sent (nt_bridge N))" "bridge_key N n = k"
    unfolding made_under_def by blast
  then show ?thesis
  proof cases
    case 1
    then have "asked_frame C N (sid, s, w)"
      using assms(1) unfolding traced_def by blast
    then have "asked_under N k p"
      using 1 assms(4) unfolding asked_frame_def asked_under_def by auto
    then show ?thesis by (simp add: genuine_def)
  next
    case 2
    then have "answered_frame C N (n, w, a)"
      using assms(1) unfolding traced_def by blast
    then have "answered_under N k p"
      using 2 assms(4) unfolding answered_frame_def answered_under_def by auto
    then show ?thesis by (simp add: genuine_def)
  qed
qed

section \<open>The client's steps\<close>

lemma asks_kept:
  fixes x :: "'k \<times> bytes" and N :: "'k tunnel_net"
  assumes "named_ok L N" and "traced C L H N"
  defines "N' \<equiv> N\<lparr>nt_asked := nt_asked N @ [x]\<rparr>"
  shows "named_ok L N'" and "traced C L H N'"
proof -
  have l: "later N N'"
    by (auto simp: N'_def later_def client_key_def bridge_key_def)
  show "named_ok L N'"
    using assms(1) by (simp add: N'_def named_ok_def)
  note old = assms(2) [unfolded traced_def] and still = later_places [OF l]
  have "\<forall>x \<in> set (uf_local (nt_client N)). to_program L H N' x"
    using old still(2) by blast
  then show "traced C L H N'"
    using old still(1,3-6) unfolding traced_def by (simp add: N'_def)
qed

text \<open>For the client to keep the trace it is enough to account for the new datagrams.\<close>

lemma client_traced:
  assumes "traced C L H N" and "later N (N\<lparr>nt_client := U, nt_owner := own\<rparr>)"
    and "\<And>x. x \<in> set (uf_sent U) \<Longrightarrow> x \<notin> set (uf_sent (nt_client N)) \<Longrightarrow> asked_frame C (N\<lparr>nt_client := U, nt_owner := own\<rparr>) x"
    and "\<And>x. x \<in> set (uf_local U) \<Longrightarrow> x \<notin> set (uf_local (nt_client N)) \<Longrightarrow> to_program L H (N\<lparr>nt_client := U, nt_owner := own\<rparr>) x"
  shows "traced C L H (N\<lparr>nt_client := U, nt_owner := own\<rparr>)"
proof -
  let ?N = "N\<lparr>nt_client := U, nt_owner := own\<rparr>"
  note old = assms(1) [unfolded traced_def] and still = later_places [OF assms(2)]
  have "\<forall>x \<in> set (uf_sent U). asked_frame C ?N x"
    using assms(3) old still(1) by blast
  moreover have "\<forall>x \<in> set (uf_local U). to_program L H ?N x"
    using assms(4) old still(2) by blast
  ultimately show ?thesis
    using old still(3-6) unfolding traced_def by simp
qed

lemma udp_forward_effect:
  assumes "aead_ok C"
  obtains s where "us_aead_key s = us_aead_key (uf_heap U ! sid)"
      and "udp_forward C t sid p U = U\<lparr>uf_heap := (uf_heap U)[sid := s]\<rparr>"
  | s sock w h where "us_aead_key s = us_aead_key (uf_heap U ! sid)"
      and "udp_forward C t sid p U = U\<lparr>uf_heap := (uf_heap U)[sid := s], uf_sent := uf_sent U @ [(sid, sock, w)]\<rparr>"
      and "decrypt_frame C (us_aead_key (uf_heap U ! sid)) w = Ok (h, p)"
proof -
  let ?s = "(touch t (uf_heap U ! sid))\<lparr>us_tx_sequence := us_tx_sequence (uf_heap U ! sid) + 1\<rparr>"
  have key: "us_aead_key ?s = us_aead_key (uf_heap U ! sid)"
    by (simp add: touch_def)
  show thesis
  proof (cases "encrypt_frame C (us_aead_key (uf_heap U ! sid))
      (data_header (us_connection_id (uf_heap U ! sid)) (us_tx_sequence (uf_heap U ! sid) + 1)) p")
    case (Ok w)
    then show thesis
      using that(2) [OF key _ decrypt_encrypt_frame [OF assms data_header_ok Ok]]
      by (simp add: udp_forward_def Let_def touch_def)
  qed (use that(1) [OF key] in \<open>simp_all add: udp_forward_def Let_def touch_def\<close>)
qed

lemma forward_kept:
  fixes t :: instant
  assumes "aead_ok C" and "named_ok L N" and "traced C L H N" and "sid < length (uf_heap (nt_client N))"
    and "(nt_owner N ! sid, p) \<in> set (nt_asked N)"
  defines "N' \<equiv> N\<lparr>nt_client := udp_forward C t sid p (nt_client N)\<rparr>"
  shows "named_ok L N' \<and> traced C L H N'"
proof -
  have N': "N' = N\<lparr>nt_client := udp_forward C t sid p (nt_client N), nt_owner := nt_owner N\<rparr>"
    by (simp add: N'_def)
  show ?thesis
  proof (cases rule: udp_forward_effect [OF assms(1), of "nt_client N" sid t p])
    case (1 s)
    have "later N N'"
      using 1 assms(4) by (auto simp: N'_def later_def client_key_def bridge_key_def nth_list_update)
    then have "traced C L H N'"
      unfolding N' by (rule client_traced [OF assms(3)]) (simp_all add: 1(2))
    then show ?thesis
      using assms(2) by (auto simp: N'_def 1(2) named_ok_def udp_ok_def)
  next
    case (2 s sock w h)
    have l: "later N N'"
      using 2(1,2) assms(4) by (auto simp: N'_def later_def client_key_def bridge_key_def nth_list_update)
    have "asked_frame C N' (sid, sock, w)"
      using 2(1,3) assms(4,5) by (auto simp: asked_frame_def N'_def 2(2) client_key_def)
    then have "traced C L H N'"
      using l unfolding N' by (intro client_traced [OF assms(3)]) (auto simp: 2(2))
    then show ?thesis
      using assms(2,4) by (auto simp: N'_def 2(2) named_ok_def udp_ok_def)
  qed
qed

lemma open_kept:
  fixes src :: sock_addr and tn :: tunnel and t :: instant and sock :: nat and N :: "'k tunnel_net"
  assumes "named_ok L N" and "traced C L H N" and "is_syn syn"
  defines "U \<equiv> nt_client N"
  defines "N' \<equiv> N\<lparr>nt_client := (udp_insert (ls_key L src) (udp_session_new tn t) U)\<lparr>
        uf_sent := uf_sent U @ [(length (uf_heap U), sock, syn)],
        uf_responders := uf_responders U @ [(length (uf_heap U), src)]\<rparr>,
      nt_owner := nt_owner N @ [ls_key L src]\<rparr>"
  shows "named_ok L N' \<and> traced C L H N'"
proof -
  have own: "length (nt_owner N) = length (uf_heap U)" and ok: "udp_ok U"
    using assms(1) by (simp_all add: named_ok_def U_def)
  have l: "later N N'"
    using own by (auto simp: N'_def U_def later_def udp_insert_def client_key_def bridge_key_def nth_append)
  have "asked_frame C N' (length (uf_heap U), sock, syn)"
    using assms(3) by (simp add: asked_frame_def N'_def udp_insert_def)
  then have "traced C L H N'"
    using l unfolding N'_def by (intro client_traced [OF assms(2)]) (auto simp: U_def udp_insert_def)
  moreover have "named_ok L N'"
    using assms(1) udp_ok_insert [OF ok, of "ls_key L src" "udp_session_new tn t"]
    by (auto simp: named_ok_def N'_def udp_insert_def udp_ok_def U_def nth_append split: if_splits)
  ultimately show ?thesis by simp
qed

lemma length_udp_forward [simp]: "length (uf_heap (udp_forward C t sid p U)) = length (uf_heap U)"
  by (simp add: udp_forward_def Let_def split: rs.split)

context listener
begin

lemma program_sends_kept:
  assumes "aead_ok C" and "named_ok L N" and "traced C L H N"
    and "net_step C X L H (ProgramSends E t src p) N = Some N'"
  shows "named_ok L N' \<and> traced C L H N'"
proof -
  let ?k = "ls_key L src" and ?U = "nt_client N"
  let ?N = "N\<lparr>nt_asked := nt_asked N @ [(?k, p)]\<rparr>"
  note kept = asks_kept [OF assms(2,3), where x = "(?k, p)"]
  have own: "length (nt_owner N) = length (uf_heap ?U)"
    using assms(2) by (simp add: named_ok_def)
  have forwarded: "named_ok L N' \<and> traced C L H N'" if "hm_get (uf_sessions ?U) ?k = Some sid" for sid
  proof -
    have sid: "sid < length (uf_heap ?U)" "nt_owner N ! sid = ?k"
      using assms(2) that by (auto simp: named_ok_def udp_ok_def)
    have "N' = ?N\<lparr>nt_client := udp_forward C t sid p ?U\<rparr>"
      using assms(4) known [OF that] by (cases N) (auto simp: Let_def)
    then show ?thesis
      using forward_kept [OF assms(1) kept, of sid p t] sid by simp
  qed
  have opened: "named_ok L N' \<and> traced C L H N'"
    if "is_syn syn" and "ls_send L E t src p ?U = first_datagram C tn syn t ?k src p ?U" for tn syn
  proof -
    let ?V = "(udp_insert ?k (udp_session_new tn t) ?U)\<lparr>
        uf_sent := uf_sent ?U @ [(length (uf_heap ?U), tn_udp_to_bridge tn, syn)],
        uf_responders := uf_responders ?U @ [(length (uf_heap ?U), src)]\<rparr>"
    let ?M = "?N\<lparr>nt_client := ?V, nt_owner := nt_owner N @ [?k]\<rparr>"
    have M: "named_ok L ?M" "traced C L H ?M"
      using open_kept [OF kept that(1), where src = src and tn = tn and t = t and sock = "tn_udp_to_bridge tn"] by simp_all
    have last: "(nt_owner N @ [?k]) ! length (uf_heap ?U) = ?k"
      unfolding own [symmetric] by simp
    have "N' = ?M\<lparr>nt_client := udp_forward C t (length (uf_heap ?U)) p ?V\<rparr>"
      using assms(4) that(2) by (cases N) (auto simp: first_datagram_def Let_def udp_insert_def)
    then show ?thesis
      using forward_kept [OF assms(1) M, of "length (uf_heap ?U)" p t] last by (simp add: udp_insert_def)
  qed
  have dropped: "named_ok L N' \<and> traced C L H N'" if "ls_send L E t src p ?U = ?U"
  proof -
    have "N' = ?N"
      using assms(4) that by (cases N) (auto simp: Let_def)
    then show ?thesis using kept by simp
  qed
  show ?thesis
    using forwarded opened dropped unknown [of ?U src E t p] by (cases "hm_get (uf_sessions ?U) ?k") blast+
qed

end

lemma client_receives_kept:
  assumes "named_ok L N" and "traced C L H N" and "net_step C X L H (ClientReceives t sends i w) N = Some N'"
  shows "named_ok L N' \<and> traced C L H N'"
proof -
  let ?U = "nt_client N"
  have i: "i < length (uf_responders ?U)" and un: "unforged C H N w"
    and N': "N' = N\<lparr>nt_client := udp_responder_datagram C t sends i w ?U, nt_owner := nt_owner N\<rparr>"
    using assms(3) by (auto split: if_splits)
  obtain sid src where rsp: "uf_responders ?U ! i = (sid, src)" by fastforce
  then have "(sid, src) \<in> set (uf_responders ?U)" using i by (metis nth_mem)
  then have sid: "sid < length (uf_heap ?U)" and src: "nt_owner N ! sid = ls_key L src"
    using assms(1) by (auto simp: named_ok_def udp_ok_def)
  show ?thesis
  proof (cases "decrypt_frame C (us_aead_key (uf_heap ?U ! sid)) w")
    case (Ok x)
    obtain h p where x: "x = (h, p)" by fastforce
    let ?drop = "?U\<lparr>uf_responders := take i (uf_responders ?U) @ drop (Suc i) (uf_responders ?U)\<rparr>"
    let ?send = "?U\<lparr>uf_local := uf_local ?U @ [(src, p)], uf_heap := (uf_heap ?U)[sid := touch t (uf_heap ?U ! sid)]\<rparr>"
    have U': "udp_responder_datagram C t sends i w ?U = (if sends then ?send else ?drop)"
      using Ok x rsp by (simp add: udp_responder_datagram_def)
    have l: "later N N'"
      unfolding N' U' using sid by (auto simp: later_def client_key_def bridge_key_def nth_list_update touch_def)
    have "genuine N (client_key N sid) p" if "client_key N sid \<in> set H"
      using unforged_genuine [OF assms(2) un that] Ok x by (simp add: client_key_def)
    then have "to_program L H N (src, p)"
      using sid src by (auto simp: to_program_def)
    from later_places(2) [OF l this] have "to_program L H N' (src, p)" .
    then have "traced C L H N'"
      using l unfolding N' by (intro client_traced [OF assms(2)]) (auto simp: U' split: if_splits)
    then show ?thesis
      using assms(1) unfolding N' U'
      by (auto simp: named_ok_def udp_ok_def dest: in_set_takeD in_set_dropD)
  qed (use assms(1,2) rsp N' in \<open>simp_all add: udp_responder_datagram_def\<close>)
qed

lemma client_reaps_kept:
  assumes "named_ok L N" and "traced C L H N" and "net_step C X L H (ClientReaps c) N = Some N'"
  shows "named_ok L N' \<and> traced C L H N'"
proof -
  have N': "N' = N\<lparr>nt_client := udp_reap_at c (nt_client N), nt_owner := nt_owner N\<rparr>"
    using assms(3) by (cases N) (auto split: if_splits)
  have "later N N'"
    by (simp add: N' later_def client_key_def bridge_key_def)
  then have "traced C L H N'"
    unfolding N' by (rule client_traced [OF assms(2)]) simp_all
  moreover have "named_ok L N'"
    using assms(1) udp_ok_reap [of "nt_client N" c] unfolding named_ok_def N'
    by (auto simp: udp_reap_get udp_ok_def split: option.splits if_splits)
  ultimately show ?thesis by simp
qed

section \<open>The relay's steps\<close>

lemma step_identities:
  assumes "bridge_step C X ev B = Some B'" and "n < length (br_heap B)"
  shows "n < length (br_heap B')" and "sn_aead_key (br_heap B' ! n) = sn_aead_key (br_heap B ! n)"
    and "sn_dest_writer (br_heap B' ! n) = sn_dest_writer (br_heap B ! n)"
proof -
  obtain new where new: "creds B' = creds B @ new"
    using step_creds [OF assms(1)] by auto
  show len: "n < length (br_heap B')"
    using arg_cong [OF new, of length] assms(2) by simp
  have "creds B' ! n = creds B ! n"
    using new assms(2) by (simp add: nth_append)
  then show "sn_aead_key (br_heap B' ! n) = sn_aead_key (br_heap B ! n)"
    and "sn_dest_writer (br_heap B' ! n) = sn_dest_writer (br_heap B ! n)"
    using len assms(2) by (simp_all add: creds_def)
qed

lemma step_binds:
  assumes "bridge_step C X ev B = Some B'"
  shows "length (br_heap B') = length (br_heap B) + length (binds ev B B')"
  using step_creds [OF assms]
proof (elim disjE exE conjE)
  assume "creds B' = creds B"
  then have "length (br_heap B') = length (br_heap B)"
    by (metis length_creds)
  then show ?thesis
    by (simp add: binds_def split: bridge_event.split)
next
  fix i E t key aead_key connect w r
  assume ev: "ev = DestOpened i E t" and "creds B' = creds B @ [(aead_key, w)]"
  then have "length (creds B') = Suc (length (creds B))"
    by simp
  then show ?thesis
    by (simp add: ev binds_def)
qed

lemma send_locked_effect:
  assumes "aead_ok C"
  obtains s where "send_locked C pkt sid B = B\<lparr>br_heap := (br_heap B)[sid := s]\<rparr>"
  | s w h a where "send_locked C pkt sid B = B\<lparr>br_heap := (br_heap B)[sid := s], br_sent := br_sent B @ [(sid, w, a)]\<rparr>"
      and "decrypt_frame C (sn_aead_key (br_heap B ! sid)) w = Ok (h, dp_payload pkt)"
proof -
  let ?s = "(br_heap B ! sid)\<lparr>sn_tx_sequence := sn_tx_sequence (br_heap B ! sid) + 1\<rparr>"
  let ?h = "data_header (sk_connection_id (dp_session_key pkt)) (sn_tx_sequence (br_heap B ! sid) + 1)"
  show thesis
  proof (cases "encrypt_frame C (sn_aead_key (br_heap B ! sid)) ?h (dp_payload pkt)")
    case (Ok w)
    then show thesis
      using that(2) [OF _ decrypt_encrypt_frame [OF assms data_header_ok Ok], where s = ?s]
      by (simp add: send_locked_def Let_def data_header_def)
  qed (use that(1) [where s = ?s] in \<open>simp_all add: send_locked_def Let_def data_header_def\<close>)
qed

lemma step_sent_mono:
  assumes "aead_ok C" and "bridge_step C X ev B = Some B'"
  shows "set (br_sent B) \<subseteq> set (br_sent B')"
  using assms(2)
proof (cases rule: bridge_step_cases)
  case (sent pkt sid)
  then show ?thesis
    by (cases rule: send_locked_effect [OF assms(1), of pkt sid B]) auto
qed (auto simp: reap_remove_def)

text \<open>A step of the relay, seen from the joined system.\<close>

definition relay_moves :: "bridge_event \<Rightarrow> bridge \<Rightarrow> 'k tunnel_net \<Rightarrow> 'k tunnel_net" where
  "relay_moves ev B N =
     N\<lparr>nt_bridge := B, nt_bound := nt_bound N @ binds ev (nt_bridge N) B,
       nt_answered := nt_answered N @ answers ev (nt_bridge N)\<rparr>"

lemma relay_moves_fields [simp]:
  "nt_client (relay_moves ev B N) = nt_client N" "nt_bridge (relay_moves ev B N) = B"
  "nt_owner (relay_moves ev B N) = nt_owner N" "nt_asked (relay_moves ev B N) = nt_asked N"
  by (simp_all add: relay_moves_def)

lemma relay_later:
  assumes "aead_ok C" and "named_ok L N" and "bridge_step C X ev (nt_bridge N) = Some B"
  shows "later N (relay_moves ev B N)"
proof -
  have "length (nt_bound N) = length (br_heap (nt_bridge N))"
    using assms(2) by (simp add: named_ok_def)
  then show ?thesis
    using step_identities [OF assms(3)] step_sent_mono [OF assms(1,3)] step_binds [OF assms(3)]
    by (auto simp: later_def relay_moves_def client_key_def bridge_key_def nth_append)
qed

lemma relay_named:
  assumes "named_ok L N" and "bridge_step C X ev (nt_bridge N) = Some B"
  shows "named_ok L (relay_moves ev B N)"
proof -
  have bound: "length (nt_bound N) = length (br_heap (nt_bridge N))"
    and get: "\<And>k n. hm_get (br_sessions (nt_bridge N)) k = Some n \<Longrightarrow> nt_bound N ! n = k \<and> n < length (nt_bound N)"
    and sending: "\<And>pkt n. br_sending (nt_bridge N) = Some (pkt, n) \<Longrightarrow> nt_bound N ! n = dp_session_key pkt \<and> n < length (nt_bound N)"
    and tasks: "tasks_ok (nt_bridge N)"
    using assms(1) by (auto simp: named_ok_def tasks_ok_def table_ok_def)
  let ?new = "nt_bound N @ binds ev (nt_bridge N) B"
  have "(\<forall>k n. hm_get (br_sessions B) k = Some n \<longrightarrow> ?new ! n = k)
      \<and> (\<forall>pkt n. br_sending B = Some (pkt, n) \<longrightarrow> ?new ! n = dp_session_key pkt)"
    using assms(2)
  proof (cases rule: bridge_step_cases)
    case (opened i E t key aead_key connect w r)
    then have new: "binds ev (nt_bridge N) B = [key]"
      by (simp add: binds_def)
    have "br_sessions B = hm_insert key (length (br_heap (nt_bridge N))) (br_sessions (nt_bridge N))"
      by (simp add: opened(5) accept_commit_def insert_session_def)
    then show ?thesis
      using get sending bound opened(5) unfolding new by (auto simp: nth_append split: if_splits)
  next
    case (taken pkt rest x)
    then show ?thesis
      using get by (fastforce simp: nth_append)
  next
    case (reaped ks)
    have "hm_get (br_sessions B) k = Some n \<Longrightarrow> hm_get (br_sessions (nt_bridge N)) k = Some n" for k n
      using tasks by (auto simp: reaped reap_remove_def hm_get_remove_all tasks_ok_def table_ok_def split: if_splits)
    then show ?thesis
      using get sending by (fastforce simp: nth_append reaped reap_remove_def)
  qed (use get sending in \<open>auto simp: nth_append\<close>)
  then show ?thesis
    using assms(1) step_tasks_ok [OF assms(2) tasks] step_binds [OF assms(2)] bound
    by (simp add: named_ok_def relay_moves_def)
qed

text \<open>For the relay to keep the trace it is enough to account for what is new in each of its places.\<close>

lemma relay_traced_if:
  fixes ev B N C H
  defines "N' \<equiv> relay_moves ev B N" and "B0 \<equiv> nt_bridge N"
  assumes "traced C L H N" and "later N N'"
    and "\<And>x. x \<in> set (br_sent B) \<Longrightarrow> x \<in> set (br_sent B0) \<or> answered_frame C N' x"
    and "\<And>x. x \<in> set (br_queue B) \<Longrightarrow> x \<in> set (br_queue B0) \<or> answered_payload N' x"
    and "\<And>pkt n. br_sending B = Some (pkt, n) \<Longrightarrow> br_sending B0 = Some (pkt, n) \<or> pkt \<in> set (br_queue B0)"
    and "\<And>x. x \<in> set (br_forwarding B) \<Longrightarrow> x \<in> set (br_forwarding B0) \<or> arrived C H N x"
    and "\<And>x. x \<in> set (br_writing B) \<Longrightarrow> x \<in> set (br_writing B0) \<or> to_dest H N (snd x)"
    and "\<And>x. x \<in> set (br_written B) \<Longrightarrow> x \<in> set (br_written B0) \<or> to_dest H N x"
  shows "traced C L H N'"
proof -
  note old = assms(3) [unfolded traced_def] and still = later_places [OF assms(4)]
  have c: "nt_client N' = nt_client N" and b: "nt_bridge N' = B"
    by (simp_all add: N'_def)
  show ?thesis
    unfolding traced_def c b
  proof (intro conjI ballI allI impI)
    fix x
    assume "x \<in> set (uf_sent (nt_client N))"
    then show "asked_frame C N' x" using old still(1) by blast
  next
    fix x
    assume "x \<in> set (uf_local (nt_client N))"
    then show "to_program L H N' x" using old still(2) by blast
  next
    fix x
    assume "x \<in> set (br_sent B)"
    then show "answered_frame C N' x" using assms(5) old still(3) unfolding B0_def by blast
  next
    fix x
    assume "x \<in> set (br_queue B)"
    then show "answered_payload N' x" using assms(6) old still(4) unfolding B0_def by blast
  next
    fix pkt n
    assume "br_sending B = Some (pkt, n)"
    then show "answered_payload N' pkt" using assms(7) old still(4) unfolding B0_def by blast
  next
    fix x
    assume "x \<in> set (br_forwarding B)"
    then show "arrived C H N' x" using assms(8) old still(5) unfolding B0_def by blast
  next
    fix x
    assume "x \<in> set (br_writing B)"
    then show "to_dest H N' (snd x)" using assms(9) old still(6) unfolding B0_def by blast
  next
    fix x
    assume "x \<in> set (br_written B)"
    then show "to_dest H N' x" using assms(10) old still(6) unfolding B0_def by blast
  qed
qed

lemma packet_arrives:
  assumes "named_ok L N" and "traced C L H N" and "unforged C H N w"
    and "hm_get (br_sessions (nt_bridge N)) k = Some n"
  shows "arrived C H N (n, w)"
  using assms(1,4) unforged_genuine [OF assms(2,3)]
  by (auto simp: arrived_def named_ok_def tasks_ok_def table_ok_def)

lemma arrived_to_dest:
  assumes "arrived C H N (n, w)" and "decrypt_frame C (bridge_key N n) w = Ok (h, p)"
  shows "to_dest H N (sn_dest_writer (br_heap (nt_bridge N) ! n), p)"
proof -
  have "p = take (length p) p" by simp
  then show ?thesis
    using assms unfolding arrived_def to_dest_def prod.case by blast
qed

lemma to_dest_take:
  assumes "to_dest H N (wr, p)"
  shows "to_dest H N (wr, take m p)"
proof -
  have "take m (take i q) = take (min m i) q" for i and q :: bytes by simp
  then show ?thesis
    using assms unfolding to_dest_def prod.case by metis
qed

lemma sent_answers:
  assumes "aead_ok C" and "named_ok L N" and "traced C L H N" and "later N (relay_moves ev B N)"
    and "br_sending (nt_bridge N) = Some (pkt, n)" and "B = (send_locked C pkt n (nt_bridge N))\<lparr>br_sending := None\<rparr>"
    and "x \<in> set (br_sent B)"
  shows "x \<in> set (br_sent (nt_bridge N)) \<or> answered_frame C (relay_moves ev B N) x"
proof (cases rule: send_locked_effect [OF assms(1), of pkt n "nt_bridge N"])
  case 1
  then show ?thesis using assms(6,7) by simp
next
  case (2 s w h a)
  have n: "n < length (br_heap (nt_bridge N))" and bound: "nt_bound N ! n = dp_session_key pkt"
    using assms(2,5) by (auto simp: named_ok_def tasks_ok_def)
  obtain bs where bs: "(dp_session_key pkt, bs) \<in> set (nt_answered N)" "dp_payload pkt = take MAX_PAYLOAD_LEN bs"
    using assms(3,5) unfolding traced_def answered_payload_def by blast
  have "answered_frame C N (n, w, a)"
    using 2(2) n bs unfolding answered_frame_def prod.case bound bridge_key_def by metis
  from later_places(3) [OF assms(4) this] show ?thesis
    using assms(6,7) 2(1) by auto
qed

lemma relay_traced:
  assumes "aead_ok C" and "named_ok L N" and "traced C L H N" and "bridge_step C X ev (nt_bridge N) = Some B"
    and "\<And>w. delivers ev = Some w \<Longrightarrow> is_syn w \<or> unforged C H N w"
  shows "traced C L H (relay_moves ev B N)"
proof -
  note l = relay_later [OF assms(1,2,4)]
  note keep = relay_traced_if [OF assms(3) l]
  show ?thesis
    using assms(4)
  proof (cases rule: bridge_step_cases)
    case (packet peer pkt now_ts key sid h)
    have "arrived C H N (sid, pkt)"
      by (rule packet_arrives [OF assms(2,3) _ packet(2)])
        (use assms(5) packet(1,4,5) in \<open>simp add: delivers_def is_syn_def\<close>)
    then show ?thesis by (intro keep) (auto simp: packet(3))
  next
    case (locked i t sid pkt h p)
    have "(sid, pkt) \<in> set (br_forwarding (nt_bridge N))"
      using locked(2,3) by (metis nth_mem)
    then have "arrived C H N (sid, pkt)"
      using assms(3) by (auto simp: traced_def)
    from arrived_to_dest [OF this] have "to_dest H N (sn_dest_writer (br_heap (nt_bridge N) ! sid), p)"
      using locked(5) by (simp add: bridge_key_def)
    then show ?thesis
      by (intro keep) (auto simp: locked(6) dest: in_remove_at)
  next
    case (written i n sid w p)
    have "(sid, w, p) \<in> set (br_writing (nt_bridge N))"
      using written(1,2) by (metis nth_mem)
    then have "to_dest H N (w, p)"
      using assms(3) by (force simp: traced_def)
    from to_dest_take [OF this, of n] show ?thesis
      by (intro keep) (auto simp: written(3) dest: in_remove_at)
  next
    case (readback key bs i)
    then have "answered_payload (relay_moves ev B N) \<lparr>dp_session_key = key, dp_payload = take MAX_PAYLOAD_LEN bs\<rparr>"
      by (auto simp: answered_payload_def relay_moves_def answers_def)
    then show ?thesis by (intro keep) (auto simp: readback(1))
  next
    case (taken pkt rest x)
    then show ?thesis by (intro keep) auto
  next
    case (sent pkt sid)
    show ?thesis
      by (rule keep, fact sent_answers [OF assms(1-3) l sent(1,3)]) (simp_all add: sent(3))
  qed (intro keep; auto simp: reap_remove_def dest: in_remove_at)+
qed

lemma relay_kept:
  assumes "aead_ok C" and "named_ok L N" and "traced C L H N" and "net_step C X L H (AtBridge ev) N = Some N'"
  shows "named_ok L N' \<and> traced C L H N'"
proof -
  obtain B where step: "bridge_step C X ev (nt_bridge N) = Some B" and N': "N' = relay_moves ev B N"
    and un: "case delivers ev of Some w \<Rightarrow> is_syn w \<or> unforged C H N w | None \<Rightarrow> True"
    using assms(4) by (auto simp: relay_moves_def split: if_splits)
  show ?thesis
    using relay_named [OF assms(2) step] relay_traced [OF assms(1-3) step, of] un
    unfolding N' by (auto split: option.splits)
qed

context listener
begin

lemma net_run_traced:
  assumes "aead_ok C" and "net_run C X L H N"
  shows "named_ok L N \<and> traced C L H N"
  using assms(2)
proof (induction rule: net_run.induct)
  case start
  show ?case
    by (simp add: net_init_def named_ok_def traced_def udp_init_def bridge_init_def udp_ok_def tasks_ok_def table_ok_def)
next
  case (step N ev N')
  then have ok: "named_ok L N" "traced C L H N" by simp_all
  show ?case
  proof (cases ev)
    case (ProgramSends E t src p)
    then show ?thesis using program_sends_kept [OF assms(1) ok, where p = p] step.hyps(2) by metis
  next
    case (ClientReceives t sends i w)
    then show ?thesis using client_receives_kept [OF ok, where t = t] step.hyps(2) by metis
  next
    case (ClientReaps c)
    then show ?thesis using client_reaps_kept [OF ok, where c = c] step.hyps(2) by metis
  next
    case (AtBridge bev)
    then show ?thesis using relay_kept [OF assms(1) ok, where ev = bev] step.hyps(2) by metis
  qed
qed

text \<open>What comes out at either end has gone in.\<close>

lemma integrity:
  assumes "aead_ok C" and "net_run C X L H N"
  shows "n < length (br_heap (nt_bridge N)) \<Longrightarrow> bridge_key N n \<in> set H \<Longrightarrow>
      sn_dest_writer (br_heap (nt_bridge N) ! n) = w \<Longrightarrow> (w, p) \<in> set (br_written (nt_bridge N)) \<Longrightarrow>
      (\<forall>m < length (br_heap (nt_bridge N)). sn_dest_writer (br_heap (nt_bridge N) ! m) = w \<longrightarrow> m = n) \<Longrightarrow>
      \<exists>q i. p = take i q \<and> genuine N (bridge_key N n) q"
    and "(src, p) \<in> set (uf_local (nt_client N)) \<Longrightarrow>
      \<exists>sid < length (uf_heap (nt_client N)). nt_owner N ! sid = ls_key L src
        \<and> (client_key N sid \<in> set H \<longrightarrow> genuine N (client_key N sid) p)"
proof -
  have traced: "traced C L H N"
    using net_run_traced [OF assms] by simp
  show "(src, p) \<in> set (uf_local (nt_client N)) \<Longrightarrow>
      \<exists>sid < length (uf_heap (nt_client N)). nt_owner N ! sid = ls_key L src
        \<and> (client_key N sid \<in> set H \<longrightarrow> genuine N (client_key N sid) p)"
    using traced unfolding traced_def to_program_def by fastforce
  assume n: "n < length (br_heap (nt_bridge N))" "bridge_key N n \<in> set H"
    "sn_dest_writer (br_heap (nt_bridge N) ! n) = w" "(w, p) \<in> set (br_written (nt_bridge N))"
    "\<forall>m < length (br_heap (nt_bridge N)). sn_dest_writer (br_heap (nt_bridge N) ! m) = w \<longrightarrow> m = n"
  then have "to_dest H N (w, p)"
    using traced unfolding traced_def by blast
  then show "\<exists>q i. p = take i q \<and> genuine N (bridge_key N n) q"
    using n unfolding to_dest_def prod.case by metis
qed

end

section \<open>Properties\<close>

text \<open>One exchange: a datagram goes out (and its write is cut short), an answer comes back.  The last fact
  below says that it is possible.\<close>

definition sample_exchange :: "'e \<Rightarrow> 'e net_event list" where
  "sample_exchange e =
     [ProgramSends e 10 sample_local [1, 2],
      AtBridge (Datagram sample_client (sample_syn 5) 150), AtBridge (DestOpened 0 sample_env 1000),
      AtBridge (Datagram sample_client [1] 150),
      AtBridge (Datagram sample_client (sample_data 5 1 [1, 2]) 151), AtBridge (ForwardLock 0 2000),
      AtBridge (WriteDone 0 1), AtBridge (DestRead 0 (Ok [9])), AtBridge SenderTakes, AtBridge SenderSends,
      ClientReceives 20 True 0 (sample_data 5 1 [9])]"

definition exchange_done :: "'k tunnel_net option \<Rightarrow> bool" where
  "exchange_done = (\<lambda>x. case x of None \<Rightarrow> False | Some N \<Rightarrow>
     br_written (nt_bridge N) = [(WUdp 7, [1])] \<and> uf_local (nt_client N) = [(sample_local, [9])]
   \<and> length (br_heap (nt_bridge N)) = 1 \<and> sn_dest_writer (br_heap (nt_bridge N) ! 0) = WUdp 7
   \<and> bridge_key N 0 = sample_aead_key \<and> length (uf_heap (nt_client N)) = 1 \<and> client_key N 0 = sample_aead_key)"

lemma exchange_ends:
  assumes "exchange_done (net_exec C X L H evs net_init)"
  obtains N where "net_run C X L H N"
    and "br_written (nt_bridge N) = [(WUdp 7, [1])]" and "uf_local (nt_client N) = [(sample_local, [9])]"
    and "length (br_heap (nt_bridge N)) = 1" and "sn_dest_writer (br_heap (nt_bridge N) ! 0) = WUdp 7"
    and "bridge_key N 0 = sample_aead_key" and "length (uf_heap (nt_client N)) = 1"
    and "client_key N 0 = sample_aead_key"
proof -
  obtain N where N: "net_exec C X L H evs net_init = Some N" and fin: "exchange_done (Some N)"
    using assms by (cases "net_exec C X L H evs net_init") (auto simp: exchange_done_def)
  show thesis
    by (rule that [OF net_exec_run [OF N net_run.start]]) (use fin in \<open>simp_all add: exchange_done_def\<close>)
qed

lemma rule_exchange:
  "exchange_done (net_exec toy sample_ctx (rule_listener toy sample_rule) [sample_aead_key]
     (sample_exchange (sample_tunnel_env 5)) net_init)"
  by code_simp

definition sample_dns_flow :: flows where
  "sample_dns_flow = [(5000, \<lparr>fe_orig_dst_ip = 0x08080808, fe_orig_dst_port = 53,
     fe_redirect_target = sample_target, fe_last_seen = 5\<rparr>)]"

lemma smart_exchange:
  "exchange_done (net_exec toy sample_ctx (smart_listener toy sample_exit) [sample_aead_key]
     (sample_exchange (sample_tunnel_env 5, Some sample_dns_flow)) net_init)"
  by code_simp

text \<open>C3: The bytes that come out of a tunnel are bytes that went into it.  Whatever the network does short
  of forging, and however the relay's tasks interleave: every write to the socket of a session whose key
  only the two ends hold is a prefix of a payload that a local program sent through a client session of that key,
  or (reflected) that was read back for a bridge session of it; and every datagram handed to a local
  program whose session has such a key is one of these, for a session opened for that very program.\<close>

theorem end_to_end_integrity:
  assumes "aead_ok C" and "net_run C X (rule_listener C r) H N"
  shows "(\<forall>n w p. n < length (br_heap (nt_bridge N)) \<and> bridge_key N n \<in> set H
        \<and> sn_dest_writer (br_heap (nt_bridge N) ! n) = w \<and> (w, p) \<in> set (br_written (nt_bridge N))
        \<and> (\<forall>m < length (br_heap (nt_bridge N)). sn_dest_writer (br_heap (nt_bridge N) ! m) = w \<longrightarrow> m = n) \<longrightarrow>
        (\<exists>q i. p = take i q \<and> (asked_under N (bridge_key N n) q \<or> answered_under N (bridge_key N n) q)))
    \<and> (\<forall>(src, p) \<in> set (uf_local (nt_client N)). \<exists>sid < length (uf_heap (nt_client N)). nt_owner N ! sid = src
        \<and> (client_key N sid \<in> set H \<longrightarrow> asked_under N (client_key N sid) p \<or> answered_under N (client_key N sid) p))"
proof (intro conjI allI impI)
  fix n w p
  assume "n < length (br_heap (nt_bridge N)) \<and> bridge_key N n \<in> set H
      \<and> sn_dest_writer (br_heap (nt_bridge N) ! n) = w \<and> (w, p) \<in> set (br_written (nt_bridge N))
      \<and> (\<forall>m < length (br_heap (nt_bridge N)). sn_dest_writer (br_heap (nt_bridge N) ! m) = w \<longrightarrow> m = n)"
  then show "\<exists>q i. p = take i q \<and> (asked_under N (bridge_key N n) q \<or> answered_under N (bridge_key N n) q)"
    using rule_listens.integrity(1) [OF assms, of n w p] unfolding genuine_def by blast
next
  show "\<forall>(src, p) \<in> set (uf_local (nt_client N)). \<exists>sid < length (uf_heap (nt_client N)). nt_owner N ! sid = src
        \<and> (client_key N sid \<in> set H \<longrightarrow> asked_under N (client_key N sid) p \<or> answered_under N (client_key N sid) p)"
    using rule_listens.integrity(2) [OF assms] by (auto simp: genuine_def rule_listener_def)
qed

theorem end_to_end_integrity_witness:
  "\<exists>N q. net_run toy sample_ctx (rule_listener toy sample_rule) [sample_aead_key] N
    \<and> [1] = take 1 q \<and> (asked_under N sample_aead_key q \<or> answered_under N sample_aead_key q)
    \<and> (asked_under N sample_aead_key [9] \<or> answered_under N sample_aead_key [9])"
proof (rule exchange_ends [OF rule_exchange])
  fix N
  assume run: "net_run toy sample_ctx (rule_listener toy sample_rule) [sample_aead_key] N"
    and ends: "br_written (nt_bridge N) = [(WUdp 7, [1])]" "uf_local (nt_client N) = [(sample_local, [9])]"
      "length (br_heap (nt_bridge N)) = 1" "sn_dest_writer (br_heap (nt_bridge N) ! 0) = WUdp 7"
      "bridge_key N 0 = sample_aead_key" "length (uf_heap (nt_client N)) = 1" "client_key N 0 = sample_aead_key"
  note both = end_to_end_integrity [OF toy_aead run]
  obtain q i where q: "[1] = take i q" "asked_under N sample_aead_key q \<or> answered_under N sample_aead_key q"
    using conjunct1 [OF both, rule_format, of 0 "WUdp 7" "[1]"] ends by auto
  have "take 1 q = [1]"
    using q(1) by (cases q; cases i) auto
  moreover have "asked_under N sample_aead_key [9] \<or> answered_under N sample_aead_key [9]"
    using conjunct2 [OF both] ends by auto
  ultimately show ?thesis
    using run q(2) by metis
qed

text \<open>C32: The same holds for a smart listener, except that its sessions belong to local ports: what is handed to
  a program comes from a session opened for its port, and what is written is what some program sent from
  the session's port.\<close>

theorem smart_end_to_end_integrity:
  assumes "aead_ok C" and "net_run C X (smart_listener C b) H N"
  shows "(\<forall>n w p. n < length (br_heap (nt_bridge N)) \<and> bridge_key N n \<in> set H
        \<and> sn_dest_writer (br_heap (nt_bridge N) ! n) = w \<and> (w, p) \<in> set (br_written (nt_bridge N))
        \<and> (\<forall>m < length (br_heap (nt_bridge N)). sn_dest_writer (br_heap (nt_bridge N) ! m) = w \<longrightarrow> m = n) \<longrightarrow>
        (\<exists>q i. p = take i q \<and> (asked_under N (bridge_key N n) q \<or> answered_under N (bridge_key N n) q)))
    \<and> (\<forall>(src, p) \<in> set (uf_local (nt_client N)). \<exists>sid < length (uf_heap (nt_client N)). nt_owner N ! sid = sa_port src
        \<and> (client_key N sid \<in> set H \<longrightarrow> asked_under N (client_key N sid) p \<or> answered_under N (client_key N sid) p))"
proof (intro conjI allI impI)
  fix n w p
  assume "n < length (br_heap (nt_bridge N)) \<and> bridge_key N n \<in> set H
      \<and> sn_dest_writer (br_heap (nt_bridge N) ! n) = w \<and> (w, p) \<in> set (br_written (nt_bridge N))
      \<and> (\<forall>m < length (br_heap (nt_bridge N)). sn_dest_writer (br_heap (nt_bridge N) ! m) = w \<longrightarrow> m = n)"
  then show "\<exists>q i. p = take i q \<and> (asked_under N (bridge_key N n) q \<or> answered_under N (bridge_key N n) q)"
    using smart_listens.integrity(1) [OF assms, of n w p] unfolding genuine_def by blast
next
  show "\<forall>(src, p) \<in> set (uf_local (nt_client N)). \<exists>sid < length (uf_heap (nt_client N)). nt_owner N ! sid = sa_port src
        \<and> (client_key N sid \<in> set H \<longrightarrow> asked_under N (client_key N sid) p \<or> answered_under N (client_key N sid) p)"
    using smart_listens.integrity(2) [OF assms] by (auto simp: genuine_def smart_listener_def)
qed

theorem smart_end_to_end_integrity_witness:
  "\<exists>N q. net_run toy sample_ctx (smart_listener toy sample_exit) [sample_aead_key] N
    \<and> [1] = take 1 q \<and> (asked_under N sample_aead_key q \<or> answered_under N sample_aead_key q)
    \<and> (asked_under N sample_aead_key [9] \<or> answered_under N sample_aead_key [9])"
proof (rule exchange_ends [OF smart_exchange])
  fix N
  assume run: "net_run toy sample_ctx (smart_listener toy sample_exit) [sample_aead_key] N"
    and ends: "br_written (nt_bridge N) = [(WUdp 7, [1])]" "uf_local (nt_client N) = [(sample_local, [9])]"
      "length (br_heap (nt_bridge N)) = 1" "sn_dest_writer (br_heap (nt_bridge N) ! 0) = WUdp 7"
      "bridge_key N 0 = sample_aead_key" "length (uf_heap (nt_client N)) = 1" "client_key N 0 = sample_aead_key"
  note both = smart_end_to_end_integrity [OF toy_aead run]
  obtain q i where q: "[1] = take i q" "asked_under N sample_aead_key q \<or> answered_under N sample_aead_key q"
    using conjunct1 [OF both, rule_format, of 0 "WUdp 7" "[1]"] ends by auto
  have "take 1 q = [1]"
    using q(1) by (cases q; cases i) auto
  moreover have "asked_under N sample_aead_key [9] \<or> answered_under N sample_aead_key [9]"
    using conjunct2 [OF both] ends by auto
  ultimately show ?thesis
    using run q(2) by metis
qed

end
