(* ===== verification/Lp_Backend.thy ===== *)
theory Lp_Backend
  imports Lp_Bridge
begin

text \<open>
  The backend service (\<open>crates/gr-backend\<close>): the signed bridge directory (\<open>directory.rs\<close>), the
  service's state (\<open>state.rs\<close>) and its HTTP handlers (\<open>routes.rs\<close>).  JSON (\<open>serde_json\<close>) and the
  date arithmetic of \<open>chrono\<close> are parameters; times are nanoseconds since the epoch for the
  directory and Unix seconds (\<open>i64\<close>) for the tokens, as in the code.
\<close>

section \<open>The bridge directory\<close>

record directory_entry =
  di_id :: string
  di_name :: string
  di_region :: string
  di_zone :: string
  di_endpoint :: sock_addr
  di_pubkey_hex :: string
  di_game_zones :: "string list"
  di_enabled :: bool

record bridge_directory =
  bd_version :: u32
  bd_issued_at :: int
  bd_expires_at :: int
  bd_bridges :: "directory_entry list"

record signed_directory =
  sd_payload_b64 :: string
  sd_signature_b64 :: string

datatype directory_error =
  DBase64 string
| DBadSignatureLength nat
| DBadSignature
| DJson string

text \<open>
  \<open>serde_json\<close> on directories.  What is relied on of a directory: it can be written, and reading
  what was written gives it back.
\<close>

record json =
  js_to_vec :: "bridge_directory \<Rightarrow> (bytes, string) rs"
  js_from_slice :: "bytes \<Rightarrow> (bridge_directory, string) rs"

definition json_ok :: "json \<Rightarrow> bridge_directory \<Rightarrow> bool" where
  "json_ok J d \<longleftrightarrow> (\<exists>bs. js_to_vec J d = Ok bs \<and> js_from_slice J bs = Ok d)"

definition directory_sign :: "crypto \<Rightarrow> json \<Rightarrow> bridge_directory \<Rightarrow> bytes \<Rightarrow> (signed_directory, string) rs" where
  "directory_sign C J directory key =
     rs_bind (js_to_vec J directory) (\<lambda>payload.
     let signature = ed_sign C key payload in
     Ok \<lparr>sd_payload_b64 = b64_encode C payload, sd_signature_b64 = b64_encode C signature\<rparr>)"

definition directory_verify ::
  "crypto \<Rightarrow> json \<Rightarrow> signed_directory \<Rightarrow> bytes \<Rightarrow> (bridge_directory, directory_error) rs" where
  "directory_verify C J sd backend_pubkey =
     rs_bind (rs_map_err DBase64 (b64_decode C (sd_payload_b64 sd))) (\<lambda>payload.
     rs_bind (rs_map_err DBase64 (b64_decode C (sd_signature_b64 sd))) (\<lambda>sig_bytes.
     if length sig_bytes \<noteq> 64 then Err (DBadSignatureLength (length sig_bytes))
     else if \<not> ed_verify C backend_pubkey payload sig_bytes then Err DBadSignature
     else rs_map_err DJson (js_from_slice J payload)))"

section \<open>Service state\<close>

record backend_config =
  bk_listen :: sock_addr
  bk_backend_seckey_hex :: string
  bk_bridges :: "directory_entry list"
  bk_token_ttl_secs :: u64
  bk_directory_ttl_secs :: u64

definition default_token_ttl :: u64 where "default_token_ttl = 7 * 24 * 60 * 60"
definition default_directory_ttl :: u64 where "default_directory_ttl = 30 * 60"

record app_state =
  as_config :: backend_config
  as_config_path :: string
  as_signing_key :: bytes
  as_verifying_key :: bytes
  as_next_user_id :: u32

datatype state_error = StateHex string | StateKeyLength

definition app_state_new :: "crypto \<Rightarrow> backend_config \<Rightarrow> string \<Rightarrow> (app_state, state_error) rs" where
  "app_state_new C config config_path =
     rs_bind (rs_map_err StateHex (hex_decode C (bk_backend_seckey_hex config))) (\<lambda>key_bytes.
     if length key_bytes \<noteq> 32 then Err StateKeyLength
     else Ok \<lparr>as_config = config, as_config_path = config_path, as_signing_key = key_bytes,
              as_verifying_key = ed_public C key_bytes, as_next_user_id = 1\<rparr>)"

datatype app_error = Internal string | BadRequest string

text \<open>\<open>issue_user_id\<close>: the overflow check panics before the counter is written.\<close>

definition issue_user_id :: "app_state \<Rightarrow> (u32, app_error) rs \<times> app_state" where
  "issue_user_id S =
     (let i = as_next_user_id S in
      if i = - 1 then (Panic, S) else (Ok i, S\<lparr>as_next_user_id := i + 1\<rparr>))"

section \<open>Handlers\<close>

datatype http_method = GET | POST
datatype endpoint = Index | Health | Info | Bridges | Signup

definition routes :: "((http_method \<times> string) \<times> endpoint) list" where
  "routes = [((GET, ''/''), Index), ((GET, ''/v1/health''), Health), ((GET, ''/v1/info''), Info),
     ((GET, ''/v1/bridges''), Bridges), ((POST, ''/v1/signup''), Signup)]"

definition index_body :: string where
  "index_body = ''lowping backend '' @ [CHR 0xE2, CHR 0x80, CHR 0x94]
     @ '' see https://github.com/twitchbionx/lowping for client / docs'' @ [CHR 0x0A]"

definition health_body :: string where "health_body = ''ok''"

record info_response =
  ir_service :: string
  ir_backend_pubkey_hex :: string
  ir_supported_scopes :: "string list"

definition info_handler :: "crypto \<Rightarrow> app_state \<Rightarrow> info_response" where
  "info_handler C S = \<lparr>ir_service = ''lowping-backend'', ir_backend_pubkey_hex = hex_encode C (as_verifying_key S),
     ir_supported_scopes = [''any-bridge'']\<rparr>"

text \<open>\<open>add_seconds t s\<close> is \<open>t + Duration::seconds(s)\<close>; chrono panics where it is \<open>None\<close>.\<close>

definition bridges_handler ::
  "crypto \<Rightarrow> json \<Rightarrow> (int \<Rightarrow> i64 \<Rightarrow> int option) \<Rightarrow> int \<Rightarrow> app_state \<Rightarrow> (signed_directory, app_error) rs" where
  "bridges_handler C J add_seconds t S =
     (let cfg = as_config S in
      rs_bind (expect (add_seconds t (bk_directory_ttl_secs cfg))) (\<lambda>expires.
      let directory = \<lparr>bd_version = 1, bd_issued_at = t, bd_expires_at = expires,
                       bd_bridges = filter di_enabled (bk_bridges cfg)\<rparr> in
      rs_map_err Internal (directory_sign C J directory (as_signing_key S))))"

text \<open>
  Addition of \<open>i64\<close>: a build with overflow checks (the dev profile) panics, one without (the
  release profile) wraps.
\<close>

definition add_i64 :: "bool \<Rightarrow> i64 \<Rightarrow> i64 \<Rightarrow> (i64, 'e) rs" where
  "add_i64 checks a b =
     (if checks \<and> sint (a + b) \<noteq> sint a + sint b then Panic else Ok (a + b))"

record signup_response =
  sr_user_id :: u32
  sr_license_token :: string
  sr_expires_at_unix :: i64

text \<open>\<open>cfg.token_ttl_secs as i64\<close> keeps the 64 bits.\<close>

definition signup :: "bool \<Rightarrow> crypto \<Rightarrow> i64 \<Rightarrow> app_state \<Rightarrow> (signup_response, app_error) rs \<times> app_state" where
  "signup checks C now_ts S =
     (case issue_user_id S of
        (Ok user_id, S) \<Rightarrow>
          (rs_bind (add_i64 checks now_ts (bk_token_ttl_secs (as_config S))) (\<lambda>expires.
           let payload = \<lparr>lp_user_id = user_id, lp_issued_at = now_ts, lp_expires_at = expires, lp_scope = 1\<rparr>;
               token = token_sign C payload (as_signing_key S)
           in Ok \<lparr>sr_user_id = user_id, sr_license_token = token_to_string_b64 C token,
                  sr_expires_at_unix = lp_expires_at payload\<rparr>), S)
      | (Err e, S) \<Rightarrow> (Err e, S)
      | (Panic, S) \<Rightarrow> (Panic, S))"

text \<open>\<open>IntoResponse for AppError\<close>: the status and the body.\<close>

fun into_response :: "app_error \<Rightarrow> nat \<times> string" where
  "into_response (Internal m) = (500, m)"
| "into_response (BadRequest m) = (400, m)"

section \<open>Signed directories\<close>

lemma directory_sign_Ok:
  assumes "json_ok J d"
  obtains payload where "js_to_vec J d = Ok payload" and "js_from_slice J payload = Ok d"
    and "directory_sign C J d key = Ok \<lparr>sd_payload_b64 = b64_encode C payload,
           sd_signature_b64 = b64_encode C (ed_sign C key payload)\<rparr>"
  using assms that by (auto simp: json_ok_def directory_sign_def)

lemma directory_verify_signed:
  assumes "json_ok J d" and "ed_ok C" and "b64_ok C" and "length key = 32" and "directory_sign C J d key = Ok sd"
  shows "directory_verify C J sd (ed_public C key) = Ok d"
proof -
  obtain payload where "js_from_slice J payload = Ok d"
    and "directory_sign C J d key = Ok \<lparr>sd_payload_b64 = b64_encode C payload,
           sd_signature_b64 = b64_encode C (ed_sign C key payload)\<rparr>"
    by (rule directory_sign_Ok [OF assms(1)])
  then show ?thesis
    using assms(5) ed_verify_sign [OF assms(2,4)] length_ed_sign [OF assms(2)] assms(3)
    by (auto simp: directory_verify_def b64_ok_def)
qed

text \<open>A state made by \<open>app_state_new\<close>: its keys belong together.\<close>

definition state_ok :: "crypto \<Rightarrow> app_state \<Rightarrow> bool" where
  "state_ok C S \<longleftrightarrow> length (as_signing_key S) = 32 \<and> as_verifying_key S = ed_public C (as_signing_key S)"

lemma app_state_new_ok: "app_state_new C cfg path = Ok S \<Longrightarrow> state_ok C S \<and> as_config S = cfg \<and> as_next_user_id S = 1"
  by (auto simp: app_state_new_def state_ok_def split: if_splits)

section \<open>Signing up\<close>

lemma signup_Ok:
  "fst (signup checks C t S) = Ok r \<longleftrightarrow>
     as_next_user_id S \<noteq> - 1 \<and> sr_user_id r = as_next_user_id S
     \<and> add_i64 checks t (bk_token_ttl_secs (as_config S)) = (Ok (sr_expires_at_unix r) :: (i64, app_error) rs)
     \<and> sr_license_token r = token_to_string_b64 C (token_sign C
          \<lparr>lp_user_id = as_next_user_id S, lp_issued_at = t, lp_expires_at = sr_expires_at_unix r, lp_scope = 1\<rparr>
          (as_signing_key S))"
  by (cases r) (auto simp: signup_def issue_user_id_def Let_def)

lemma signup_state:
  "snd (signup checks C t S) = (if as_next_user_id S = - 1 then S else S\<lparr>as_next_user_id := as_next_user_id S + 1\<rparr>)"
  by (simp add: signup_def issue_user_id_def Let_def)

lemma add_i64_Ok: "add_i64 checks a b = Ok c \<Longrightarrow> c = a + b"
  by (simp add: add_i64_def split: if_splits)

lemma word_less_next: "a \<noteq> - 1 \<Longrightarrow> a < a + 1" for a :: u32
proof -
  assume "a \<noteq> - 1"
  then have "1 + a \<noteq> 0" by (simp add: add.commute eq_neg_iff_add_eq_0)
  from unatSuc [OF this] show "a < a + 1" by (simp add: word_less_nat_alt add.commute)
qed

lemma sint_plus: "sint (a + b) = signed_take_bit 63 (sint a + sint b)" for a b :: i64
  using sint_word_ariths(1) [of a b] by simp

lemma sint_plus_exact: "- (2 ^ 63) \<le> sint a + sint b \<Longrightarrow> sint a + sint b < 2 ^ 63 \<Longrightarrow> sint (a + b) = sint a + sint b"
  for a b :: i64
  unfolding sint_plus by (rule signed_take_bit_int_eq_self)

lemma overlong_sum:
  fixes t ttl :: i64
  assumes "0 \<le> sint t" and "2 ^ 63 \<le> sint t + uint ttl"
  shows "sint (t + ttl) < sint t"
proof -
  have t: "sint t < 2 ^ 63" and l: "- (2 ^ 63) \<le> sint ttl" "sint ttl < 2 ^ 63"
    using sint_lt [of t] sint_lt [of ttl] sint_ge [of ttl] by simp_all
  have u: "uint ttl = sint ttl mod 2 ^ 64"
    using uint_sint [of ttl] by (simp only: take_bit_eq_mod) simp
  have shift: "sint (t + ttl) = (sint t + sint ttl + 2 ^ 63) mod 2 ^ 64 - 2 ^ 63"
    by (simp only: sint_plus signed_take_bit_eq_take_bit_shift take_bit_eq_mod) simp
  show ?thesis
  proof (cases "0 \<le> sint ttl")
    case True
    then have "uint ttl = sint ttl" using u l by simp
    then have "(sint t + sint ttl + 2 ^ 63) mod 2 ^ 64 = sint t + sint ttl + 2 ^ 63 - 2 ^ 64"
      using assms t l by (subst minus_mod_self2 [symmetric]) (simp add: mod_pos_pos_trivial)
    then show ?thesis using shift l by simp
  next
    case False
    then have "(sint t + sint ttl + 2 ^ 63) mod 2 ^ 64 = sint t + sint ttl + 2 ^ 63"
      using assms(1) t l by (intro mod_pos_pos_trivial) auto
    then show ?thesis using shift False by simp
  qed
qed

text \<open>Handling a sequence of sign-ups: the answers, and the state they leave.\<close>

fun signups :: "bool \<Rightarrow> crypto \<Rightarrow> i64 list \<Rightarrow> app_state \<Rightarrow> (signup_response, app_error) rs list \<times> app_state" where
  "signups checks C [] S = ([], S)"
| "signups checks C (t # ts) S =
     (let (r, S') = signup checks C t S; (rs, S'') = signups checks C ts S' in (r # rs, S''))"

definition issued_ids :: "(signup_response, app_error) rs list \<Rightarrow> u32 list" where
  "issued_ids rs = concat (map (\<lambda>r. case r of Ok x \<Rightarrow> [sr_user_id x] | _ \<Rightarrow> []) rs)"

lemma issued_ids_increase:
  "sorted_wrt (<) (issued_ids (fst (signups checks C ts S)))
   \<and> (\<forall>i \<in> set (issued_ids (fst (signups checks C ts S))). as_next_user_id S \<le> i \<and> i \<noteq> - 1)"
proof (induction ts arbitrary: S)
  case Nil
  then show ?case by (simp add: issued_ids_def)
next
  case (Cons t ts)
  let ?S = "snd (signup checks C t S)" and ?n = "as_next_user_id S"
  have split: "issued_ids (fst (signups checks C (t # ts) S)) =
      (case fst (signup checks C t S) of Ok x \<Rightarrow> [sr_user_id x] | _ \<Rightarrow> []) @ issued_ids (fst (signups checks C ts ?S))"
    by (simp add: Let_def split_def issued_ids_def)
  show ?case
  proof (cases "?n = - 1")
    case True
    then have "fst (signup checks C t S) = Panic" and "?S = S"
      by (simp_all add: signup_def issue_user_id_def)
    then show ?thesis unfolding split using Cons.IH [of S] by simp
  next
    case False
    then have next_id: "as_next_user_id ?S = ?n + 1"
      by (simp add: signup_state)
    have less: "?n < ?n + 1"
      by (rule word_less_next [OF False])
    have id: "sr_user_id x = ?n" if "fst (signup checks C t S) = Ok x" for x
      using that by (simp add: signup_Ok)
    have above: "?n < i \<and> i \<noteq> - 1" if "i \<in> set (issued_ids (fst (signups checks C ts ?S)))" for i
      using that Cons.IH [of ?S] less unfolding next_id by auto
    show ?thesis
      unfolding split
      using Cons.IH [of ?S] above id False
      by (cases "fst (signup checks C t S)") (auto intro: less_imp_le)
  qed
qed

lemma signup_licensed:
  assumes "ed_ok C" and "b64_ok C" and "state_ok C S" and "fst (signup checks C t S) = Ok r"
    and "sint t + sint (bk_token_ttl_secs (as_config S)) < 2 ^ 63" and "0 \<le> sint t" and "0 \<le> sint (bk_token_ttl_secs (as_config S))"
    and "bx_backend_pubkey X = as_verifying_key S"
  shows "\<exists>token. token_from_string_b64 C (sr_license_token r) = Ok token
    \<and> (licensed C X t' token \<longleftrightarrow> sint t \<le> sint t' \<and> sint t' < sint t + sint (bk_token_ttl_secs (as_config S)))"
proof -
  let ?ttl = "bk_token_ttl_secs (as_config S)"
  let ?p = "\<lparr>lp_user_id = as_next_user_id S, lp_issued_at = t, lp_expires_at = sr_expires_at_unix r, lp_scope = 1\<rparr>"
  have r: "sr_expires_at_unix r = t + ?ttl" "sr_license_token r = token_to_string_b64 C (token_sign C ?p (as_signing_key S))"
    using assms(4) add_i64_Ok unfolding signup_Ok by auto
  have ex: "sint (t + ?ttl) = sint t + sint ?ttl"
    by (rule sint_plus_exact) (use assms(5-7) in auto)
  have "token_from_string_b64 C (sr_license_token r) = Ok (token_sign C ?p (as_signing_key S))"
    unfolding r(2) by (rule token_string_roundtrip [OF assms(2) token_sign_wf [OF assms(1)]])
  moreover have "licensed C X t' (token_sign C ?p (as_signing_key S)) \<longleftrightarrow> sint t \<le> sint t' \<and> sint t' < sint t + sint ?ttl"
    using token_verify_signed [OF assms(1), of "as_signing_key S" ?p t'] assms(3,8) r(1) ex
    by (simp add: licensed_def state_ok_def token_sign_def)
  ultimately show ?thesis by blast
qed

section \<open>Properties\<close>

text \<open>C36: A client can trust the directory it is served: the answer of \<open>GET /v1/bridges\<close> verifies
  under the backend's public key, the one \<open>GET /v1/info\<close> names, and decodes to exactly the enabled
  bridges of the configuration, in their order, with the issue time and the configured lifetime.\<close>

theorem served_directory_verifies:
  fixes t expires :: int and cfg :: backend_config
  defines "d \<equiv> \<lparr>bd_version = 1, bd_issued_at = t, bd_expires_at = expires, bd_bridges = filter di_enabled (bk_bridges cfg)\<rparr>"
  assumes "json_ok J d" and "ed_ok C" and "b64_ok C" and "hex_ok C"
    and "app_state_new C cfg path = Ok S" and "add_seconds t (bk_directory_ttl_secs cfg) = Some expires"
  shows "\<exists>sd pk. bridges_handler C J add_seconds t S = Ok sd
    \<and> hex_decode C (ir_backend_pubkey_hex (info_handler C S)) = Ok pk
    \<and> directory_verify C J sd pk = Ok d"
proof -
  have S: "length (as_signing_key S) = 32" "as_verifying_key S = ed_public C (as_signing_key S)" "as_config S = cfg"
    using app_state_new_ok [OF assms(6)] by (auto simp: state_ok_def)
  obtain sd where sd: "directory_sign C J d (as_signing_key S) = Ok sd"
    using directory_sign_Ok [OF assms(2)] by metis
  then show ?thesis
    using directory_verify_signed [OF assms(2-4) S(1) sd] assms(5,7) S
    by (simp add: bridges_handler_def info_handler_def hex_ok_def d_def)
qed

text \<open>No directory without a signature: whatever a client decodes from an answer is the content of
  a payload that the key it trusts has signed; a wrong signature, or one not of 64 bytes, is an error.\<close>

theorem directory_verify_sound:
  assumes "directory_verify C J sd pk = Ok d"
  shows "\<exists>payload signature. b64_decode C (sd_payload_b64 sd) = Ok payload \<and> js_from_slice J payload = Ok d
    \<and> b64_decode C (sd_signature_b64 sd) = Ok signature \<and> length signature = 64 \<and> ed_verify C pk payload signature"
  using assms by (auto simp: directory_verify_def split: if_splits)

text \<open>A token from the backend opens the bridges: the token string a sign-up answers with parses,
  and a bridge configured with the backend's public key finds it licensed at exactly the times from
  its issue to its expiry, which lies the configured lifetime later (when that does not overflow).\<close>

theorem signup_token_licensed:
  assumes "ed_ok C" and "b64_ok C" and "state_ok C S" and "fst (signup checks C t S) = Ok r"
    and "sint t + sint (bk_token_ttl_secs (as_config S)) < 2 ^ 63" and "0 \<le> sint t" and "0 \<le> sint (bk_token_ttl_secs (as_config S))"
    and "bx_backend_pubkey X = as_verifying_key S"
  shows "\<exists>token. token_from_string_b64 C (sr_license_token r) = Ok token
    \<and> (licensed C X t' token \<longleftrightarrow> sint t \<le> sint t' \<and> sint t' < sint t + sint (bk_token_ttl_secs (as_config S)))"
  using assms by (rule signup_licensed)

text \<open>No two sign-ups share a user id: over any sequence of sign-ups, at whatever times and even
  past the point where the 32-bit counter is used up (each further one then panics), the ids handed
  out are strictly increasing, start at the state's next id, and never include the last \<open>u32\<close>.\<close>

theorem user_ids_unique:
  "sorted_wrt (<) (issued_ids (fst (signups checks C ts S)))
   \<and> (\<forall>i \<in> set (issued_ids (fst (signups checks C ts S))). as_next_user_id S \<le> i \<and> i \<noteq> 0xFFFFFFFF)"
proof -
  have "(- 1 :: u32) = 0xFFFFFFFF" by simp
  then show ?thesis using issued_ids_increase [of checks C ts S] by metis
qed

text \<open>A lifetime configured too long gives tokens that are never valid.  When issue time plus
  lifetime passes the largest \<open>i64\<close>, a build without overflow checks answers with a token every bridge
  rejects at every time, and one with checks panics or does the same.\<close>

theorem overlong_ttl_kills_tokens:
  assumes "ed_ok C" and "state_ok C S" and "0 \<le> sint t"
    and "2 ^ 63 \<le> sint t + uint (bk_token_ttl_secs (as_config S))"
  shows "case fst (signup checks C t S) of
      Ok r \<Rightarrow> sint (sr_expires_at_unix r) < sint t
        \<and> (\<forall>t'. token_verify C (token_sign C \<lparr>lp_user_id = sr_user_id r, lp_issued_at = t,
               lp_expires_at = sr_expires_at_unix r, lp_scope = 1\<rparr> (as_signing_key S)) (as_verifying_key S) t' \<noteq> Ok ())
    | Err _ \<Rightarrow> False
    | Panic \<Rightarrow> checks \<or> as_next_user_id S = - 1"
proof -
  let ?ttl = "bk_token_ttl_secs (as_config S)"
  have "sint t < 2 ^ 63" using sint_lt [of t] by simp
  then have dead: "sint (t + ?ttl) < sint t"
    using overlong_sum [OF assms(3,4)] by simp
  show ?thesis
  proof (cases "fst (signup checks C t S)")
    case (Ok r)
    then have "sr_expires_at_unix r = t + ?ttl" using add_i64_Ok unfolding signup_Ok by auto
    then show ?thesis
      using Ok dead token_verify_signed [OF assms(1)] assms(2) by (auto simp: state_ok_def)
  next
    case (Err e)
    then show ?thesis
      by (auto simp: signup_def issue_user_id_def Let_def add_i64_def split: if_splits)
  next
    case Panic
    then show ?thesis
      by (auto simp: signup_def issue_user_id_def Let_def add_i64_def split: if_splits)
  qed
qed

section \<open>A sample backend\<close>

definition sample_entry :: "bool \<Rightarrow> directory_entry" where
  "sample_entry enabled = \<lparr>di_id = ''dal-1'', di_name = ''Dallas'', di_region = ''NA'', di_zone = ''NAC'',
     di_endpoint = sock_addr_new (V4 0xCB007101) 51820, di_pubkey_hex = ''ab'', di_game_zones = [''fortnite-NAC''],
     di_enabled = enabled\<rparr>"

text \<open>Not JSON: the version and the two times are written, and one enabled bridge is read back.\<close>

definition toy_json :: json where
  "toy_json = \<lparr>
     js_to_vec = (\<lambda>d. Ok (to_be_bytes (bd_version d) @ to_be_bytes (word_of_int (bd_issued_at d) :: u64)
       @ to_be_bytes (word_of_int (bd_expires_at d) :: u64))),
     js_from_slice = (\<lambda>bs. Ok \<lparr>bd_version = from_be_bytes (take 4 bs),
       bd_issued_at = uint (from_be_bytes (take 8 (drop 4 bs)) :: u64),
       bd_expires_at = uint (from_be_bytes (drop 12 bs) :: u64), bd_bridges = [sample_entry True]\<rparr>)\<rparr>"

definition sample_backend_config :: "u64 \<Rightarrow> backend_config" where
  "sample_backend_config ttl = \<lparr>bk_listen = sock_addr_new localhost 8080,
     bk_backend_seckey_hex = hex_encode toy (replicate 32 5), bk_bridges = [sample_entry False, sample_entry True],
     bk_token_ttl_secs = ttl, bk_directory_ttl_secs = default_directory_ttl\<rparr>"

definition sample_state :: "u64 \<Rightarrow> app_state" where
  "sample_state ttl = \<lparr>as_config = sample_backend_config ttl, as_config_path = ''backend.toml'',
     as_signing_key = replicate 32 5, as_verifying_key = replicate 32 5, as_next_user_id = 1\<rparr>"

definition sample_add_seconds :: "int \<Rightarrow> i64 \<Rightarrow> int option" where
  "sample_add_seconds t s = Some (t + 1000000000 * sint s)"

lemma sample_state_new: "app_state_new toy (sample_backend_config ttl) ''backend.toml'' = Ok (sample_state ttl)"
  using toy_hex by (simp add: app_state_new_def sample_backend_config_def hex_ok_def sample_state_def) (simp add: toy_def)

lemma sample_state_ok: "state_ok toy (sample_state ttl)"
  by (simp add: state_ok_def sample_state_def toy_def)

theorem served_directory_verifies_witness:
  "\<exists>sd pk. bridges_handler toy toy_json sample_add_seconds 1000 (sample_state 604800) = Ok sd
    \<and> hex_decode toy (ir_backend_pubkey_hex (info_handler toy (sample_state 604800))) = Ok pk
    \<and> directory_verify toy toy_json sd pk = Ok \<lparr>bd_version = 1, bd_issued_at = 1000,
         bd_expires_at = 1800000001000, bd_bridges = [sample_entry True]\<rparr>"
proof -
  have bridges: "filter di_enabled (bk_bridges (sample_backend_config 604800)) = [sample_entry True]"
    by (simp add: sample_backend_config_def sample_entry_def)
  have js: "json_ok toy_json \<lparr>bd_version = 1, bd_issued_at = 1000, bd_expires_at = 1800000001000,
      bd_bridges = filter di_enabled (bk_bridges (sample_backend_config 604800))\<rparr>"
    unfolding bridges by (simp add: json_ok_def toy_json_def)
  have "sample_add_seconds 1000 (bk_directory_ttl_secs (sample_backend_config 604800)) = Some 1800000001000"
    by (simp add: sample_add_seconds_def sample_backend_config_def default_directory_ttl_def)
  from served_directory_verifies [where cfg = "sample_backend_config 604800" and add_seconds = sample_add_seconds,
      OF js toy_ed toy_b64 toy_hex sample_state_new this] show ?thesis
    unfolding bridges .
qed

theorem directory_verify_sound_witness:
  "\<exists>payload signature. b64_decode toy (b64_encode toy [1]) = Ok payload
    \<and> b64_decode toy (b64_encode toy (ed_sign toy (replicate 32 5) [1])) = Ok signature
    \<and> length signature = 64 \<and> ed_verify toy (replicate 32 5) payload signature"
proof -
  let ?sd = "\<lparr>sd_payload_b64 = b64_encode toy [1], sd_signature_b64 = b64_encode toy (ed_sign toy (replicate 32 5) [1])\<rparr>"
  have "case directory_verify toy toy_json ?sd (replicate 32 5) of Ok _ \<Rightarrow> True | _ \<Rightarrow> False" by code_simp
  then obtain d where "directory_verify toy toy_json ?sd (replicate 32 5) = Ok d" by (auto split: rs.splits)
  from directory_verify_sound [OF this] show ?thesis by auto
qed

lemma sample_signup: "\<exists>r. fst (signup checks toy 1700000000 (sample_state 604800)) = Ok r"
  by (simp add: signup_def issue_user_id_def sample_state_def sample_backend_config_def add_i64_def Let_def)

theorem signup_token_licensed_witness:
  "\<exists>r token. fst (signup True toy 1700000000 (sample_state 604800)) = Ok r
    \<and> token_from_string_b64 toy (sr_license_token r) = Ok token
    \<and> licensed toy sample_ctx 1700604799 token \<and> \<not> licensed toy sample_ctx 1700604800 token"
proof -
  obtain r where r: "fst (signup True toy 1700000000 (sample_state 604800)) = Ok r"
    using sample_signup by blast
  have ttl: "bk_token_ttl_secs (as_config (sample_state 604800)) = 604800"
    by (simp add: sample_state_def sample_backend_config_def)
  have x: "bx_backend_pubkey sample_ctx = as_verifying_key (sample_state 604800)"
    by (simp add: sample_ctx_def sample_state_def)
  note issued = signup_token_licensed [OF toy_ed toy_b64 sample_state_ok r _ _ _ x, unfolded ttl]
  show ?thesis
    using issued [of 1700604799] issued [of 1700604800] r by auto
qed

theorem overlong_ttl_kills_tokens_witness:
  "case fst (signup False toy 1700000000 (sample_state 0x8000000000000000)) of
      Ok r \<Rightarrow> sint (sr_expires_at_unix r) < sint (1700000000 :: i64)
    | Err _ \<Rightarrow> False
    | Panic \<Rightarrow> False"
proof -
  have "2 ^ 63 \<le> sint (1700000000 :: i64) + uint (bk_token_ttl_secs (as_config (sample_state 0x8000000000000000)))"
    by (simp add: sample_state_def sample_backend_config_def)
  from overlong_ttl_kills_tokens [OF toy_ed sample_state_ok _ this, of False] show ?thesis
    by (auto simp: sample_state_def split: rs.splits)
qed

end
