(* ===== verification/Lp_Tui.thy ===== *)
theory Lp_Tui
  imports Lp_Smart
begin

text \<open>
  The dashboard (\<open>crates/gr-client/src/tui.rs\<close>, Windows build): what each panel shows of the router
  and the capture, and the loop that redraws it and waits for a key.  The terminal library draws
  texts with styles; a panel is the texts and styles the code hands it, and the terminal is the
  sequence of calls made to it, whose outcomes are arguments.  Column widths and the placement of
  the panels are the library's business, except for the height the code reads back.
\<close>

section \<open>Formatting\<close>

text \<open>\<open>{:5.1}\<close> of an \<open>f64\<close>: one decimal, rounded half to even on the exact value, padded on the left
  to five characters.  (The model has no negative zero.)\<close>

definition show_fixed1 :: "f64 \<Rightarrow> string" where
  "show_fixed1 x =
     (case x of
        Fin r \<Rightarrow>
          let n = nat (round_half_even (\<bar>r\<bar> * 10)) in
          (if r < 0 then ''-'' else '''') @ show_nat (n div 10) @ ''.'' @ show_nat (n mod 10)
      | PosInf \<Rightarrow> ''inf''
      | NegInf \<Rightarrow> ''-inf''
      | NaN \<Rightarrow> ''NaN'')"

definition pad_left :: "nat \<Rightarrow> string \<Rightarrow> string" where
  "pad_left w s = replicate (w - length s) (CHR 0x20) @ s"

definition is_finite :: "f64 \<Rightarrow> bool" where
  "is_finite x = (case x of Fin _ \<Rightarrow> True | _ \<Rightarrow> False)"

text \<open>\<open>Display\<close> of \<open>SocketAddr\<close>: the longest run of at least two zero groups of an IPv6 address (the
  first, if several are longest) is written \<open>::\<close>, and IPv4-mapped addresses end in dotted form.\<close>

definition hex_digit :: "nat \<Rightarrow> char" where
  "hex_digit d = (if d < 10 then char_of (48 + d) else char_of (87 + d))"

fun show_hex :: "nat \<Rightarrow> string" where
  "show_hex n = (if n < 16 then [hex_digit n] else show_hex (n div 16) @ [hex_digit (n mod 16)])"

declare show_hex.simps [simp del]

definition segments :: "u128 \<Rightarrow> u16 list" where
  "segments a = map (\<lambda>i. ucast (drop_bit (112 - 16 * i) a)) [0..<8]"

fun zero_run :: "nat \<Rightarrow> u16 list \<Rightarrow> nat \<times> nat \<Rightarrow> nat \<times> nat \<Rightarrow> nat \<times> nat" where
  "zero_run i [] current longest = longest"
| "zero_run i (s # ss) current longest =
     (if s = 0
      then let start = (if snd current = 0 then i else fst current);
               current = (start, snd current + 1);
               longest = (if snd longest < snd current then current else longest)
           in zero_run (Suc i) ss current longest
      else zero_run (Suc i) ss (0, 0) longest)"

definition show_groups :: "u16 list \<Rightarrow> string" where
  "show_groups ss = join '':'' (map (\<lambda>s. show_hex (unat s)) ss)"

definition show_ipv6 :: "u128 \<Rightarrow> string" where
  "show_ipv6 a =
     (let ss = segments a in
      if take 6 ss = [0, 0, 0, 0, 0, 0xFFFF] then ''::ffff:'' @ show_ipv4 (ucast a)
      else case zero_run 0 ss (0, 0) (0, 0) of
             (start, n) \<Rightarrow>
               if 1 < n then show_groups (take start ss) @ ''::'' @ show_groups (drop (start + n) ss)
               else show_groups ss)"

definition show_sock_addr :: "sock_addr \<Rightarrow> string" where
  "show_sock_addr a =
     (case sa_ip a of V4 v4 \<Rightarrow> show_ipv4 v4 | V6 v6 \<Rightarrow> ''['' @ show_ipv6 v6 @ '']'')
       @ '':'' @ show_nat (unat (sa_port a))"

section \<open>Styled text\<close>

datatype color = Black | Red | Green | Yellow | Magenta | Cyan | Gray | DarkGray | White

text \<open>The styling calls made on a text, in order; \<open>Restyle\<close> is a call that sets a whole style on a
  text already styled.\<close>

datatype style_op = Fg color | Bg color | Bold | Dim | Restyle "style_op list"

type_synonym span = "string \<times> style_op list"

record table =
  tb_title :: span
  tb_header :: "span list"
  tb_rows :: "span list list"

record dashboard =
  da_header :: "span list"
  da_bridges :: table
  da_decisions :: table
  da_stats :: "span \<times> span list list"
  da_footer :: "span list"

text \<open>The arrow and the multiplication sign, as the UTF-8 bytes of the source's strings.\<close>

definition arrow :: string where "arrow = [CHR 0xE2, CHR 0x86, CHR 0x92]"

definition times_sign :: string where "times_sign = [CHR 0xC3, CHR 0x97]"

section \<open>The panels\<close>

definition draw_header :: "span list" where
  "draw_header =
     [('' lowping '', [Bg Cyan, Fg Black, Bold]),
      ('' live route picker '', [Dim])]"

definition draw_footer :: "span list" where
  "draw_footer =
     [('' q '', [Bg DarkGray, Fg White]), ('' quit  '', []),
      ('' updates 4'' @ times_sign @ ''/sec '', [Fg DarkGray])]"

definition rtt_cell :: "f64 option \<Rightarrow> span" where
  "rtt_cell rtt =
     ((case rtt of Some r \<Rightarrow> pad_left 5 (show_fixed1 r) @ '' ms'' | None \<Rightarrow> ''  --   ''),
      (case rtt of
         Some r \<Rightarrow> if f64_lt r (Fin 30) then [Fg Green] else if f64_lt r (Fin 60) then [Fg Yellow] else [Fg Red]
       | None \<Rightarrow> [Fg DarkGray]))"

definition bridge_row :: "(string, f64) hmap \<Rightarrow> bridge_entry \<Rightarrow> span list" where
  "bridge_row pings b =
     [(be_name b, [Bold]),
      (show_sock_addr (be_endpoint b), []),
      rtt_cell (hm_get pings (be_name b)),
      ('':'' @ show_nat (unat (be_listen_port b)), [Fg DarkGray])]"

definition draw_bridges :: "router \<Rightarrow> table" where
  "draw_bridges R =
     \<lparr>tb_title = ('' bridges '', [Fg Cyan, Bold]),
      tb_header = [(''name'', [Bold]), (''endpoint'', [Bold]),
        (''client'' @ arrow @ ''bridge'', [Bold, Restyle [Fg Cyan]]), (''listen'', [Bold])],
      tb_rows = map (bridge_row (client_rtt_snapshot R)) (rt_bridges R)\<rparr>"

definition age_text :: "int \<Rightarrow> string" where
  "age_text age =
     (let s = nat (age div 1000000000) in
      if age < secs 60 then show_nat s @ ''s''
      else if age < secs 3600 then show_nat (s div 60) @ ''m''
      else show_nat (s div 3600) @ ''h'')"

definition rtt_text :: "f64 \<Rightarrow> string" where
  "rtt_text x = (if is_finite x then pad_left 5 (show_fixed1 x) @ ''ms'' else ''  --  '')"

text \<open>\<open>Instant::elapsed\<close> is zero, not negative, for an instant that lies ahead.\<close>

definition elapsed :: "instant \<Rightarrow> instant \<Rightarrow> int" where
  "elapsed t0 t = max 0 (t - t0)"

definition decision_row :: "instant \<Rightarrow> decision_log \<Rightarrow> span list" where
  "decision_row t d =
     [(age_text (elapsed (dl_at d) t), [Fg DarkGray]),
      (show_sock_addr (dl_dest d), []),
      (case dl_region d of Some r \<Rightarrow> r | None \<Rightarrow> ''-'', [Fg Magenta]),
      (rtt_text (dl_direct_rtt_ms d), []),
      (rtt_text (dl_via_bridge_rtt_ms d), []),
      (case dl_route d of
         Direct \<Rightarrow> (''direct'', [Fg Gray])
       | ViaBridge _ \<Rightarrow>
           (arrow @ '' '' @ (case dl_bridge_name d of Some n \<Rightarrow> n | None \<Rightarrow> ''''), [Fg Green, Bold]))]"

definition draw_decisions :: "instant \<Rightarrow> u16 \<Rightarrow> router \<Rightarrow> table" where
  "draw_decisions t h R =
     (let recent = recent_decisions R (unat h - 3) in
      \<lparr>tb_title = ('' route decisions ('' @ show_nat (cache_size R) @ '' cached, ''
          @ show_nat (length recent) @ '' recent) '', [Fg Cyan, Bold]),
       tb_header = [(''when'', [Bold]), (''destination'', [Bold]), (''region'', [Bold]),
         (''direct'', [Bold]), (''via bridge'', [Bold]), (arrow @ '' route'', [Bold])],
       tb_rows = map (decision_row t) recent\<rparr>)"

definition draw_stats :: "'r capture option \<Rightarrow> span \<times> span list list" where
  "draw_stats capture =
     (let stats = (case capture of
            Some S \<Rightarrow> capture_stats S
          | None \<Rightarrow> \<lparr>st_outbound_redirected = 0, st_inbound_rewritten = 0, st_dropped_unparseable = 0,
                      st_active_flows = 0\<rparr>) in
      (('' capture stats '', [Fg Cyan, Bold]),
       [[(''outbound rewrites: '', []), (show_nat (unat (st_outbound_redirected stats)), [Fg Green, Bold]),
         (''    inbound rewrites: '', []), (show_nat (unat (st_inbound_rewritten stats)), [Fg Green, Bold])],
        [(''dropped (unparseable): '', []), (show_nat (unat (st_dropped_unparseable stats)), [Fg Yellow]),
         (''    active flows: '', []), (show_nat (unat (st_active_flows stats)), [Fg Cyan, Bold])],
        [(''capture: '', []),
         (if capture \<noteq> None then (''ARMED'', [Fg Green, Bold]) else (''not started'', [Fg Red]))]]))"

definition draw_dashboard :: "instant \<Rightarrow> u16 \<Rightarrow> router \<Rightarrow> 'r capture option \<Rightarrow> dashboard" where
  "draw_dashboard t h R capture =
     \<lparr>da_header = draw_header, da_bridges = draw_bridges R, da_decisions = draw_decisions t h R,
      da_stats = draw_stats capture, da_footer = draw_footer\<rparr>"

section \<open>The loop\<close>

datatype key_code = KChar char | KEsc | KOther
datatype key_kind = Press | Repeat | Release
datatype term_event = Key key_code key_kind | OtherEvent

text \<open>
  One turn of the loop as the outside world makes it: the router and capture as they are when it
  draws, the height of the decisions panel, the outcome of drawing, the clock when the timeout is
  computed, what polling (and reading) gives within that timeout, and the clock afterwards.
\<close>

record 'r tui_turn =
  tu_router :: router
  tu_capture :: "'r capture option"
  tu_height :: u16
  tu_drawn_at :: instant
  tu_draw :: "(unit, string) rs"
  tu_polled_at :: instant
  tu_event :: "(term_event option, string) rs"
  tu_checked_at :: instant
  tu_tick_at :: instant

datatype tty_call =
  EnableRaw | EnterAlternate | NewTerminal | Draw dashboard | Poll int | DisableRaw | LeaveAlternate | ShowCursor

definition tick_rate :: int where "tick_rate = 250000000"

definition poll_timeout :: "instant \<Rightarrow> instant \<Rightarrow> int" where
  "poll_timeout last_tick t =
     (if elapsed last_tick t \<le> tick_rate then tick_rate - elapsed last_tick t else 0)"

fun quits :: "term_event option \<Rightarrow> bool" where
  "quits (Some (Key code Press)) = (code = KChar (CHR 0x71) \<or> code = KEsc)"
| "quits _ = False"

text \<open>A call to the terminal that may fail, and what follows when it does not.\<close>

definition tty_do ::
  "tty_call \<Rightarrow> (unit, string) rs \<Rightarrow> tty_call list \<times> (unit, string) rs option \<Rightarrow> tty_call list \<times> (unit, string) rs option" where
  "tty_do c r rest =
     (case r of
        Ok _ \<Rightarrow> (c # fst rest, snd rest)
      | Err e \<Rightarrow> ([c], Some (Err e))
      | Panic \<Rightarrow> ([c], Some Panic))"

text \<open>\<open>run_loop\<close>: the calls made and the result, \<open>None\<close> while it is still running.\<close>

fun run_loop :: "instant \<Rightarrow> 'r tui_turn list \<Rightarrow> tty_call list \<times> (unit, string) rs option" where
  "run_loop last_tick [] = ([], None)"
| "run_loop last_tick (u # us) =
     tty_do (Draw (draw_dashboard (tu_drawn_at u) (tu_height u) (tu_router u) (tu_capture u))) (tu_draw u)
       (let timeout = poll_timeout last_tick (tu_polled_at u) in
        case tu_event u of
          Err e \<Rightarrow> ([Poll timeout], Some (Err e))
        | Panic \<Rightarrow> ([Poll timeout], Some Panic)
        | Ok ev \<Rightarrow>
            if quits ev then ([Poll timeout], Some (Ok ()))
            else
              let last_tick = (if tick_rate \<le> elapsed last_tick (tu_checked_at u) then tu_tick_at u else last_tick);
                  (calls, result) = run_loop last_tick us
              in (Poll timeout # calls, result))"

record tui_env =
  ue_enable_raw :: "(unit, string) rs"
  ue_enter_alternate :: "(unit, string) rs"
  ue_new_terminal :: "(unit, string) rs"
  ue_disable_raw :: "(unit, string) rs"
  ue_leave_alternate :: "(unit, string) rs"
  ue_show_cursor :: "(unit, string) rs"

definition tui_run :: "tui_env \<Rightarrow> instant \<Rightarrow> 'r tui_turn list \<Rightarrow> tty_call list \<times> (unit, string) rs option" where
  "tui_run E t us =
     tty_do EnableRaw (ue_enable_raw E)
       (tty_do EnterAlternate (ue_enter_alternate E)
         (tty_do NewTerminal (ue_new_terminal E)
           (case run_loop t us of
              (calls, None) \<Rightarrow> (calls, None)
            | (calls, Some Panic) \<Rightarrow> (calls, Some Panic)
            | (calls, Some result) \<Rightarrow>
                let (calls', r) =
                  tty_do DisableRaw (ue_disable_raw E)
                    (tty_do LeaveAlternate (ue_leave_alternate E)
                      (tty_do ShowCursor (ue_show_cursor E) ([], Some result)))
                in (calls @ calls', r))))"

section \<open>Properties\<close>

lemma poll_timeout_bounds: "0 \<le> poll_timeout t0 t \<and> poll_timeout t0 t \<le> tick_rate"
  by (simp add: poll_timeout_def elapsed_def tick_rate_def)

lemma tty_do_Ok [simp]: "tty_do c (Ok u) rest = (c # fst rest, snd rest)"
  by (simp add: tty_do_def)

lemma tty_do_result: "snd (tty_do c r rest) = (case r of Ok _ \<Rightarrow> snd rest | Err e \<Rightarrow> Some (Err e) | Panic \<Rightarrow> Some Panic)"
  by (simp add: tty_do_def split: rs.split)

lemma quits_iff: "quits ev \<longleftrightarrow> (\<exists>code. ev = Some (Key code Press) \<and> code \<in> {KChar (CHR 0x71), KEsc})"
  by (cases ev rule: quits.cases) auto

lemma tty_do_calls: "x \<in> set (fst (tty_do c r rest)) \<Longrightarrow> x = c \<or> x \<in> set (fst rest)"
  by (auto simp: tty_do_def split: rs.splits)

text \<open>The loop draws and polls, nothing else, and never waits longer than a tick.\<close>

lemma run_loop_calls:
  "x \<in> set (fst (run_loop t us)) \<Longrightarrow> (\<exists>d. x = Draw d) \<or> (\<exists>w. x = Poll w \<and> 0 \<le> w \<and> w \<le> tick_rate)"
proof (induction t us rule: run_loop.induct)
  case (2 t u us)
  from tty_do_calls [OF 2(2) [unfolded run_loop.simps]] show ?case
    using 2(1) poll_timeout_bounds [of t "tu_polled_at u"]
    by (auto simp: Let_def split_beta split: rs.splits if_splits)
qed simp

lemma tui_run_calls:
  assumes "x \<in> set (fst (tui_run E t us))"
  shows "x \<in> {EnableRaw, EnterAlternate, NewTerminal, DisableRaw, LeaveAlternate, ShowCursor} \<or> x \<in> set (fst (run_loop t us))"
  using assms
  by (auto simp: tui_run_def split_beta split: option.splits rs.splits dest!: tty_do_calls)

lemma tui_run_restores:
  assumes "ue_enable_raw E = Ok ()" and "ue_enter_alternate E = Ok ()" and "ue_new_terminal E = Ok ()"
    and "ue_disable_raw E = Ok ()" and "ue_leave_alternate E = Ok ()" and "ue_show_cursor E = Ok ()"
    and "run_loop t us = (calls', Some r)" and "r \<noteq> Panic"
  shows "tui_run E t us =
    ([EnableRaw, EnterAlternate, NewTerminal] @ calls' @ [DisableRaw, LeaveAlternate, ShowCursor], Some r)"
  unfolding tui_run_def assms(1-6) using assms(7,8) by (cases r) (simp_all add: Let_def)

lemma tui_run_runs:
  "ue_enable_raw E = Ok () \<Longrightarrow> ue_enter_alternate E = Ok () \<Longrightarrow> ue_new_terminal E = Ok () \<Longrightarrow>
     run_loop t us = (calls', None) \<Longrightarrow> snd (tui_run E t us) = None"
  by (simp add: tui_run_def)

text \<open>A turn after which the loop goes on.\<close>

definition goes_on :: "'r tui_turn \<Rightarrow> bool" where
  "goes_on u \<longleftrightarrow> tu_draw u = Ok () \<and> (\<exists>ev. tu_event u = Ok ev \<and> \<not> quits ev)"

definition next_tick :: "instant \<Rightarrow> 'r tui_turn \<Rightarrow> instant" where
  "next_tick t u = (if tick_rate \<le> elapsed t (tu_checked_at u) then tu_tick_at u else t)"

lemma run_loop_goes_on: "goes_on u \<Longrightarrow> snd (run_loop t (u # us)) = snd (run_loop (next_tick t u) us)"
  by (auto simp: goes_on_def next_tick_def Let_def split_beta)

lemma run_loop_stops:
  "\<not> goes_on u \<Longrightarrow> snd (run_loop t (u # us)) = Some (Ok ()) \<longleftrightarrow>
     tu_draw u = Ok () \<and> (\<exists>ev. tu_event u = Ok ev \<and> quits ev)"
  by (cases "tu_draw u"; cases "tu_event u") (auto simp: goes_on_def tty_do_result Let_def)

lemma run_loop_skip: "\<forall>v \<in> set pre. goes_on v \<Longrightarrow> \<exists>t'. snd (run_loop t (pre @ us)) = snd (run_loop t' us)"
proof (induction pre arbitrary: t)
  case (Cons v pre)
  then show ?case
    using run_loop_goes_on [of v t "pre @ us"] by simp
qed auto

text \<open>C40: The dashboard ends when it is told to, and only then: its loop returns without error exactly at
  the first turn whose event is a press (not a repeat or a release) of q or Esc, provided drawing and
  polling have worked until then; after any other input it is still running or has failed.\<close>

theorem dashboard_quits:
  "snd (run_loop t us) = Some (Ok ()) \<longleftrightarrow>
     (\<exists>pre u post code. us = pre @ u # post \<and> (\<forall>v \<in> set pre. goes_on v) \<and> tu_draw u = Ok ()
        \<and> tu_event u = Ok (Some (Key code Press)) \<and> code \<in> {KChar (CHR 0x71), KEsc})"
proof
  assume "snd (run_loop t us) = Some (Ok ())"
  then show "\<exists>pre u post code. us = pre @ u # post \<and> (\<forall>v \<in> set pre. goes_on v) \<and> tu_draw u = Ok ()
        \<and> tu_event u = Ok (Some (Key code Press)) \<and> code \<in> {KChar (CHR 0x71), KEsc}"
  proof (induction us arbitrary: t)
    case (Cons u us)
    show ?case
    proof (cases "goes_on u")
      case False
      then have "tu_draw u = Ok ()" "\<exists>ev. tu_event u = Ok ev \<and> quits ev"
        using Cons.prems run_loop_stops by blast+
      then show ?thesis
        by (intro exI [of _ "[]"] exI [of _ u] exI [of _ us]) (auto simp: quits_iff)
    next
      case True
      then have "snd (run_loop (next_tick t u) us) = Some (Ok ())"
        using Cons.prems run_loop_goes_on by metis
      from Cons.IH [OF this] obtain pre v post code where "us = pre @ v # post" "\<forall>v \<in> set pre. goes_on v"
        "tu_draw v = Ok ()" "tu_event v = Ok (Some (Key code Press))" "code \<in> {KChar (CHR 0x71), KEsc}"
        by blast
      with True show ?thesis
        by (intro exI [of _ "u # pre"] exI [of _ v] exI [of _ post] exI [of _ code]) auto
    qed
  qed simp
next
  assume "\<exists>pre u post code. us = pre @ u # post \<and> (\<forall>v \<in> set pre. goes_on v) \<and> tu_draw u = Ok ()
        \<and> tu_event u = Ok (Some (Key code Press)) \<and> code \<in> {KChar (CHR 0x71), KEsc}"
  then obtain pre u post code where us: "us = pre @ u # post" "\<forall>v \<in> set pre. goes_on v" "tu_draw u = Ok ()"
    "tu_event u = Ok (Some (Key code Press))" "code \<in> {KChar (CHR 0x71), KEsc}"
    by blast
  obtain t' where "snd (run_loop t us) = snd (run_loop t' (u # post))"
    using run_loop_skip [OF us(2), of t "u # post"] us(1) by auto
  moreover have "quits (Some (Key code Press))"
    using us(5) by (simp add: quits_iff)
  ultimately show "snd (run_loop t us) = Some (Ok ())"
    using us(3,4) by (simp add: Let_def)
qed

text \<open>The terminal is given back.  Once the dashboard's loop has started, then however it ends (told to
  quit, or an error while drawing or polling; not a panic) raw mode and the alternate screen are left,
  in this order, provided those calls work, and the loop's own result is passed on; no wait for a key
  is longer than a quarter of a second.  When setting up fails after raw mode has been switched on,
  it is not switched off again.\<close>

theorem terminal_given_back:
  assumes "tui_run E t us = (calls, Some r)" and "ue_enable_raw E = Ok ()"
  shows "(ue_enter_alternate E = Ok () \<and> ue_new_terminal E = Ok () \<longrightarrow>
      (\<exists>calls' r'. run_loop t us = (calls', Some r')
        \<and> (r' \<noteq> Panic \<longrightarrow> ue_disable_raw E = Ok () \<and> ue_leave_alternate E = Ok () \<and> ue_show_cursor E = Ok () \<longrightarrow>
            r = r' \<and> calls = [EnableRaw, EnterAlternate, NewTerminal] @ calls' @ [DisableRaw, LeaveAlternate, ShowCursor])))
    \<and> (\<forall>e. ue_enter_alternate E = Err e \<or> ue_enter_alternate E = Ok () \<and> ue_new_terminal E = Err e \<longrightarrow>
          r = Err e \<and> DisableRaw \<notin> set calls)
    \<and> (\<forall>w. Poll w \<in> set calls \<longrightarrow> 0 \<le> w \<and> w \<le> 250000000)"
proof (intro conjI allI impI)
  assume up: "ue_enter_alternate E = Ok () \<and> ue_new_terminal E = Ok ()"
  obtain calls' res where loop: "run_loop t us = (calls', res)" by fastforce
  then obtain r' where r': "res = Some r'"
    using tui_run_runs [OF assms(2), of t us calls'] up assms(1) by (cases res) auto
  then show "\<exists>calls' r'. run_loop t us = (calls', Some r')
        \<and> (r' \<noteq> Panic \<longrightarrow> ue_disable_raw E = Ok () \<and> ue_leave_alternate E = Ok () \<and> ue_show_cursor E = Ok () \<longrightarrow>
            r = r' \<and> calls = [EnableRaw, EnterAlternate, NewTerminal] @ calls' @ [DisableRaw, LeaveAlternate, ShowCursor])"
    using loop tui_run_restores [OF assms(2), of t us calls' r'] up assms(1) by auto
next
  fix e
  assume "ue_enter_alternate E = Err e \<or> ue_enter_alternate E = Ok () \<and> ue_new_terminal E = Err e"
  then show "r = Err e" and "DisableRaw \<notin> set calls"
    using assms by (auto simp: tui_run_def tty_do_def)
next
  fix w
  assume "Poll w \<in> set calls"
  then have "Poll w \<in> set (fst (run_loop t us))"
    using tui_run_calls [of "Poll w" E t us] assms(1) by simp
  then show "0 \<le> w" and "w \<le> 250000000"
    using run_loop_calls [of "Poll w" t us] by (auto simp: tick_rate_def)
qed

text \<open>The decisions panel is up to date: right after the router has decided afresh, and for a minute,
  the panel's first row shows that decision (its age in seconds, the destination, its region, the
  direct time it was compared with, and the route, by the bridge's name), above the earlier ones, in
  no more rows than fit.\<close>

theorem dashboard_shows_latest:
  assumes "pick_fresh t dest d R = Ok (r, R')" and "3 < unat h" and "t \<le> t'" and "t' - t < secs 60"
  shows "\<exists>rgn via rest. tb_rows (draw_decisions t' h R') =
      [(show_nat (nat ((t' - t) div 1000000000)) @ ''s'', [Fg DarkGray]),
       (show_sock_addr dest, []),
       (case rgn of Some x \<Rightarrow> x | None \<Rightarrow> ''-'', [Fg Magenta]),
       (rtt_text d, []), (via, []),
       (case r of Direct \<Rightarrow> (''direct'', [Fg Gray])
        | ViaBridge i \<Rightarrow> (arrow @ '' '' @ be_name (rt_bridges R ! i), [Fg Green, Bold]))] # rest
    \<and> region_for (rt_aws R) (sa_ip dest) = (Ok rgn :: (string option, unit) rs)
    \<and> length (tb_rows (draw_decisions t' h R')) \<le> unat h - 3"
proof -
  obtain rgn via where rgn: "region_for (rt_aws R) (sa_ip dest) = (Ok rgn :: (string option, unit) rs)"
    and R': "R' = R\<lparr>rt_cache := hm_insert (sa_ip dest)
                    \<lparr>dc_route = r, dc_decided_at = t, dc_direct_rtt_ms = d, dc_via_bridge_rtt_ms = via\<rparr> (rt_cache R),
                rt_recent := push_recent (rt_recent_capacity R)
                    \<lparr>dl_at = t, dl_dest = dest, dl_region = rgn, dl_direct_rtt_ms = d, dl_via_bridge_rtt_ms = via,
                     dl_route = r, dl_bridge_name = (case r of ViaBridge i \<Rightarrow> Some (be_name (rt_bridges R ! i)) | Direct \<Rightarrow> None)\<rparr>
                    (rt_recent R)\<rparr>"
    using assms(1) unfolding pick_fresh_Ok by blast
  obtain m where m: "unat h - 3 = Suc m"
    using assms(2) by (metis Suc_diff_Suc)
  let ?l = "\<lparr>dl_at = t, dl_dest = dest, dl_region = rgn, dl_direct_rtt_ms = d, dl_via_bridge_rtt_ms = via,
      dl_route = r, dl_bridge_name = (case r of ViaBridge i \<Rightarrow> Some (be_name (rt_bridges R ! i)) | Direct \<Rightarrow> None)\<rparr>"
  obtain old where "rt_recent R' = old @ [?l]"
    unfolding R' push_recent_def by simp
  then have rows: "tb_rows (draw_decisions t' h R') = decision_row t' ?l # map (decision_row t') (take m (rev old))"
    by (simp add: draw_decisions_def recent_decisions_def m Let_def)
  have "age_text (elapsed t t') = show_nat (nat ((t' - t) div 1000000000)) @ ''s''"
    using assms(3,4) by (simp add: age_text_def elapsed_def Let_def)
  then have row: "decision_row t' ?l =
      [(show_nat (nat ((t' - t) div 1000000000)) @ ''s'', [Fg DarkGray]),
       (show_sock_addr dest, []),
       (case rgn of Some x \<Rightarrow> x | None \<Rightarrow> ''-'', [Fg Magenta]),
       (rtt_text d, []), (rtt_text via, []),
       (case r of Direct \<Rightarrow> (''direct'', [Fg Gray])
        | ViaBridge i \<Rightarrow> (arrow @ '' '' @ be_name (rt_bridges R ! i), [Fg Green, Bold]))]"
    by (simp add: decision_row_def split: route.split)
  show ?thesis
    unfolding rows row using rgn by (intro exI [of _ rgn] exI [of _ "rtt_text via"] exI) (simp add: m)
qed

section \<open>Samples\<close>

definition sample_turn :: "term_event option \<Rightarrow> unit tui_turn" where
  "sample_turn ev = \<lparr>tu_router = sample_router, tu_capture = None, tu_height = 20, tu_drawn_at = 0,
     tu_draw = Ok (), tu_polled_at = 100000000, tu_event = Ok ev, tu_checked_at = 300000000, tu_tick_at = 300000001\<rparr>"

definition sample_tty :: tui_env where
  "sample_tty = \<lparr>ue_enable_raw = Ok (), ue_enter_alternate = Ok (), ue_new_terminal = Ok (),
     ue_disable_raw = Ok (), ue_leave_alternate = Ok (), ue_show_cursor = Ok ()\<rparr>"

definition sample_turns :: "unit tui_turn list" where
  "sample_turns = [sample_turn None, sample_turn (Some (Key (KChar (CHR 0x71)) Release)), sample_turn (Some (Key KEsc Press))]"

theorem dashboard_quits_witness: "snd (run_loop 0 sample_turns) = Some (Ok ())"
  unfolding dashboard_quits sample_turns_def
  by (intro exI [of _ "[sample_turn None, sample_turn (Some (Key (KChar (CHR 0x71)) Release))]"]
      exI [of _ "sample_turn (Some (Key KEsc Press))"] exI [of _ "[]"] exI [of _ KEsc])
    (simp add: sample_turn_def goes_on_def)

theorem terminal_given_back_witness:
  "\<exists>calls'. fst (tui_run sample_tty 0 sample_turns) =
     [EnableRaw, EnterAlternate, NewTerminal] @ calls' @ [DisableRaw, LeaveAlternate, ShowCursor]"
proof -
  have loop: "snd (run_loop 0 sample_turns) = Some (Ok ())"
    by (simp add: sample_turns_def sample_turn_def Let_def split_beta)
  obtain calls' where calls': "run_loop 0 sample_turns = (calls', Some (Ok ()))"
    using loop by (metis prod.collapse)
  obtain calls where run: "tui_run sample_tty 0 sample_turns = (calls, Some (Ok ()))"
    using tui_run_restores [OF _ _ _ _ _ _ calls', of sample_tty] by (simp add: sample_tty_def)
  have "ue_enable_raw sample_tty = Ok ()" by (simp add: sample_tty_def)
  from terminal_given_back [OF run this] show ?thesis
    using run calls' by (auto simp: sample_tty_def)
qed

theorem dashboard_shows_latest_witness:
  "\<exists>R' rgn via rest. pick_fresh 0 sample_dest (Fin 60) sample_router = Ok (ViaBridge 0, R')
    \<and> tb_rows (draw_decisions 5000000000 20 R') =
      [(''5s'', [Fg DarkGray]), (show_sock_addr sample_dest, []),
       (case rgn of Some x \<Rightarrow> x | None \<Rightarrow> ''-'', [Fg Magenta]), ('' 60.0ms'', []), (via, []),
       (arrow @ '' '' @ be_name (rt_bridges sample_router ! 0), [Fg Green, Bold])] # rest"
proof -
  have "case pick_fresh 0 sample_dest (Fin 60) sample_router of Ok (r, _) \<Rightarrow> r = ViaBridge 0 | _ \<Rightarrow> False"
    by code_simp
  then obtain R' where R': "pick_fresh 0 sample_dest (Fin 60) sample_router = Ok (ViaBridge 0, R')"
    by (auto split: rs.splits)
  have "rtt_text (Fin 60) = '' 60.0ms''" and "show_nat (nat (5000000000 div 1000000000)) @ ''s'' = ''5s''"
    by code_simp+
  then show ?thesis
    using dashboard_shows_latest [OF R', of 20 5000000000] R' by (auto simp: secs_def)
qed

end
