(* ===== verification/Lp_Startup.thy ===== *)
theory Lp_Startup
  imports Lp_Smart Lp_Backend
begin

text \<open>
  How the programs start: the configuration files (\<open>gr-common/src/lib.rs\<close>, the \<open>load\<close> functions of
  \<open>gr-bridge/src/config.rs\<close> and \<open>gr-backend/src/state.rs\<close>), \<open>run\<close> of the client's \<open>forwarder.rs\<close>, and the
  entry points of the four binaries.  The TOML library is a parameter; the client is the Windows build.
\<close>

section \<open>Files\<close>

text \<open>
  What reading each path answers.  A write that fails may leave anything behind (the file is
  truncated first), so a failed outcome says what the path reads as afterwards.
\<close>

type_synonym file_system = "string \<Rightarrow> (string, string) rs"

datatype write_outcome = Written | WriteFailed string "(string, string) rs"

definition fs_write :: "write_outcome \<Rightarrow> string \<Rightarrow> string \<Rightarrow> file_system \<Rightarrow> (unit, string) rs \<times> file_system" where
  "fs_write outcome path text fs =
     (case outcome of
        Written \<Rightarrow> (Ok (), fs(path := Ok text))
      | WriteFailed e after \<Rightarrow> (Err e, fs(path := after)))"

record 'a toml =
  tm_from_str :: "string \<Rightarrow> ('a, string) rs"
  tm_to_string_pretty :: "'a \<Rightarrow> (string, string) rs"

text \<open>\<open>toml\<close> reads back what it has written.\<close>

definition toml_ok :: "'a toml \<Rightarrow> 'a \<Rightarrow> bool" where
  "toml_ok T c \<longleftrightarrow> (\<forall>s. tm_to_string_pretty T c = Ok s \<longrightarrow> tm_from_str T s = Ok c)"

datatype config_error = CfIo string | CfToml string | CfTomlSer string

text \<open>The body all four \<open>load\<close> functions share.\<close>

definition load_config :: "'a toml \<Rightarrow> file_system \<Rightarrow> string \<Rightarrow> ('a, config_error) rs" where
  "load_config T fs path =
     rs_bind (rs_map_err CfIo (fs path)) (\<lambda>text.
     rs_map_err CfToml (tm_from_str T text))"

section \<open>The shared configuration types\<close>

text \<open>The \<open>f32\<close> below is only stored; its values are among those of \<open>f64\<close>.\<close>

type_synonym f32 = f64

record known_bridge =
  kb_name :: string
  kb_endpoint :: sock_addr
  kb_bridge_pubkey_hex :: string
  kb_client_seckey_hex :: string
  kb_region :: "string option"
  kb_enabled :: bool

definition default_true :: bool where "default_true = True"

record client_config =
  cg_bridges :: "known_bridge list"
  cg_fec_ratio :: f32
  cg_paths :: u8
  cg_ipc_pipe :: string

definition default_paths :: u8 where "default_paths = 1"

definition default_pipe :: string where "default_pipe = [CHR 0x5C, CHR 0x5C] @ ''.'' @ [CHR 0x5C] @ ''pipe'' @ [CHR 0x5C] @ ''lowping''"

definition client_config_default :: client_config where
  "client_config_default =
     \<lparr>cg_bridges = [], cg_fec_ratio = Fin 0, cg_paths = 1, cg_ipc_pipe = default_pipe\<rparr>"

record bridge_server_config =
  bs_listen :: sock_addr
  bs_bridge_seckey_hex :: string
  bs_allowed_client_pubkeys :: "string list"
  bs_metrics_listen :: "sock_addr option"

definition client_config_load :: "client_config toml \<Rightarrow> file_system \<Rightarrow> string \<Rightarrow> (client_config, config_error) rs" where
  "client_config_load = load_config"

definition client_config_save ::
  "client_config toml \<Rightarrow> write_outcome \<Rightarrow> client_config \<Rightarrow> string \<Rightarrow> file_system
     \<Rightarrow> (unit, config_error) rs \<times> file_system" where
  "client_config_save T outcome cfg path fs =
     (case tm_to_string_pretty T cfg of
        Ok text \<Rightarrow> (case fs_write outcome path text fs of (r, fs) \<Rightarrow> (rs_map_err CfIo r, fs))
      | Err e \<Rightarrow> (Err (CfTomlSer e), fs)
      | Panic \<Rightarrow> (Panic, fs))"

definition bridge_server_config_load ::
  "bridge_server_config toml \<Rightarrow> file_system \<Rightarrow> string \<Rightarrow> (bridge_server_config, config_error) rs" where
  "bridge_server_config_load = load_config"

definition bridge_config_load :: "bridge_config toml \<Rightarrow> file_system \<Rightarrow> string \<Rightarrow> (bridge_config, config_error) rs" where
  "bridge_config_load = load_config"

definition backend_config_load :: "backend_config toml \<Rightarrow> file_system \<Rightarrow> string \<Rightarrow> (backend_config, config_error) rs" where
  "backend_config_load = load_config"

section \<open>The client\<close>

record forwarder_config =
  fc_rules :: "rule list"
  fc_smart_routing :: "smart_routing_config option"

datatype start_error =
  SLoad config_error
| SClient client_error
| SBridge bridge_error
| SState state_error
| SBind string

text \<open>
  What \<open>run\<close> has started when it begins to wait: smart mode, or the capture (if some rule asks for
  one) and a task per rule, each with the transport it serves or the error it ends with.
\<close>

datatype client_run =
  SmartMode smart_mode
| RuleMode "(capture_config \<times> unit resolver \<times> unit capture) option" "(rule \<times> (transport_protocol, client_error) rs) list"

definition forwarder_run ::
  "forwarder_config toml \<Rightarrow> aws_lookup \<Rightarrow> (unit, string) rs \<Rightarrow> file_system \<Rightarrow> string \<Rightarrow> sock_addr option
     \<Rightarrow> (client_run, start_error) rs" where
  "forwarder_run T aws spawn fs config_path listen_override =
     rs_bind (rs_map_err SLoad (load_config T fs config_path)) (\<lambda>cfg.
     rs_bind (rs_map_err SClient (override_listen listen_override (fc_rules cfg))) (\<lambda>rules.
     case fc_smart_routing cfg of
       Some smart_cfg \<Rightarrow>
         rs_bind (rs_map_err SClient (run_smart_mode aws spawn smart_cfg)) (\<lambda>M. Ok (SmartMode M))
     | None \<Rightarrow>
         rs_bind (rs_map_err SClient (install_capture spawn rules)) (\<lambda>capture.
         Ok (RuleMode capture (map (\<lambda>r. (r, run_rule r)) rules)))))"

record client_cli =
  cl_config :: string
  cl_listen :: "sock_addr option"
  cl_verbose :: u8
  cl_tui :: bool
  cl_log_file :: string

definition client_main ::
  "forwarder_config toml \<Rightarrow> aws_lookup \<Rightarrow> (unit, string) rs \<Rightarrow> file_system \<Rightarrow> client_cli
     \<Rightarrow> (client_run, start_error) rs" where
  "client_main T aws spawn fs cli =
     (if cl_tui cli
      then rs_bind (rs_map_err SLoad (load_config T fs (cl_config cli))) (\<lambda>cfg.
           rs_bind (rs_map_err SClient (run_with_tui aws spawn (fc_smart_routing cfg))) (\<lambda>M. Ok (SmartMode M)))
      else forwarder_run T aws spawn fs (cl_config cli) (cl_listen cli))"

section \<open>Bridge and backend\<close>

datatype command = Serve string | GenKey

datatype 's main_outcome = Printed "string list" | Serving 's

definition quoted :: "string \<Rightarrow> string" where
  "quoted s = [CHR 0x22] @ s @ [CHR 0x22]"

definition bridge_gen_key :: "crypto \<Rightarrow> bytes \<Rightarrow> string list" where
  "bridge_gen_key C random =
     (let (sk, pk) = generate_keypair C random in
      [''# add to bridge.toml:'',
       ''bridge_x25519_seckey_hex = '' @ quoted (hex_encode C sk),
       '''',
       ''# clients fetch this pubkey from the backend'' @ [CHR 0x27] @ ''s bridge directory:'',
       ''# x25519_pubkey_hex = '' @ quoted (hex_encode C pk)])"

definition bridge_serve ::
  "crypto \<Rightarrow> bridge_config toml \<Rightarrow> file_system \<Rightarrow> (unit, string) rs \<Rightarrow> string \<Rightarrow> (bridge_ctx \<times> bridge, start_error) rs" where
  "bridge_serve C T fs bind config_path =
     rs_bind (rs_map_err SLoad (bridge_config_load T fs config_path)) (\<lambda>cfg.
     rs_map_err SBridge (bridge_run_start C cfg bind))"

definition bridge_main ::
  "crypto \<Rightarrow> bridge_config toml \<Rightarrow> file_system \<Rightarrow> (unit, string) rs \<Rightarrow> bytes \<Rightarrow> command
     \<Rightarrow> ((bridge_ctx \<times> bridge) main_outcome, start_error) rs" where
  "bridge_main C T fs bind random cmd =
     (case cmd of
        Serve config \<Rightarrow> rs_bind (bridge_serve C T fs bind config) (\<lambda>s. Ok (Serving s))
      | GenKey \<Rightarrow> Ok (Printed (bridge_gen_key C random)))"

definition backend_gen_key :: "crypto \<Rightarrow> bytes \<Rightarrow> string list" where
  "backend_gen_key C random =
     [''# add to backend.toml:'',
      ''backend_seckey_hex = '' @ quoted (hex_encode C random),
      '''',
      ''# clients embed this pubkey to verify directories + tokens:'',
      ''# pubkey_hex = '' @ quoted (hex_encode C (ed_public C random))]"

definition backend_serve ::
  "crypto \<Rightarrow> backend_config toml \<Rightarrow> file_system \<Rightarrow> (unit, string) rs \<Rightarrow> string \<Rightarrow> (app_state, start_error) rs" where
  "backend_serve C T fs bind config_path =
     rs_bind (rs_map_err SLoad (backend_config_load T fs config_path)) (\<lambda>config.
     rs_bind (rs_map_err SState (app_state_new C config config_path)) (\<lambda>state.
     rs_bind (rs_map_err SBind bind) (\<lambda>_. Ok state)))"

definition backend_main ::
  "crypto \<Rightarrow> backend_config toml \<Rightarrow> file_system \<Rightarrow> (unit, string) rs \<Rightarrow> bytes \<Rightarrow> command
     \<Rightarrow> (app_state main_outcome, start_error) rs" where
  "backend_main C T fs bind random cmd =
     (case cmd of
        Serve config \<Rightarrow> rs_bind (backend_serve C T fs bind config) (\<lambda>s. Ok (Serving s))
      | GenKey \<Rightarrow> Ok (Printed (backend_gen_key C random)))"

section \<open>The command-line frontend\<close>

datatype cli_command = AddBridge string string string | ListBridges | Probe | Status

fun cli_main :: "cli_command \<Rightarrow> string list" where
  "cli_main (AddBridge name endpoint pubkey) =
     [''TODO: add bridge '' @ name @ '' at '' @ endpoint @ '' (pk='' @ pubkey @ '')'']"
| "cli_main ListBridges = [''TODO: list bridges'']"
| "cli_main Probe = [''TODO: probe bridges'']"
| "cli_main Status = [''TODO: status'']"

section \<open>Loading and saving\<close>

lemma load_config_Ok: "load_config T fs path = Ok c \<longleftrightarrow> (\<exists>text. fs path = Ok text \<and> tm_from_str T text = Ok c)"
  by (auto simp: load_config_def)

text \<open>What is saved is loaded again, other files are left alone, and a configuration that cannot be
  serialized leaves every file as it was.\<close>

lemma client_config_save_load:
  assumes "toml_ok T cfg" and "client_config_save T Written cfg path fs = (Ok (), fs')"
  shows "client_config_load T fs' path = Ok cfg" and "p \<noteq> path \<Longrightarrow> fs' p = fs p"
  using assms
  by (auto simp: client_config_save_def client_config_load_def load_config_Ok fs_write_def toml_ok_def split: rs.splits)

lemma client_config_save_unserializable:
  "client_config_save T outcome cfg path fs = (Err (CfTomlSer e), fs') \<Longrightarrow> fs' = fs"
  by (auto simp: client_config_save_def fs_write_def split: rs.splits write_outcome.splits)

section \<open>Properties\<close>

lemma quoted_inject [simp]: "quoted s = quoted t \<longleftrightarrow> s = t"
  by (simp add: quoted_def)

lemma bridge_gen_key_lines:
  "''bridge_x25519_seckey_hex = '' @ quoted s \<in> set (bridge_gen_key C r) \<longleftrightarrow> s = hex_encode C r"
  "''# x25519_pubkey_hex = '' @ quoted s \<in> set (bridge_gen_key C r) \<longleftrightarrow> s = hex_encode C (x25519_public C r)"
  by (auto simp: bridge_gen_key_def generate_keypair_def)

lemma backend_gen_key_lines:
  "''backend_seckey_hex = '' @ quoted s \<in> set (backend_gen_key C r) \<longleftrightarrow> s = hex_encode C r"
  "''# pubkey_hex = '' @ quoted s \<in> set (backend_gen_key C r) \<longleftrightarrow> s = hex_encode C (ed_public C r)"
  by (auto simp: backend_gen_key_def)


definition sample_fresh_bridge :: bridge_config where
  "sample_fresh_bridge = \<lparr>bc_listen = sock_addr_new localhost 51820,
     bc_bridge_x25519_seckey_hex = hex_encode toy (replicate 32 7),
     bc_backend_ed25519_pubkey_hex = hex_encode toy (replicate 32 9), bc_allow_any_scope = False,
     bc_max_sessions = default_max_sessions, bc_idle_timeout_secs = default_idle_timeout, bc_metrics_listen = None\<rparr>"

definition sample_fresh_backend :: backend_config where
  "sample_fresh_backend = \<lparr>bk_listen = sock_addr_new localhost 8080,
     bk_backend_seckey_hex = hex_encode toy (replicate 32 9), bk_bridges = [],
     bk_token_ttl_secs = default_token_ttl, bk_directory_ttl_secs = default_directory_ttl\<rparr>"

definition sample_files :: file_system where
  "sample_files = (\<lambda>path. if path = ''bridge.toml'' \<or> path = ''backend.toml'' then Ok '''' else Err ''not found'')"

definition sample_toml :: "'a \<Rightarrow> 'a toml" where
  "sample_toml c = \<lparr>tm_from_str = (\<lambda>_. Ok c), tm_to_string_pretty = (\<lambda>_. Ok '''')\<rparr>"


end
