(* ===== verification/Lp_Processes.thy ===== *)
theory Lp_Processes
  imports Lp_Startup
begin

text \<open>
  The processes as they run on: the bridge's receive loop (\<open>run\<close> in \<open>gr-bridge/src/server.rs\<close>), the
  client's rule tasks with the accept loop of a TCP rule and what \<open>run\<close> makes of how they end
  (\<open>gr-client/src/forwarder.rs\<close>), the blocking \<open>run_smart\<close>, and the log set-up and defaults of the binaries.
\<close>

section \<open>The bridge's receive loop\<close>

text \<open>
  One turn: the socket fails, or it gives a datagram of at most 64 KiB, which a task of its own handles.
  Here each task ends before the next datagram arrives; \<open>Lp_Bridge_System\<close> has every other schedule.
\<close>

datatype recv_turn =
  RecvFailed string
| Received bytes sock_addr i64 instant dest_env

definition spawn_handler ::
  "crypto \<Rightarrow> bridge_ctx \<Rightarrow> sock_addr \<Rightarrow> bytes \<Rightarrow> i64 \<Rightarrow> instant \<Rightarrow> dest_env \<Rightarrow> bridge \<Rightarrow> (bridge, unit) rs" where
  "spawn_handler C X peer pkt now_ts t E B =
     (case handle_packet C X E now_ts t peer pkt B of Ok B' \<Rightarrow> Ok B' | Err _ \<Rightarrow> Ok B | Panic \<Rightarrow> Panic)"

fun bridge_recv_loop :: "crypto \<Rightarrow> bridge_ctx \<Rightarrow> recv_turn list \<Rightarrow> bridge \<Rightarrow> (bridge, unit) rs" where
  "bridge_recv_loop C X [] B = Ok B"
| "bridge_recv_loop C X (RecvFailed e # turns) B = bridge_recv_loop C X turns B"
| "bridge_recv_loop C X (Received buf peer now_ts t E # turns) B =
     rs_bind (spawn_handler C X peer (take (64 * 1024) buf) now_ts t E B) (bridge_recv_loop C X turns)"

text \<open>The system calls of the sockets a handler opens may fail but do not panic.\<close>

definition sockets_ok :: "dest_env \<Rightarrow> bool" where
  "sockets_ok E \<longleftrightarrow> (\<forall>a. de_tcp_connect E a \<noteq> Some Panic) \<and> (\<forall>a. de_udp_bind E a \<noteq> Panic)
     \<and> (\<forall>s a. de_udp_connect E s a \<noteq> Panic)"

fun turn_ok :: "recv_turn \<Rightarrow> bool" where
  "turn_ok (RecvFailed e) = True"
| "turn_ok (Received buf peer now_ts t E) = sockets_ok E"

lemma handler_keeps_table:
  assumes "table_ok B" and "handle_packet C X E now_ts t peer pkt B = Ok B'"
  shows "table_ok B'"
  using assms table_ok_insert [OF assms(1)]
  by (auto simp: handle_packet_def accept_new_session_Ok accept_commit_def insert_session_def forward_data_Ok
      table_ok_update table_ok_other Let_def split: if_splits)

lemma handler_isolates:
  assumes "table_ok B" and "handle_packet C X E now_ts t peer pkt B = Ok B'" and "sk_client_addr k \<noteq> peer"
  shows "session_of B' k = session_of B k"
proof -
  have "k \<noteq> \<lparr>sk_client_addr = peer, sk_connection_id = c\<rparr>" for c
    using assms(3) by auto
  then show ?thesis
    using assms(1,2) session_of_insert [OF assms(1)] session_of_update [OF assms(1)]
    by (auto simp: handle_packet_def accept_new_session_Ok accept_commit_def forward_data_Ok Let_def
        split: if_splits)
qed

lemma spawn_handler_ok:
  assumes "hkdf_ok C" and "sockets_ok E" and "table_ok B" and "hm_len (br_sessions B) \<le> bc_max_sessions (bx_config X)"
  shows "\<exists>B'. spawn_handler C X peer pkt now_ts t E B = Ok B' \<and> table_ok B'
    \<and> hm_len (br_sessions B') \<le> bc_max_sessions (bx_config X)
    \<and> (\<forall>k. sk_client_addr k \<noteq> peer \<longrightarrow> session_of B' k = session_of B k)"
proof (cases "handle_packet C X E now_ts t peer pkt B")
  case (Ok B')
  then show ?thesis
    using handle_packet_bounded [OF assms(1) _ _ _ assms(4), of E now_ts t peer pkt] assms(2)
      handler_keeps_table [OF assms(3) Ok] handler_isolates [OF assms(3) Ok]
    by (auto simp: spawn_handler_def sockets_ok_def)
next
  case (Err e)
  then show ?thesis using assms(3,4) by (simp add: spawn_handler_def)
next
  case Panic
  then show ?thesis
    using handle_packet_bounded [OF assms(1) _ _ _ assms(4), of E now_ts t peer pkt] assms(2)
    by (auto simp: sockets_ok_def)
qed



section \<open>The bridge's reaper\<close>

text \<open>
  \<open>idle_reaper\<close>: a pass at each tick of a 30-second interval, the first at once; \<open>wakes\<close> are the readings
  of the clock after the ticks.  Nothing else happens to the sessions here.
\<close>

fun idle_reaper :: "instant \<Rightarrow> bridge_ctx \<Rightarrow> instant list \<Rightarrow> bridge \<Rightarrow> (bridge, unit) rs" where
  "idle_reaper lo X [] B = Ok B"
| "idle_reaper lo X (t # wakes) B = rs_bind (idle_reaper_round lo X t B) (idle_reaper lo X wakes)"

definition reaper_ticks :: "instant \<Rightarrow> nat \<Rightarrow> instant list" where
  "reaper_ticks t0 n = map (\<lambda>i. t0 + int i * secs 30) [0..<n]"

lemma idle_reaper_round_get:
  assumes "table_ok B" and "lo \<le> t - secs (bc_idle_timeout_secs (bx_config X))"
  obtains B' where "idle_reaper_round lo X t B = (Ok B' :: (bridge, unit) rs)" and "table_ok B'"
    and "\<And>k. \<not> session_locked B k \<Longrightarrow> session_of B' k = (case session_of B k of None \<Rightarrow> None
          | Some s \<Rightarrow> if t - sn_last_active s \<le> secs (bc_idle_timeout_secs (bx_config X)) then Some s else None)"
    and "\<And>k. \<not> session_locked B k \<Longrightarrow> \<not> session_locked B' k"
proof (rule that)
  let ?B = "reap_sessions (t - secs (bc_idle_timeout_secs (bx_config X))) B"
  show "idle_reaper_round lo X t B = (Ok ?B :: (bridge, unit) rs)"
    using assms(2) by (simp add: idle_reaper_round_def reap_cutoff_def instant_sub_def)
  show "table_ok ?B"
    by (rule session_table.wf_reap [OF assms(1)])
  fix k
  assume free: "\<not> session_locked B k"
  then show "session_of ?B k = (case session_of B k of None \<Rightarrow> None
      | Some s \<Rightarrow> if t - sn_last_active s \<le> secs (bc_idle_timeout_secs (bx_config X)) then Some s else None)"
    using session_table.get_reap [OF assms(1)] by (auto split: option.split)
  show "\<not> session_locked ?B k"
    using free assms(1)
    by (auto simp: session_locked_def reap_sessions_def reap_remove_def table_ok_def hm_get_remove_all split: if_splits)
qed

lemma idle_reaper_get:
  assumes "table_ok B" and "\<forall>t \<in> set wakes. lo \<le> t - secs (bc_idle_timeout_secs (bx_config X))" and "\<not> session_locked B k"
  shows "\<exists>B'. idle_reaper lo X wakes B = Ok B' \<and> session_of B' k = (case session_of B k of None \<Rightarrow> None
    | Some s \<Rightarrow> if \<forall>t \<in> set wakes. t - sn_last_active s \<le> secs (bc_idle_timeout_secs (bx_config X)) then Some s else None)"
  using assms
proof (induction wakes arbitrary: B)
  case (Cons t wakes)
  obtain B1 where B1: "idle_reaper_round lo X t B = (Ok B1 :: (bridge, unit) rs)" "table_ok B1"
    "session_of B1 k = (case session_of B k of None \<Rightarrow> None
       | Some s \<Rightarrow> if t - sn_last_active s \<le> secs (bc_idle_timeout_secs (bx_config X)) then Some s else None)"
    "\<not> session_locked B1 k"
    by (rule idle_reaper_round_get [of B lo t X]) (use Cons.prems in auto)
  from Cons.IH [OF B1(2) _ B1(4)] Cons.prems(2) show ?case
    using B1(1,3) by (auto split: option.splits if_splits)
qed (simp split: option.split)

text \<open>C20: An idle session is reaped in time, and not before.  Once a session whose mutex is free gets no more
  packets from its client, the reaper's ticks leave it alone for the idle timeout, and it is gone at the latest
  30 seconds after.\<close>

theorem idle_session_reaped_in_time:
  assumes "table_ok B" and "session_of B k = Some s" and "\<not> session_locked B k"
    and "lo \<le> t0 - secs (bc_idle_timeout_secs (bx_config X))"
    and "t0 - sn_last_active s \<le> secs (bc_idle_timeout_secs (bx_config X))"
  defines "deadline \<equiv> sn_last_active s + secs (bc_idle_timeout_secs (bx_config X))"
  shows "\<exists>B'. idle_reaper lo X (reaper_ticks t0 n) B = Ok B'
    \<and> (t0 + (int n - 1) * secs 30 \<le> deadline \<longrightarrow> session_of B' k = Some s)
    \<and> (deadline + secs 30 < t0 + int n * secs 30 \<longrightarrow> session_of B' k = None)"
proof -
  have period: "0 < secs 30" by (simp add: secs_def)
  have "\<forall>t \<in> set (reaper_ticks t0 n). lo \<le> t - secs (bc_idle_timeout_secs (bx_config X))"
  proof
    fix t
    assume "t \<in> set (reaper_ticks t0 n)"
    then obtain i where "t = t0 + int i * secs 30" by (auto simp: reaper_ticks_def)
    then have "t0 \<le> t" using period by simp
    then show "lo \<le> t - secs (bc_idle_timeout_secs (bx_config X))" using assms(4) by simp
  qed
  from idle_reaper_get [OF assms(1) this assms(3)] obtain B' where
    run: "idle_reaper lo X (reaper_ticks t0 n) B = Ok B'" and
    s: "session_of B' k = (if \<forall>t \<in> set (reaper_ticks t0 n). t \<le> deadline then Some s else None)"
    using assms(2) by (auto simp: deadline_def algebra_simps)
  have "t \<le> deadline" if early: "t0 + (int n - 1) * secs 30 \<le> deadline" and mem: "t \<in> set (reaper_ticks t0 n)" for t
  proof -
    obtain i where "i < n" "t = t0 + int i * secs 30" using mem by (auto simp: reaper_ticks_def)
    moreover from this(1) have "int i * secs 30 \<le> (int n - 1) * secs 30"
      using period by (intro mult_right_mono) auto
    ultimately show ?thesis using early by simp
  qed
  moreover have "\<not> (\<forall>t \<in> set (reaper_ticks t0 n). t \<le> deadline)" if late: "deadline + secs 30 < t0 + int n * secs 30"
  proof -
    have "0 < n"
      using late assms(5) period by (cases n) (auto simp: deadline_def)
    then have "t0 + (int n - 1) * secs 30 \<in> set (reaper_ticks t0 n)"
      by (auto simp: reaper_ticks_def image_iff intro!: bexI [of _ "n - 1"])
    moreover have "deadline < t0 + (int n - 1) * secs 30"
      using late by (simp add: algebra_simps)
    ultimately show ?thesis by (meson not_le)
  qed
  ultimately show ?thesis using run s by auto
qed

theorem idle_session_reaped_in_time_witness:
  "(\<exists>B'. idle_reaper 0 sample_ctx (reaper_ticks 300000000000 2) sample_bridge = Ok B'
      \<and> session_of B' (sample_session_key 5) = None)
   \<and> (\<exists>B'. idle_reaper 0 sample_ctx (reaper_ticks 300000000000 1) sample_bridge = Ok B'
      \<and> session_of B' (sample_session_key 5) = Some (session_new 1000 sample_aead_key (WUdp 7)))"
proof -
  have free: "\<not> session_locked sample_bridge (sample_session_key 5)" by code_simp
  have "secs (bc_idle_timeout_secs (bx_config sample_ctx)) = 300000000000" and "secs 30 = 30000000000"
    by (simp_all add: sample_ctx_def secs_def)
  then show ?thesis
    using idle_session_reaped_in_time [OF sample_bridge_ok sample_session free, of 0 300000000000 sample_ctx 2]
      idle_session_reaped_in_time [OF sample_bridge_ok sample_session free, of 0 300000000000 sample_ctx 1]
    by (auto simp: session_new_def)
qed

section \<open>The client's rule tasks\<close>

text \<open>
  \<open>run_tcp_rule\<close>: every accepted connection gets a task of its own; a failed \<open>accept\<close> ends the rule.
  \<open>None\<close> says that it still waits after the connections there are.
\<close>

datatype 'c accept_result = Accepted 'c | AcceptFailed string

fun accept_loop :: "('c \<Rightarrow> 'r) \<Rightarrow> 'c accept_result list \<Rightarrow> 'r list \<times> (unit, client_error) rs option" where
  "accept_loop handle [] = ([], None)"
| "accept_loop handle (Accepted c # rest) =
     (case accept_loop handle rest of (tasks, end) \<Rightarrow> (handle c # tasks, end))"
| "accept_loop handle (AcceptFailed e # rest) = ([], Some (Err (CIo e)))"

record tcp_conn =
  cn_env :: tunnel_env
  cn_send :: "bytes \<Rightarrow> (unit, string) rs"
  cn_reads :: "tcp_read list"

definition serve_conn ::
  "crypto \<Rightarrow> rule \<Rightarrow> tcp_conn \<Rightarrow> (tunnel \<times> bytes list \<times> (unit, client_error) rs, client_error) rs" where
  "serve_conn C r c = handle_tcp_local C (cn_env c) r (cn_send c) (cn_reads c)"

definition run_tcp_rule ::
  "crypto \<Rightarrow> rule \<Rightarrow> (unit, string) rs \<Rightarrow> tcp_conn accept_result list
     \<Rightarrow> (tunnel \<times> bytes list \<times> (unit, client_error) rs, client_error) rs list \<times> (unit, client_error) rs option" where
  "run_tcp_rule C r bind accepts =
     (case bind of
        Ok _ \<Rightarrow> accept_loop (serve_conn C r) accepts
      | Err e \<Rightarrow> ([], Some (Err (CIo e)))
      | Panic \<Rightarrow> ([], Some Panic))"

text \<open>How the task of a rule ends, if it does; a UDP rule that has its socket runs on.\<close>

definition rule_task ::
  "crypto \<Rightarrow> rule \<Rightarrow> (unit, string) rs \<Rightarrow> tcp_conn accept_result list \<Rightarrow> (unit, client_error) rs option" where
  "rule_task C r bind accepts =
     (case run_rule r of
        Ok Tcp \<Rightarrow> snd (run_tcp_rule C r bind accepts)
      | Ok Udp \<Rightarrow> (case bind of Ok _ \<Rightarrow> None | Err e \<Rightarrow> Some (Err (CIo e)) | Panic \<Rightarrow> Some Panic)
      | Err e \<Rightarrow> Some (Err e)
      | Panic \<Rightarrow> Some Panic)"

text \<open>The end of \<open>run\<close>: it waits for the rules' tasks in turn and drops their results.\<close>

fun await_rules :: "(unit, client_error) rs option list \<Rightarrow> (unit, client_error) rs option" where
  "await_rules [] = Some (Ok ())"
| "await_rules (None # rest) = None"
| "await_rules (Some result # rest) = await_rules rest"

text \<open>\<open>run_smart\<close> starts the listeners and then waits for nothing.\<close>

definition run_smart ::
  "aws_lookup \<Rightarrow> smart_routing_config \<Rightarrow> (router \<times> (bridge_entry \<times> sock_addr) list) \<times> (unit, client_error) rs option" where
  "run_smart aws cfg = (start_smart aws cfg, None)"

definition forwarder_end ::
  "crypto \<Rightarrow> (rule \<Rightarrow> (unit, string) rs) \<Rightarrow> (rule \<Rightarrow> tcp_conn accept_result list) \<Rightarrow> client_run
     \<Rightarrow> (unit, client_error) rs option" where
  "forwarder_end C bind accepts run =
     (case run of
        SmartMode M \<Rightarrow> None
      | RuleMode capture tasks \<Rightarrow> await_rules (map (\<lambda>(r, _). rule_task C r (bind r) (accepts r)) tasks))"

section \<open>Logging and defaults\<close>

text \<open>\<open>env\<close> is the filter in the environment, if there is a valid one.\<close>

definition bridge_log_filter :: "string option \<Rightarrow> string" where
  "bridge_log_filter env = unwrap_or env ''info,gr_bridge=debug''"

definition backend_log_filter :: "string option \<Rightarrow> string" where
  "backend_log_filter env = unwrap_or env ''info,tower_http=debug''"

definition cli_log_filter :: "string option \<Rightarrow> string" where
  "cli_log_filter env = unwrap_or env ''info''"

text \<open>Where a configuration file is looked for: the argument, else the environment variable, else a
  default.\<close>

definition config_path :: "string \<Rightarrow> string option \<Rightarrow> string option \<Rightarrow> string" where
  "config_path dflt arg env = unwrap_or arg (unwrap_or env dflt)"

definition bridge_config_path :: "string option \<Rightarrow> string option \<Rightarrow> string" where
  "bridge_config_path = config_path ''bridge.toml''"

definition backend_config_path :: "string option \<Rightarrow> string option \<Rightarrow> string" where
  "backend_config_path = config_path ''backend.toml''"

definition client_config_path :: "string option \<Rightarrow> string option \<Rightarrow> string" where
  "client_config_path = config_path ''client.toml''"

definition log_level :: "u8 \<Rightarrow> string" where
  "log_level verbose =
     (if verbose = 0 then ''info,gr_client=info'' else if verbose = 1 then ''debug,gr_client=debug'' else ''trace'')"

datatype log_sink = LogFile string | LogStdout

text \<open>The client's filter follows the \<open>-v\<close> flags; with the dashboard it logs to a file.  \<open>opened\<close> says whether
  that can be opened; \<open>expect\<close> panics if it cannot.\<close>

definition init_tracing ::
  "string option \<Rightarrow> (unit, string) rs \<Rightarrow> u8 \<Rightarrow> string option \<Rightarrow> (string \<times> log_sink, 'e) rs" where
  "init_tracing env opened verbose log_file =
     (let flt = unwrap_or env (log_level verbose) in
      case log_file of
        Some path \<Rightarrow> (case opened of Ok _ \<Rightarrow> Ok (flt, LogFile path) | _ \<Rightarrow> Panic)
      | None \<Rightarrow> Ok (flt, LogStdout))"

definition client_process ::
  "string option \<Rightarrow> (unit, string) rs \<Rightarrow> forwarder_config toml \<Rightarrow> aws_lookup \<Rightarrow> (unit, string) rs \<Rightarrow> file_system
     \<Rightarrow> client_cli \<Rightarrow> ((string \<times> log_sink) \<times> client_run, start_error) rs" where
  "client_process env opened T aws spawn fs cli =
     rs_bind (init_tracing env opened (cl_verbose cli) (if cl_tui cli then Some (cl_log_file cli) else None)) (\<lambda>log.
     rs_bind (client_main T aws spawn fs cli) (\<lambda>run. Ok (log, run)))"

section \<open>How rules end\<close>

definition accepted :: "'c accept_result \<Rightarrow> bool" where
  "accepted a \<longleftrightarrow> (case a of Accepted _ \<Rightarrow> True | AcceptFailed _ \<Rightarrow> False)"

lemma accept_loop_eq:
  "accept_loop handle accepts =
     (map (\<lambda>a. case a of Accepted c \<Rightarrow> handle c) (takeWhile accepted accepts),
      case dropWhile accepted accepts of AcceptFailed e # _ \<Rightarrow> Some (Err (CIo e)) | _ \<Rightarrow> None)"
  by (induction handle accepts rule: accept_loop.induct) (auto simp: accepted_def)

lemma await_rules_eq: "await_rules ends = (if None \<in> set ends then None else Some (Ok ()))"
  by (induction ends rule: await_rules.induct) auto

text \<open>A TCP rule serves the connections accepted before the first error of \<open>accept\<close> and none after it: the
  error ends the rule for good.\<close>

theorem accept_error_ends_rule:
  assumes "run_rule r = Ok Tcp" and "accepts = map Accepted before @ AcceptFailed e # later"
  shows "run_tcp_rule C r (Ok ()) accepts = (map (serve_conn C r) before, Some (Err (CIo e)))"
    and "rule_task C r (Ok ()) accepts = Some (Err (CIo e))"
proof -
  have "takeWhile accepted accepts = map Accepted before" "dropWhile accepted accepts = AcceptFailed e # later"
    unfolding assms(2) by (induction before) (simp_all add: accepted_def)
  then show "run_tcp_rule C r (Ok ()) accepts = (map (serve_conn C r) before, Some (Err (CIo e)))"
    by (simp add: run_tcp_rule_def accept_loop_eq comp_def)
  then show "rule_task C r (Ok ()) accepts = Some (Err (CIo e))"
    using assms(1) by (simp add: rule_task_def)
qed


text \<open>Two rules on one occupied address.\<close>

definition sample_forwarder_config :: forwarder_config where
  "sample_forwarder_config = \<lparr>fc_rules = [sample_rule\<lparr>ru_capture := False\<rparr>,
     sample_rule\<lparr>ru_capture := False, ru_protocol := ''tcp''\<rparr>], fc_smart_routing = None\<rparr>"


end
