(* ===== verification/Lp_Build.thy ===== *)
theory Lp_Build
  imports Lp_Capture
begin

text \<open>
  The capture crate's build script (\<open>crates/gr-capture/build.rs\<close>, on Windows): it copies the driver's
  two files next to the binary and next to the examples.  The two environment variables, the files and
  the outcome of each copy are arguments.
\<close>

section \<open>Paths and files\<close>

text \<open>A path as its components; the root has none.\<close>

type_synonym path = "string list"

definition path_parent :: "path \<Rightarrow> path option" where
  "path_parent p = (if p = [] then None else Some (butlast p))"

text \<open>\<open>ancestors().nth(n)\<close>; the path itself comes first.\<close>

definition path_ancestor :: "nat \<Rightarrow> path \<Rightarrow> path option" where
  "path_ancestor n p = (if n \<le> length p then Some (take (length p - n) p) else None)"

definition show_path :: "path \<Rightarrow> string" where
  "show_path = join [CHR 0x5C]"

text \<open>The contents of the files there are, and how a copy can go: one that fails may leave anything
  behind.\<close>

type_synonym files = "path \<Rightarrow> bytes option"

datatype copy_outcome = Copied | CopyFailed string "bytes option"

section \<open>The script\<close>

definition vendor_dir :: path where
  "vendor_dir = [''vendor'', ''windivert'', ''WinDivert-2.2.2-A'', ''x64'']"

definition driver_files :: "string list" where
  "driver_files = [''WinDivert.dll'', ''WinDivert64.sys'']"

definition rerun_lines :: "string list" where
  "rerun_lines =
     map (\<lambda>f. ''cargo:rerun-if-changed=../../vendor/windivert/WinDivert-2.2.2-A/x64/'' @ f) driver_files"

text \<open>One copy of the file \<open>f\<close> from \<open>src\<close> into a directory; the state is what has been printed and the
  files.\<close>

definition copy_into_dir ::
  "(path \<Rightarrow> copy_outcome) \<Rightarrow> path \<Rightarrow> string \<Rightarrow> path \<Rightarrow> string list \<times> files \<Rightarrow> string list \<times> files" where
  "copy_into_dir outcome src f dir S =
     (case S of (out, fs) \<Rightarrow>
        case outcome (dir @ [f]) of
          Copied \<Rightarrow> (out, fs(dir @ [f] := fs (src @ [f])))
        | CopyFailed e after \<Rightarrow>
            (out @ [''cargo:warning=failed to copy '' @ f @ '' to '' @ show_path dir @ '': '' @ e],
             fs(dir @ [f] := after)))"

definition stage_file ::
  "(path \<Rightarrow> copy_outcome) \<Rightarrow> path \<Rightarrow> path list \<Rightarrow> string \<Rightarrow> string list \<times> files \<Rightarrow> string list \<times> files" where
  "stage_file outcome src dirs f S =
     (if snd S (src @ [f]) \<noteq> None then fold (copy_into_dir outcome src f) dirs S else S)"

definition build_main ::
  "path option \<Rightarrow> path option \<Rightarrow> (path \<Rightarrow> copy_outcome) \<Rightarrow> files \<Rightarrow> (string list \<times> files, unit) rs" where
  "build_main manifest out_dir outcome fs =
     rs_bind (expect manifest) (\<lambda>manifest_dir.
     rs_bind (expect (path_parent manifest_dir)) (\<lambda>p.
     rs_bind (expect (path_parent p)) (\<lambda>workspace_root.
     rs_bind (expect out_dir) (\<lambda>out_dir.
     rs_bind (expect (path_ancestor 3 out_dir)) (\<lambda>target_profile_dir.
     let src = workspace_root @ vendor_dir;
         example_dir = target_profile_dir @ [''examples'']
     in Ok (fold (stage_file outcome src [target_profile_dir, example_dir]) driver_files (rerun_lines, fs)))))))"

section \<open>Properties\<close>

lemma stage_file_copied:
  assumes "outcome (dir @ [f]) = Copied" and "outcome (dir' @ [f]) = Copied" and "fs (src @ [f]) \<noteq> None"
  shows "stage_file outcome src [dir, dir'] f (out, fs)
    = (out, \<lambda>p. if p = dir @ [f] \<or> p = dir' @ [f] then fs (src @ [f]) else fs p)"
  using assms by (auto simp: stage_file_def copy_into_dir_def fun_eq_iff)

text \<open>Where Cargo's directories have their usual shape and no copy fails, the script ends with the driver's
  files from the vendor directory next to the binary and next to the examples, every other file is as it
  was, and nothing is printed but the two lines for Cargo.\<close>

theorem build_stages_driver:
  assumes "length below = 3" and "length crate = 2"
    and "\<forall>f \<in> set driver_files. fs (root @ vendor_dir @ [f]) \<noteq> None" and "\<forall>p. outcome p = Copied"
  shows "\<exists>fs'. build_main (Some (root @ crate)) (Some (target @ below)) outcome fs = Ok (rerun_lines, fs')
    \<and> (\<forall>f \<in> set driver_files. fs' (target @ [f]) = fs (root @ vendor_dir @ [f])
          \<and> fs' (target @ [''examples'', f]) = fs (root @ vendor_dir @ [f]))
    \<and> (\<forall>p. (\<forall>f \<in> set driver_files. p \<noteq> target @ [f] \<and> p \<noteq> target @ [''examples'', f]) \<longrightarrow> fs' p = fs p)"
proof -
  let ?src = "root @ vendor_dir" and ?dirs = "[target, target @ [''examples'']]"
  have root: "path_parent (root @ crate) = Some (root @ butlast crate)" "path_parent (root @ butlast crate) = Some root"
    using assms(2) by (auto simp: path_parent_def butlast_append numeral_2_eq_2 length_Suc_conv)
  have target: "path_ancestor 3 (target @ below) = Some target"
    using assms(1) by (simp add: path_ancestor_def)
  have "build_main (Some (root @ crate)) (Some (target @ below)) outcome fs
      = Ok (fold (stage_file outcome ?src ?dirs) driver_files (rerun_lines, fs))"
    by (simp add: build_main_def root target expect_def Let_def)
  moreover define fs1 where
    "fs1 = (\<lambda>p. if p = target @ [''WinDivert.dll''] \<or> p = (target @ [''examples'']) @ [''WinDivert.dll'']
                then fs (?src @ [''WinDivert.dll'']) else fs p)"
  moreover have "fs1 (?src @ [''WinDivert64.sys'']) = fs (?src @ [''WinDivert64.sys''])"
    using append1_eq_conv by (force simp: fs1_def)
  ultimately show ?thesis
    using assms(3,4) by (auto simp: driver_files_def stage_file_copied)
qed

end
