(* ===== verification/Lp_Platforms.thy ===== *)
theory Lp_Platforms
  imports Lp_Tui Lp_Startup Lp_Build
begin

text \<open>
  What the builds for other platforms than Windows do instead (the \<open>cfg(not(windows))\<close> parts of
  \<open>gr-client\<close>'s \<open>forwarder.rs\<close>, \<open>main.rs\<close> and \<open>tui.rs\<close>, and of the capture crate's build script): no capture,
  no smart mode and no dashboard, only the rules.
\<close>

section \<open>The client\<close>

text \<open>The smart section may be there; it is read as uninterpreted JSON (\<open>'j\<close>).\<close>

record 'j portable_config =
  pc_rules :: "rule list"
  pc_smart_routing :: "'j option"

definition portable_run ::
  "'j portable_config toml \<Rightarrow> file_system \<Rightarrow> string \<Rightarrow> sock_addr option
     \<Rightarrow> ((rule \<times> (transport_protocol, client_error) rs) list, start_error) rs" where
  "portable_run T fs config_path listen_override =
     rs_bind (rs_map_err SLoad (load_config T fs config_path)) (\<lambda>cfg.
     rs_bind (rs_map_err SClient (override_listen listen_override (pc_rules cfg))) (\<lambda>rules.
     Ok (map (\<lambda>r. (r, run_rule r)) rules)))"

datatype portable_error = PStart start_error | PNoDashboard

definition portable_run_with_tui ::
  "'j portable_config toml \<Rightarrow> file_system \<Rightarrow> client_cli \<Rightarrow> (unit, portable_error) rs" where
  "portable_run_with_tui T fs cli =
     rs_bind (rs_map_err (\<lambda>e. PStart (SLoad e)) (load_config T fs (cl_config cli))) (\<lambda>_. Err PNoDashboard)"

definition portable_main ::
  "'j portable_config toml \<Rightarrow> file_system \<Rightarrow> client_cli
     \<Rightarrow> ((rule \<times> (transport_protocol, client_error) rs) list, portable_error) rs" where
  "portable_main T fs cli =
     (if cl_tui cli then rs_bind (portable_run_with_tui T fs cli) (\<lambda>_. Ok [])
      else rs_map_err PStart (portable_run T fs (cl_config cli) (cl_listen cli)))"

section \<open>The dashboard's panel and the build script\<close>

definition draw_stats_stub :: "span \<times> span list list" where
  "draw_stats_stub = (('' stats '', []), [[(''(capture stats: Windows-only)'', [])]])"

definition portable_dashboard :: "instant \<Rightarrow> u16 \<Rightarrow> router \<Rightarrow> dashboard" where
  "portable_dashboard t h R =
     \<lparr>da_header = draw_header, da_bridges = draw_bridges R, da_decisions = draw_decisions t h R,
      da_stats = draw_stats_stub, da_footer = draw_footer\<rparr>"

definition portable_build_main :: "files \<Rightarrow> files" where
  "portable_build_main fs = fs"

section \<open>Against the Windows build\<close>

text \<open>The Windows configuration that asks for no more than the rules.\<close>

definition only_rules :: "'j portable_config \<Rightarrow> forwarder_config" where
  "only_rules cfg = \<lparr>fc_rules = map (\<lambda>r. r\<lparr>ru_capture := False\<rparr>) (pc_rules cfg), fc_smart_routing = None\<rparr>"

lemma no_capture: "\<forall>r \<in> set rules. \<not> ru_capture r \<Longrightarrow> install_capture spawn rules = Ok None"
proof -
  assume "\<forall>r \<in> set rules. \<not> ru_capture r"
  then have "capture_rules rules = []" by (induction rules) simp_all
  then show ?thesis by (simp add: install_capture_def)
qed

lemma override_listen_map:
  "override_listen l (map (\<lambda>r. r\<lparr>ru_capture := False\<rparr>) rules)
     = rs_bind (override_listen l rules) (\<lambda>rs. Ok (map (\<lambda>r. r\<lparr>ru_capture := False\<rparr>) rs))"
  by (auto simp: override_listen_def split: option.split list.split)

text \<open>On other platforms \<open>[smart_routing]\<close> and \<open>capture = true\<close> are ignored without a word: the client serves
  the same rules as a Windows client whose configuration has neither.\<close>

theorem portable_serves_only_rules:
  assumes "load_config T fs path = Ok cfg" and "load_config T' fs' path' = Ok (only_rules cfg)"
  shows "forwarder_run T' aws spawn fs' path' listen =
    rs_bind (portable_run T fs path listen) (\<lambda>tasks.
      Ok (RuleMode None (map (\<lambda>(r, m). (r\<lparr>ru_capture := False\<rparr>, m)) tasks)))"
proof (cases "override_listen listen (pc_rules cfg)")
  case (Ok rules)
  then have "override_listen listen (fc_rules (only_rules cfg)) = Ok (map (\<lambda>r. r\<lparr>ru_capture := False\<rparr>) rules)"
    by (simp add: only_rules_def override_listen_map)
  then show ?thesis
    using assms Ok no_capture [of "map (\<lambda>r. r\<lparr>ru_capture := False\<rparr>) rules"]
    by (simp add: forwarder_run_def portable_run_def only_rules_def run_rule_def comp_def)
qed (use assms in \<open>simp_all add: forwarder_run_def portable_run_def only_rules_def override_listen_map\<close>)

text \<open>The dashboard is not to be had: with \<open>--tui\<close> the client always fails.\<close>

theorem portable_dashboard_refused:
  assumes "cl_tui cli" and "load_config T fs (cl_config cli) \<noteq> Panic"
  shows "\<exists>e. portable_main T fs cli = Err e"
  using assms by (cases "load_config T fs (cl_config cli)") (simp_all add: portable_main_def portable_run_with_tui_def)

text \<open>The two dashboards differ in the statistics panel only.\<close>

lemma portable_dashboard_panels:
  "portable_dashboard t h R = (draw_dashboard t h R capture)\<lparr>da_stats := draw_stats_stub\<rparr>"
  by (simp add: portable_dashboard_def draw_dashboard_def)

end
