(* ===== verification/Lp_Text.thy ===== *)
theory Lp_Text
  imports Lp_Capture
begin

text \<open>
  The text syntax of the standard library the capture crate's tools read: \<open>str::parse\<close> for unsigned
  integers, \<open>IpAddr\<close> and \<open>SocketAddr\<close> (the recursive-descent parser of \<open>core::net\<close>), the ways a
  string is split and searched, and ASCII lower case.
\<close>

section \<open>Splitting and searching\<close>

text \<open>\<open>rsplitn(2, d)\<close>, as the text after the last \<open>d\<close> and the text before it.\<close>

definition rsplit_once :: "char \<Rightarrow> string \<Rightarrow> (string \<times> string) option" where
  "rsplit_once d s =
     (case split_once d (rev s) of None \<Rightarrow> None | Some (a, b) \<Rightarrow> Some (rev a, rev b))"

lemma rsplit_once_eq: "rsplit_once d s = Some (a, b) \<longleftrightarrow> s = b @ d # a \<and> d \<notin> set a"
proof -
  have "rsplit_once d s = Some (a, b) \<longleftrightarrow> split_once d (rev s) = Some (rev a, rev b)"
    by (auto simp: rsplit_once_def split: option.splits)
  also have "\<dots> \<longleftrightarrow> s = b @ d # a \<and> d \<notin> set a"
    by (simp add: split_once_eq rev_eq_append_conv)
  finally show ?thesis .
qed

lemma rsplit_once_None: "rsplit_once d s = None \<longleftrightarrow> d \<notin> set s"
  by (auto simp: rsplit_once_def split_once_def split: option.splits)

lemma split_on_no_sep: "d \<notin> set s \<Longrightarrow> split_on d s = [s]"
  by (induction s) auto

lemma split_on_append: "d \<notin> set a \<Longrightarrow> split_on d (a @ d # b) = a # split_on d b"
  by (induction a) auto

lemma split_on_ne [simp]: "split_on d s \<noteq> []"
  by (induction s) (auto split: list.splits)

lemma split_on_sep:
  assumes "d \<in> set s"
  obtains a b where "s = a @ d # b" "d \<notin> set a" "split_on d s = a # split_on d b"
  using split_list_first [OF assms] split_on_append by metis

lemma split_on_single: "split_on d s = [a] \<longleftrightarrow> s = a \<and> d \<notin> set a"
proof (cases "d \<in> set s")
  case True
  then show ?thesis by (elim split_on_sep) auto
qed (auto simp: split_on_no_sep)

lemma split_on_Cons:
  "split_on d s = a # p # ps \<longleftrightarrow> (\<exists>b. s = a @ d # b \<and> d \<notin> set a \<and> split_on d b = p # ps)"
proof (cases "d \<in> set s")
  case True
  then obtain a' b' where s: "s = a' @ d # b'" "d \<notin> set a'" "split_on d s = a' # split_on d b'"
    by (rule split_on_sep)
  show ?thesis
  proof
    assume "split_on d s = a # p # ps"
    then show "\<exists>b. s = a @ d # b \<and> d \<notin> set a \<and> split_on d b = p # ps" using s by auto
  qed (auto simp: split_on_append)
qed (auto simp: split_on_no_sep)

text \<open>The shape a string must have for \<open>split\<close> to give three parts.\<close>

lemma split_on_three:
  "split_on d s = [a, b, c] \<longleftrightarrow> s = a @ [d] @ b @ [d] @ c \<and> d \<notin> set a \<and> d \<notin> set b \<and> d \<notin> set c"
  by (auto simp: split_on_Cons split_on_single)

text \<open>\<open>str::lines\<close>: a line ends at a line feed, which takes a carriage return before it along; what
  follows the last line feed is a line if it is not empty.\<close>

definition strip_cr :: "string \<Rightarrow> string" where
  "strip_cr s = (if s \<noteq> [] \<and> last s = CHR 0x0D then butlast s else s)"

definition str_lines :: "string \<Rightarrow> string list" where
  "str_lines s =
     (let parts = split_on (CHR 0x0A) s
      in map strip_cr (butlast parts) @ (if last parts = [] then [] else [last parts]))"

text \<open>\<open>str::contains\<close> with a string argument.\<close>

fun str_contains :: "string \<Rightarrow> string \<Rightarrow> bool" where
  "str_contains [] needle = (needle = [])"
| "str_contains (c # cs) needle = (take (length needle) (c # cs) = needle \<or> str_contains cs needle)"

lemma str_contains_iff: "str_contains s needle \<longleftrightarrow> (\<exists>a b. s = a @ needle @ b)"
proof (induction s)
  case (Cons c s)
  have "take (length needle) (c # s) = needle \<longleftrightarrow> (\<exists>b. c # s = needle @ b)"
    by (metis append_eq_conv_conj)
  then show ?case
    using Cons by (auto simp: Cons_eq_append_conv)
qed simp

text \<open>\<open>str::to_lowercase\<close> of ASCII text.  No other character becomes one of the letters the program
  compares with after the conversion.\<close>

definition lower_char :: "char \<Rightarrow> char" where
  "lower_char c = (let n = of_char c :: nat in if 65 \<le> n \<and> n \<le> 90 then char_of (n + 32) else c)"

definition to_lowercase :: "string \<Rightarrow> string" where
  "to_lowercase = map lower_char"

section \<open>Integers\<close>

datatype int_error = IntEmpty | IntInvalidDigit | IntPosOverflow

fun show_int_error :: "int_error \<Rightarrow> string" where
  "show_int_error IntEmpty = ''cannot parse integer from empty string''"
| "show_int_error IntInvalidDigit = ''invalid digit found in string''"
| "show_int_error IntPosOverflow = ''number too large to fit in target type''"

text \<open>\<open>from_str\<close> of an unsigned type whose values lie below \<open>lim\<close>.\<close>

fun parse_digits :: "int \<Rightarrow> int \<Rightarrow> string \<Rightarrow> (int, int_error) rs" where
  "parse_digits lim acc [] = Ok acc"
| "parse_digits lim acc (c # cs) =
     (case digit_val c of
        None \<Rightarrow> Err IntInvalidDigit
      | Some d \<Rightarrow>
          if lim \<le> acc * 10 + int d then Err IntPosOverflow else parse_digits lim (acc * 10 + int d) cs)"

definition parse_uint :: "int \<Rightarrow> string \<Rightarrow> (int, int_error) rs" where
  "parse_uint lim s =
     (case s of
        [] \<Rightarrow> Err IntEmpty
      | c # cs \<Rightarrow> if c = CHR ''+'' \<and> cs \<noteq> [] then parse_digits lim 0 cs else parse_digits lim 0 s)"

definition parse_u16 :: "string \<Rightarrow> (u16, int_error) rs" where
  "parse_u16 s = rs_bind (parse_uint (2 ^ 16) s) (\<lambda>n. Ok (of_int n))"

definition parse_u32 :: "string \<Rightarrow> (u32, int_error) rs" where
  "parse_u32 s = rs_bind (parse_uint (2 ^ 32) s) (\<lambda>n. Ok (of_int n))"

section \<open>Addresses\<close>

text \<open>A parser gives a value and the rest of the input, or fails and consumes nothing
  (\<open>read_atomically\<close>).\<close>

type_synonym 'a parser = "string \<Rightarrow> ('a \<times> string) option"

definition p_bind :: "'a parser \<Rightarrow> ('a \<Rightarrow> 'b parser) \<Rightarrow> 'b parser" where
  "p_bind p f s = (case p s of None \<Rightarrow> None | Some (a, rest) \<Rightarrow> f a rest)"

definition p_return :: "'a \<Rightarrow> 'a parser" where
  "p_return a s = Some (a, s)"

fun read_given_char :: "char \<Rightarrow> unit parser" where
  "read_given_char t [] = None"
| "read_given_char t (c # cs) = (if c = t then Some ((), cs) else None)"

definition to_digit :: "nat \<Rightarrow> char \<Rightarrow> nat option" where
  "to_digit radix c =
     (let n = of_char c;
          d = (if 48 \<le> n \<and> n \<le> 57 then n - 48
               else if 97 \<le> n \<and> n \<le> 122 then n - 87
               else if 65 \<le> n \<and> n \<le> 90 then n - 55 else radix)
      in if d < radix then Some d else None)"

text \<open>The loop of \<open>read_number\<close>: the value and the number of digits; it fails when the value leaves
  the type or there are more digits than allowed.\<close>

fun read_digits :: "nat \<Rightarrow> int \<Rightarrow> nat option \<Rightarrow> int \<Rightarrow> nat \<Rightarrow> (int \<times> nat) parser" where
  "read_digits radix lim max_digits r n [] = Some ((r, n), [])"
| "read_digits radix lim max_digits r n (c # cs) =
     (case to_digit radix c of
        None \<Rightarrow> Some ((r, n), c # cs)
      | Some d \<Rightarrow>
          if lim \<le> r * int radix + int d then None
          else if (case max_digits of None \<Rightarrow> False | Some m \<Rightarrow> m < Suc n) then None
          else read_digits radix lim max_digits (r * int radix + int d) (Suc n) cs)"

definition read_number :: "nat \<Rightarrow> int \<Rightarrow> nat option \<Rightarrow> bool \<Rightarrow> int parser" where
  "read_number radix lim max_digits allow_zero_prefix s =
     p_bind (read_digits radix lim max_digits 0 0) (\<lambda>(r, n) rest.
       if n = 0 then None
       else if \<not> allow_zero_prefix \<and> take 1 s = ''0'' \<and> 1 < n then None
       else Some (r, rest)) s"

definition read_separator :: "char \<Rightarrow> nat \<Rightarrow> 'a parser \<Rightarrow> 'a parser" where
  "read_separator sep i p = (if 0 < i then p_bind (read_given_char sep) (\<lambda>_. p) else p)"

definition read_octet :: "nat \<Rightarrow> u8 parser" where
  "read_octet i = read_separator CHR ''.'' i (p_bind (read_number 10 256 (Some 3) False) (\<lambda>n. p_return (of_int n)))"

definition read_ipv4_addr :: "u32 parser" where
  "read_ipv4_addr =
     p_bind (read_octet 0) (\<lambda>a. p_bind (read_octet 1) (\<lambda>b. p_bind (read_octet 2) (\<lambda>c. p_bind (read_octet 3) (\<lambda>d.
       p_return (from_be_bytes [a, b, c, d])))))"

text \<open>
  \<open>read_groups\<close> reads up to \<open>left\<close> groups, the next one being number \<open>i\<close>; it may end with an IPv4
  address, which takes the place of two.
\<close>

fun read_groups :: "nat \<Rightarrow> nat \<Rightarrow> string \<Rightarrow> u16 list \<times> bool \<times> string" where
  "read_groups i 0 s = ([], False, s)"
| "read_groups i (Suc left) s =
     (case (if 0 < left then read_separator CHR '':'' i read_ipv4_addr s else None) of
        Some (v4, rest) \<Rightarrow> ([of_nat (unat (drop_bit 16 v4)), of_nat (unat (take_bit 16 v4))], True, rest)
      | None \<Rightarrow>
          (case read_separator CHR '':'' i (read_number 16 (2 ^ 16) (Some 4) True) s of
             None \<Rightarrow> ([], False, s)
           | Some (g, rest) \<Rightarrow>
               (case read_groups (Suc i) left rest of (gs, v4, rest') \<Rightarrow> (of_int g # gs, v4, rest'))))"

definition ipv6_of_groups :: "u16 list \<Rightarrow> u128" where
  "ipv6_of_groups gs = from_be_bytes (concat (map to_be_bytes gs))"

definition read_ipv6_addr :: "u128 parser" where
  "read_ipv6_addr s =
     (case read_groups 0 8 s of (head, head_ipv4, rest) \<Rightarrow>
        if length head = 8 then Some (ipv6_of_groups head, rest)
        else if head_ipv4 then None
        else p_bind (read_given_char CHR '':'') (\<lambda>_. p_bind (read_given_char CHR '':'') (\<lambda>_ rest.
          case read_groups 0 (8 - (length head + 1)) rest of (tail, _, rest) \<Rightarrow>
            Some (ipv6_of_groups (head @ replicate (8 - length head - length tail) 0 @ tail), rest))) rest)"

definition p_or_else :: "'a parser \<Rightarrow> 'a parser \<Rightarrow> 'a parser" where
  "p_or_else p q s = (case p s of None \<Rightarrow> q s | Some x \<Rightarrow> Some x)"

definition read_ip_addr :: "ip_addr parser" where
  "read_ip_addr =
     p_or_else (p_bind read_ipv4_addr (\<lambda>a. p_return (V4 a))) (p_bind read_ipv6_addr (\<lambda>a. p_return (V6 a)))"

definition read_port :: "u16 parser" where
  "read_port = p_bind (read_given_char CHR '':'') (\<lambda>_.
     p_bind (read_number 10 (2 ^ 16) None True) (\<lambda>n. p_return (of_int n)))"

text \<open>A scope id must fit 32 bits; its value is dropped, as \<open>sock_addr\<close> has no place for it.\<close>

definition read_scope_id :: "int parser" where
  "read_scope_id = p_bind (read_given_char CHR ''%'') (\<lambda>_. read_number 10 (2 ^ 32) None True)"

definition read_socket_addr :: "sock_addr parser" where
  "read_socket_addr =
     p_or_else
       (p_bind read_ipv4_addr (\<lambda>a. p_bind read_port (\<lambda>p. p_return (sock_addr_new (V4 a) p))))
       (p_bind (read_given_char CHR ''['') (\<lambda>_. p_bind read_ipv6_addr (\<lambda>a.
        p_bind (p_or_else read_scope_id (p_return 0)) (\<lambda>_. p_bind (read_given_char CHR '']'') (\<lambda>_.
        p_bind read_port (\<lambda>p. p_return (sock_addr_new (V6 a) p)))))))"

definition parse_with :: "'a parser \<Rightarrow> string \<Rightarrow> 'a option" where
  "parse_with p s = (case p s of Some (a, []) \<Rightarrow> Some a | _ \<Rightarrow> None)"

definition parse_ip_addr :: "string \<Rightarrow> ip_addr option" where
  "parse_ip_addr = parse_with read_ip_addr"

definition parse_socket_addr :: "string \<Rightarrow> sock_addr option" where
  "parse_socket_addr = parse_with read_socket_addr"

section \<open>Reading back what is printed\<close>

definition show_sock_addr_v4 :: "u32 \<Rightarrow> u16 \<Rightarrow> string" where
  "show_sock_addr_v4 a p = show_ipv4 a @ '':'' @ show_nat (unat p)"

text \<open>The decimal digits of a number, most significant first.\<close>

fun digits :: "nat \<Rightarrow> nat list" where
  "digits n = (if n < 10 then [n] else digits (n div 10) @ [n mod 10])"

declare digits.simps [simp del]

definition digit_char :: "nat \<Rightarrow> char" where
  "digit_char d = char_of (48 + d)"

lemma show_nat_digits: "show_nat n = map digit_char (digits n)"
  by (induction n rule: digits.induct) (subst show_nat.simps, subst digits.simps, simp add: digit_char_def)

lemma digits_lt: "d \<in> set (digits n) \<Longrightarrow> d < 10"
  by (induction n rule: digits.induct) (subst (asm) (2) digits.simps, auto split: if_splits)

lemma digits_ne: "digits n \<noteq> []"
  by (subst digits.simps) simp

lemma digits_value: "foldl (\<lambda>r d. r * 10 + int d) 0 (digits n) = int n"
  by (induction n rule: digits.induct) (subst digits.simps, simp add: of_nat_div of_nat_mod)

lemma digits_hd: "10 \<le> n \<Longrightarrow> hd (digits n) \<noteq> 0"
proof (induction n rule: digits.induct)
  case (1 n)
  show ?case
  proof (cases "n div 10 < 10")
    case True
    then show ?thesis using 1(2) by (subst digits.simps, subst digits.simps) auto
  next
    case False
    then show ?thesis using 1 digits_ne [of "n div 10"] by (subst digits.simps) auto
  qed
qed

lemma length_digits_byte: "n < 1000 \<Longrightarrow> length (digits n) \<le> 3"
  by (subst digits.simps, subst digits.simps, subst digits.simps) auto

lemma digit_char_value: "d < 10 \<Longrightarrow> digit_val (digit_char d) = Some d" "d < 10 \<Longrightarrow> to_digit 10 (digit_char d) = Some d"
  by (simp_all add: digit_val_def to_digit_def digit_char_def Let_def)

lemma foldl_digits_ge: "0 \<le> r \<Longrightarrow> r \<le> foldl (\<lambda>r d. r * 10 + int d) r ds"
proof (induction ds arbitrary: r)
  case (Cons d ds)
  have "r \<le> r * 10 + int d" using Cons.prems by simp
  also have "\<dots> \<le> foldl (\<lambda>r d. r * 10 + int d) (r * 10 + int d) ds"
    using Cons.prems by (intro Cons.IH) simp
  finally show ?case by simp
qed simp

lemma parse_digits_run:
  assumes "\<forall>d \<in> set ds. d < 10" and "0 \<le> r" and "foldl (\<lambda>r d. r * 10 + int d) r ds < lim"
  shows "parse_digits lim r (map digit_char ds) = Ok (foldl (\<lambda>r d. r * 10 + int d) r ds)"
  using assms
proof (induction ds arbitrary: r)
  case (Cons d ds)
  have "r * 10 + int d < lim"
    using foldl_digits_ge [of "r * 10 + int d" ds] Cons.prems by simp
  then show ?case
    using Cons.prems Cons.IH [of "r * 10 + int d"] by (simp add: digit_char_value)
qed simp

lemma parse_uint_show: "int n < lim \<Longrightarrow> parse_uint lim (show_nat n) = Ok (int n)"
proof -
  assume n: "int n < lim"
  obtain d ds where ds: "digits n = d # ds"
    using digits_ne [of n] by (cases "digits n") auto
  have "d < 10" using digits_lt [of d n] ds by simp
  then have "digit_char d \<noteq> CHR ''+''"
    using digit_char_value(1) [of d] by (auto simp: digit_val_def)
  then show ?thesis
    using parse_digits_run [of "digits n" 0 lim] digits_lt [of _ n] digits_value [of n] n
    by (simp add: parse_uint_def show_nat_digits ds)
qed

lemma uint_u16_lt: "uint (p :: u16) < 65536"
  using unsigned_less [of p] by simp

lemma uint_u8_lt: "uint (b :: u8) < 256"
  using unsigned_less [of b] by simp

lemma parse_u16_show: "parse_u16 (show_nat (unat p)) = Ok p"
  using parse_uint_show [of "unat p" "2 ^ 16"] uint_u16_lt [of p]
  by (simp add: parse_u16_def)

text \<open>Text that cannot continue a number.\<close>

definition number_ends :: "string \<Rightarrow> bool" where
  "number_ends rest \<longleftrightarrow> rest = [] \<or> to_digit 10 (hd rest) = None"

lemma read_digits_run:
  assumes "\<forall>d \<in> set ds. d < 10" and "0 \<le> r" and "foldl (\<lambda>r d. r * 10 + int d) r ds < lim"
    and "case mx of None \<Rightarrow> True | Some m \<Rightarrow> k + length ds \<le> m" and "number_ends rest"
  shows "read_digits 10 lim mx r k (map digit_char ds @ rest)
    = Some ((foldl (\<lambda>r d. r * 10 + int d) r ds, k + length ds), rest)"
  using assms
proof (induction ds arbitrary: r k)
  case Nil
  then show ?case by (cases rest) (auto simp: number_ends_def)
next
  case (Cons d ds)
  have "r * 10 + int d < lim"
    using foldl_digits_ge [of "r * 10 + int d" ds] Cons.prems by simp
  moreover have "case mx of None \<Rightarrow> True | Some m \<Rightarrow> Suc k + length ds \<le> m"
    using Cons.prems(4) by (cases mx) auto
  ultimately show ?case
    using Cons.prems Cons.IH [of "r * 10 + int d" "Suc k"]
    by (auto simp: digit_char_value split: option.splits)
qed

lemma read_number_show:
  assumes "int n < lim" and "case mx of None \<Rightarrow> True | Some m \<Rightarrow> length (digits n) \<le> m" and "number_ends rest"
  shows "read_number 10 lim mx z (show_nat n @ rest) = Some (int n, rest)"
proof -
  have run: "read_digits 10 lim mx 0 0 (show_nat n @ rest) = Some ((int n, length (digits n)), rest)"
    using read_digits_run [where ds = "digits n" and r = 0 and lim = lim and k = 0 and mx = mx and rest = rest] assms digits_lt [of _ n] digits_value [of n]
    by (auto simp: show_nat_digits split: option.splits)
  have "\<not> (take 1 (show_nat n @ rest) = ''0'' \<and> 1 < length (digits n))"
  proof
    assume a: "take 1 (show_nat n @ rest) = ''0'' \<and> 1 < length (digits n)"
    then have "10 \<le> n" by (subst (asm) digits.simps) (auto split: if_splits)
    then have "hd (digits n) \<noteq> 0" and "hd (digits n) < 10"
      using digits_hd digits_lt [of _ n] digits_ne [of n] by auto
    moreover have "digit_char (hd (digits n)) = CHR ''0''"
      using a digits_ne [of n] by (cases "digits n") (auto simp: show_nat_digits)
    ultimately show False
      using digit_char_value(1) [of "hd (digits n)"] by (simp add: digit_val_def)
  qed
  then show ?thesis
    using run digits_ne [of n] by (auto simp: read_number_def p_bind_def)
qed

lemma read_octet_show:
  assumes "number_ends rest"
  shows "read_octet i ((if 0 < i then ''.'' else []) @ show_nat (unat b) @ rest) = Some (b, rest)"
proof -
  have "read_number 10 256 (Some 3) False (show_nat (unat b) @ rest) = Some (int (unat b), rest)"
    using uint_u8_lt [of b] unat_u8_lt [of b] length_digits_byte [of "unat b"] assms by (intro read_number_show) simp_all
  then show ?thesis
    by (simp add: read_octet_def read_separator_def p_bind_def p_return_def)
qed

lemma four_bytes: "length xs = 4 \<Longrightarrow> \<exists>a b c d. xs = [a, b, c, d]"
  by (auto simp: numeral_eq_Suc length_Suc_conv)

lemma read_ipv4_show:
  assumes "number_ends rest"
  shows "read_ipv4_addr (show_ipv4 a @ rest) = Some (a, rest)"
proof -
  obtain b0 b1 b2 b3 where o: "to_be_bytes a = [b0, b1, b2, b3]"
    using four_bytes [of "to_be_bytes a"] by auto
  then have a: "from_be_bytes [b0, b1, b2, b3] = a"
    using from_be_to_be_widths(2) [of a] by metis
  have ends: "number_ends (CHR ''.'' # s)" for s by (simp add: number_ends_def to_digit_def)
  show ?thesis
    using read_octet_show [OF ends, of 0 b0] read_octet_show [OF ends, of 1 b1] read_octet_show [OF ends, of 2 b2]
      read_octet_show [OF assms, of 3 b3]
    by (simp add: read_ipv4_addr_def p_bind_def p_return_def show_ipv4_def o a)
qed

lemma parse_ip_addr_show: "parse_ip_addr (show_ipv4 a) = Some (V4 a)"
  using read_ipv4_show [of "[]" a]
  by (simp add: parse_ip_addr_def parse_with_def read_ip_addr_def p_or_else_def p_bind_def p_return_def number_ends_def)

lemma parse_socket_addr_show: "parse_socket_addr (show_sock_addr_v4 a p) = Some (sock_addr_new (V4 a) p)"
proof -
  have "read_number 10 65536 None True (show_nat (unat p) @ []) = Some (int (unat p), [])"
    using uint_u16_lt [of p] by (intro read_number_show) (simp_all add: number_ends_def)
  moreover have "number_ends (CHR '':'' # show_nat (unat p))"
    by (simp add: number_ends_def to_digit_def)
  ultimately show ?thesis
    using read_ipv4_show [of "CHR '':'' # show_nat (unat p)" a]
    by (simp add: parse_socket_addr_def parse_with_def read_socket_addr_def read_port_def show_sock_addr_v4_def
        p_or_else_def p_bind_def p_return_def)
qed

text \<open>The characters of printed numbers and addresses.\<close>

lemma show_nat_chars: "c \<in> set (show_nat n) \<Longrightarrow> \<exists>d. digit_val c = Some d"
  using digits_lt [of _ n] digit_char_value(1) by (auto simp: show_nat_digits)

lemma show_ipv4_chars: "c \<in> set (show_ipv4 a) \<Longrightarrow> c = CHR ''.'' \<or> (\<exists>d. digit_val c = Some d)"
proof -
  obtain b0 b1 b2 b3 where o: "to_be_bytes a = [b0, b1, b2, b3]"
    using four_bytes [of "to_be_bytes a"] by auto
  then show "c \<in> set (show_ipv4 a) \<Longrightarrow> ?thesis"
    by (auto simp: show_ipv4_def dest: show_nat_chars)
qed

section \<open>Two descriptions of an IPv4 address\<close>

text \<open>\<open>parse_ipv4\<close> splits at the dots and reads each part; the standard library reads from left to right.
  Both accept the same text.\<close>

definition decimal :: "char \<Rightarrow> bool" where
  "decimal c \<longleftrightarrow> digit_val c \<noteq> None"

lemma to_digit_decimal: "to_digit 10 c = digit_val c"
  by (auto simp: to_digit_def digit_val_def Let_def)

lemma digits_val_decimal: "digits_val acc s \<noteq> None \<longleftrightarrow> list_all decimal s"
  by (induction acc s rule: digits_val.induct) (auto simp: decimal_def split: option.splits)

lemma digits_val_ge: "digits_val acc s = Some n \<Longrightarrow> acc \<le> n"
  by (induction acc s rule: digits_val.induct) (auto split: option.splits)

text \<open>The loop reads the leading digits; it fails if there are too many or their value is too large.\<close>

lemma read_digits_octet:
  "read_digits 10 256 (Some 3) (int r) k s =
     (let ds = takeWhile decimal s in
      case digits_val r ds of
        Some n \<Rightarrow> if ds = [] \<or> (n < 256 \<and> k + length ds \<le> 3)
                   then Some ((int n, k + length ds), dropWhile decimal s) else None
      | None \<Rightarrow> None)"
proof (induction s arbitrary: r k)
  case (Cons c s)
  show ?case
  proof (cases "digit_val c")
    case None
    then show ?thesis by (simp add: to_digit_decimal decimal_def)
  next
    case (Some d)
    define m where "m = r * 10 + d"
    obtain n where n: "digits_val m (takeWhile decimal s) = Some n"
      using digits_val_decimal [of m "takeWhile decimal s"]
      by (auto simp: list_all_iff dest: set_takeWhileD)
    have "read_digits 10 256 (Some 3) (int r) k (c # s) =
        (if 256 \<le> m \<or> 3 < Suc k then None else read_digits 10 256 (Some 3) (int m) (Suc k) s)"
      using Some by (simp add: to_digit_decimal m_def)
    moreover have "decimal c" by (simp add: decimal_def Some)
    moreover have "digits_val r (c # takeWhile decimal s) = Some n"
      using Some n by (simp add: m_def)
    ultimately show ?thesis
      using digits_val_ge [OF n] n
      by (simp add: Cons.IH Let_def del: read_digits.simps digits_val.simps) (auto split: if_splits)
  qed
qed simp

lemma read_octet_parse:
  "p_bind (read_number 10 256 (Some 3) False) (\<lambda>n. p_return (of_int n)) s =
     (case parse_octet (takeWhile decimal s) of None \<Rightarrow> None | Some b \<Rightarrow> Some (b, dropWhile decimal s))"
proof -
  let ?ds = "takeWhile decimal s"
  obtain n where n: "digits_val 0 ?ds = Some n"
    using digits_val_decimal [of 0 ?ds] by (auto simp: list_all_iff dest: set_takeWhileD)
  have "?ds \<noteq> [] \<Longrightarrow> hd ?ds = hd s \<and> take 1 s = [hd s]"
    by (cases s) (auto split: if_splits)
  then show ?thesis
    using n read_digits_octet [of 0 0 s]
    by (cases "?ds = []") (auto simp: p_bind_def p_return_def read_number_def parse_octet_def Let_def Suc_le_eq)
qed

text \<open>The shape both describe.\<close>

definition dotted :: "string \<Rightarrow> u32 \<Rightarrow> bool" where
  "dotted s a \<longleftrightarrow> (\<exists>p0 p1 p2 p3 b0 b1 b2 b3. s = p0 @ ''.'' @ p1 @ ''.'' @ p2 @ ''.'' @ p3
     \<and> map parse_octet [p0, p1, p2, p3] = [Some b0, Some b1, Some b2, Some b3] \<and> a = from_be_bytes [b0, b1, b2, b3])"

lemma dottedI:
  assumes "s = p0 @ ''.'' @ p1 @ ''.'' @ p2 @ ''.'' @ p3" and "a = from_be_bytes [b0, b1, b2, b3]"
    and "map parse_octet [p0, p1, p2, p3] = [Some b0, Some b1, Some b2, Some b3]"
  shows "dotted s a"
  unfolding dotted_def by (intro exI conjI) (rule assms(1), rule assms(3), rule assms(2))

lemma parse_octet_decimal: "parse_octet p = Some b \<Longrightarrow> p \<noteq> [] \<and> list_all decimal p"
  using digits_val_decimal [of 0 p] by (auto simp: parse_octet_def split: if_splits option.splits)

lemma parse_octet_no_dot: "parse_octet p = Some b \<Longrightarrow> CHR ''.'' \<notin> set p"
  using parse_octet_decimal [of p b] by (auto simp: list_all_iff decimal_def digit_val_def)

lemma parse_ipv4_dotted: "parse_ipv4 s = Some a \<longleftrightarrow> dotted s a"
proof
  assume "parse_ipv4 s = Some a"
  then obtain b0 b1 b2 b3 where b: "map parse_octet (split_on CHR ''.'' s) = [Some b0, Some b1, Some b2, Some b3]"
    "a = from_be_bytes [b0, b1, b2, b3]"
    by (auto simp: parse_ipv4_def split: list.splits option.splits)
  then obtain p0 p1 p2 p3 where p: "split_on CHR ''.'' s = [p0, p1, p2, p3]"
    by (auto simp: map_eq_Cons_conv)
  then have "s = p0 @ ''.'' @ p1 @ ''.'' @ p2 @ ''.'' @ p3"
    by (auto simp: split_on_Cons split_on_single)
  then show "dotted s a"
    using b p unfolding dotted_def by metis
next
  assume "dotted s a"
  then obtain p0 p1 p2 p3 b0 b1 b2 b3 where s: "s = p0 @ ''.'' @ p1 @ ''.'' @ p2 @ ''.'' @ p3"
    and b: "parse_octet p0 = Some b0" "parse_octet p1 = Some b1" "parse_octet p2 = Some b2" "parse_octet p3 = Some b3"
    and a: "a = from_be_bytes [b0, b1, b2, b3]"
    unfolding dotted_def by auto
  have "split_on CHR ''.'' s = [p0, p1, p2, p3]"
    using parse_octet_no_dot [OF b(1)] parse_octet_no_dot [OF b(2)] parse_octet_no_dot [OF b(3)] parse_octet_no_dot [OF b(4)]
    by (simp add: s split_on_append split_on_no_sep)
  then show "parse_ipv4 s = Some a"
    by (simp add: parse_ipv4_def b a)
qed

lemma octet_Some:
  "p_bind (read_number 10 256 (Some 3) False) (\<lambda>n. p_return (of_int n)) s = Some (b, rest)
    \<longleftrightarrow> (\<exists>p. s = p @ rest \<and> parse_octet p = Some b \<and> (rest = [] \<or> \<not> decimal (hd rest)))"
proof -
  have split: "takeWhile decimal (p @ rest) = p \<and> dropWhile decimal (p @ rest) = rest"
    if "list_all decimal p" "rest = [] \<or> \<not> decimal (hd rest)" for p
    using that by (cases rest) (auto simp: list_all_iff takeWhile_append dropWhile_append)
  show ?thesis (is "?L \<longleftrightarrow> ?R")
  proof
    assume ?L
    then have "parse_octet (takeWhile decimal s) = Some b" "rest = dropWhile decimal s"
      unfolding read_octet_parse by (auto split: option.splits)
    moreover have "dropWhile decimal s = [] \<or> \<not> decimal (hd (dropWhile decimal s))"
      using hd_dropWhile [of decimal s] by blast
    ultimately show ?R
      using takeWhile_dropWhile_id [of decimal s] by metis
  next
    assume ?R
    then obtain p where "s = p @ rest" "parse_octet p = Some b" "rest = [] \<or> \<not> decimal (hd rest)" by blast
    then show ?L
      unfolding read_octet_parse using split [of p] parse_octet_decimal [of p b] by simp
  qed
qed

lemma read_octet_Some:
  "read_octet i s = Some (b, rest)
    \<longleftrightarrow> (\<exists>p. s = (if 0 < i then ''.'' else []) @ p @ rest \<and> parse_octet p = Some b \<and> (rest = [] \<or> \<not> decimal (hd rest)))"
  by (cases s) (auto simp: read_octet_def read_separator_def p_bind_def [of "read_given_char _"] octet_Some)

lemma read_ipv4_Some:
  "read_ipv4_addr s = Some (a, []) \<longleftrightarrow> dotted s a"
proof
  assume "read_ipv4_addr s = Some (a, [])"
  then obtain b0 b1 b2 b3 s1 s2 s3 where "read_octet 0 s = Some (b0, s1)" "read_octet 1 s1 = Some (b1, s2)"
    "read_octet 2 s2 = Some (b2, s3)" "read_octet 3 s3 = Some (b3, [])" "a = from_be_bytes [b0, b1, b2, b3]"
    by (auto simp: read_ipv4_addr_def p_bind_def p_return_def split: option.splits)
  then obtain p0 p1 p2 p3 where "s = p0 @ ''.'' @ p1 @ ''.'' @ p2 @ ''.'' @ p3" "a = from_be_bytes [b0, b1, b2, b3]"
    "map parse_octet [p0, p1, p2, p3] = [Some b0, Some b1, Some b2, Some b3]"
    unfolding read_octet_Some by auto
  then show "dotted s a" by (rule dottedI)
next
  assume "dotted s a"
  then obtain p0 p1 p2 p3 b0 b1 b2 b3 where s: "s = p0 @ ''.'' @ p1 @ ''.'' @ p2 @ ''.'' @ p3"
    and b: "parse_octet p0 = Some b0" "parse_octet p1 = Some b1" "parse_octet p2 = Some b2" "parse_octet p3 = Some b3"
    and a: "a = from_be_bytes [b0, b1, b2, b3]"
    unfolding dotted_def by auto
  have dot: "\<not> decimal CHR ''.''" by (simp add: decimal_def digit_val_def)
  have "read_octet 0 s = Some (b0, ''.'' @ p1 @ ''.'' @ p2 @ ''.'' @ p3)"
    "read_octet 1 (''.'' @ p1 @ ''.'' @ p2 @ ''.'' @ p3) = Some (b1, ''.'' @ p2 @ ''.'' @ p3)"
    "read_octet 2 (''.'' @ p2 @ ''.'' @ p3) = Some (b2, ''.'' @ p3)" "read_octet 3 (''.'' @ p3) = Some (b3, [])"
    unfolding read_octet_Some using b dot by (auto simp: s)
  then show "read_ipv4_addr s = Some (a, [])"
    by (simp add: read_ipv4_addr_def p_bind_def p_return_def a)
qed

lemma parse_ipv4_reads: "parse_ipv4 s = parse_with read_ipv4_addr s"
proof -
  have "parse_with read_ipv4_addr s = Some a \<longleftrightarrow> read_ipv4_addr s = Some (a, [])" for a
    by (auto simp: parse_with_def split: option.splits list.splits)
  then have "parse_ipv4 s = Some a \<longleftrightarrow> parse_with read_ipv4_addr s = Some a" for a
    by (simp add: parse_ipv4_dotted read_ipv4_Some)
  then show ?thesis by (metis option.exhaust)
qed

end
