(* ===== verification/Lp_Sniff.thy ===== *)
theory Lp_Sniff
  imports Lp_Text
begin

text \<open>
  The capture crate's smoke test (\<open>crates/gr-capture/examples/sniff.rs\<close>): how it reads a redirect rule
  from the command line, and its run, which starts the capture, reports every five seconds and stops
  it.  What the capture thread does while the program sleeps is an argument.
\<close>

section \<open>Rules on the command line\<close>

text \<open>The port part: one port, or two with a dash between.\<close>

definition parse_ports :: "string \<Rightarrow> (u16 \<times> u16, string) rs" where
  "parse_ports port_part =
     (case split_once CHR ''-'' port_part of
        Some (l, h) \<Rightarrow>
          rs_bind (rs_map_err show_int_error (parse_u16 l)) (\<lambda>l.
          rs_bind (rs_map_err show_int_error (parse_u16 h)) (\<lambda>h. Ok (l, h)))
      | None \<Rightarrow> rs_bind (rs_map_err show_int_error (parse_u16 port_part)) (\<lambda>p. Ok (p, p)))"

definition parse_protocol :: "string \<Rightarrow> (protocol, string) rs" where
  "parse_protocol s =
     (let p = to_lowercase s in
      if p = ''tcp'' then Ok ProtoTcp
      else if p = ''udp'' then Ok ProtoUdp
      else Err (''unknown protocol: '' @ p))"

definition parse_rule :: "string \<Rightarrow> (redirect_rule, string) rs" where
  "parse_rule s =
     (case split_on CHR '','' s of
        [p0, p1, p2] \<Rightarrow>
          rs_bind (parse_protocol p0) (\<lambda>protocol.
          case rsplit_once CHR '':'' p1 of
            None \<Rightarrow> Err ''dst spec missing colon''
          | Some (port_part, ip_part) \<Rightarrow>
              rs_bind (ok_or ''invalid IP address syntax'' (parse_ip_addr ip_part)) (\<lambda>dst_ip.
              rs_bind (parse_ports port_part) (\<lambda>(lo, hi).
              rs_bind (ok_or ''invalid socket address syntax'' (parse_socket_addr p2)) (\<lambda>local.
              Ok \<lparr>rr_protocol = protocol, rr_dst_ip = dst_ip, rr_dst_port_lo = lo, rr_dst_port_hi = hi,
                  rr_redirect_to_ip = sa_ip local, rr_redirect_to_port = sa_port local\<rparr>))))
      | parts \<Rightarrow> Err (''expected 3 comma-separated parts, got '' @ show_nat (length parts)))"

text \<open>Collecting results stops at the first error.\<close>

fun parse_rules :: "string list \<Rightarrow> (redirect_rule list, string) rs" where
  "parse_rules [] = Ok []"
| "parse_rules (s # ss) = rs_bind (parse_rule s) (\<lambda>r. rs_bind (parse_rules ss) (\<lambda>rs. Ok (r # rs)))"

section \<open>The run\<close>

definition stats_line :: "u64 \<Rightarrow> redirect_stats \<Rightarrow> string" where
  "stats_line elapsed s =
     ''['' @ show_nat (unat elapsed) @ ''s] outbound='' @ show_nat (unat (st_outbound_redirected s))
     @ '' inbound='' @ show_nat (unat (st_inbound_rewritten s))
     @ '' dropped='' @ show_nat (unat (st_dropped_unparseable s))
     @ '' flows='' @ show_nat (unat (st_active_flows s))"

text \<open>
  The reporting loop: the lines it prints and the capture it leaves; \<open>during e\<close> is what happens to the
  capture in the five seconds after \<open>e\<close> have been counted.
\<close>

partial_function (option) sniff_loop ::
  "(u64 \<Rightarrow> 'r capture \<Rightarrow> 'r capture) \<Rightarrow> u64 \<Rightarrow> u64 \<Rightarrow> 'r capture \<Rightarrow> (string list \<times> 'r capture) option" where
  "sniff_loop during duration elapsed S =
     (if elapsed < duration
      then Option.bind (sniff_loop during duration (elapsed + 5) (during elapsed S)) (\<lambda>(lines, T).
             Some (stats_line (elapsed + 5) (capture_stats (during elapsed S)) # lines, T))
      else Some ([], S))"

datatype sniff_outcome =
  SniffError string
| SniffExit nat
| SniffFailed capture_error
| SniffPanic
| SniffDone "string list" "unit capture"

definition sniff_main ::
  "(unit, string) rs \<Rightarrow> (u64 \<Rightarrow> unit capture \<Rightarrow> unit capture) \<Rightarrow> string list \<Rightarrow> u64 \<Rightarrow> sniff_outcome option" where
  "sniff_main spawn during specs duration =
     (case parse_rules specs of
        Err e \<Rightarrow> Some (SniffError (''rule parse: '' @ e))
      | Panic \<Rightarrow> Some SniffPanic
      | Ok rules \<Rightarrow>
          if rules = [] then Some (SniffExit 2)
          else
            let (cfg, res) = capture_new rules in
            case capture_start cfg spawn (capture_init ()) of
              (Err e, S) \<Rightarrow> Some (SniffFailed e)
            | (Panic, S) \<Rightarrow> Some SniffPanic
            | (Ok _, S) \<Rightarrow>
                map_option (\<lambda>(lines, T). SniffDone lines (capture_stop T)) (sniff_loop during duration 0 S))"

section \<open>Reading rules\<close>

lemma rs_never_panics:
  "parse_digits lim acc cs \<noteq> Panic" "parse_uint lim cs \<noteq> Panic" "parse_u16 cs \<noteq> Panic"
proof -
  have d: "parse_digits lim acc cs \<noteq> Panic" for lim acc cs
    by (induction lim acc cs rule: parse_digits.induct) (auto split: option.splits)
  show "parse_digits lim acc cs \<noteq> Panic" by (rule d)
  have u: "parse_uint lim cs \<noteq> Panic" for lim
    using d by (auto simp: parse_uint_def simp del: parse_digits.simps split: list.splits)
  show "parse_uint lim cs \<noteq> Panic" by (rule u)
  show "parse_u16 cs \<noteq> Panic" using u by (simp add: parse_u16_def rs_bind_Panic_iff)
qed

lemma parse_ports_no_panic: "parse_ports s \<noteq> Panic"
  using rs_never_panics(3) by (auto simp: parse_ports_def rs_bind_Panic_iff rs_map_err_Panic_iff split: option.splits)

text \<open>The grammar of a rule: what is accepted, and the rule it means.\<close>

definition protocol_text :: "protocol \<Rightarrow> string" where
  "protocol_text p = (case p of ProtoTcp \<Rightarrow> ''tcp'' | ProtoUdp \<Rightarrow> ''udp'')"

lemma parse_protocol_Ok: "parse_protocol s = Ok p \<longleftrightarrow> to_lowercase s = protocol_text p"
  by (cases p) (auto simp: parse_protocol_def protocol_text_def Let_def)

lemma parse_rule_Ok:
  "parse_rule s = Ok r \<longleftrightarrow> (\<exists>pr ip ports local.
     s = pr @ '','' @ (ip @ '':'' @ ports) @ '','' @ local
     \<and> CHR '','' \<notin> set pr \<and> CHR '','' \<notin> set (ip @ '':'' @ ports) \<and> CHR '','' \<notin> set local \<and> CHR '':'' \<notin> set ports
     \<and> to_lowercase pr = protocol_text (rr_protocol r) \<and> parse_ip_addr ip = Some (rr_dst_ip r)
     \<and> parse_ports ports = Ok (rr_dst_port_lo r, rr_dst_port_hi r)
     \<and> parse_socket_addr local = Some (sock_addr_new (rr_redirect_to_ip r) (rr_redirect_to_port r)))"
    (is "_ \<longleftrightarrow> ?G")
proof
  assume r: "parse_rule s = Ok r"
  then obtain p0 p1 p2 where p: "split_on CHR '','' s = [p0, p1, p2]"
    by (auto simp: parse_rule_def split: list.splits)
  obtain ports ip where d: "rsplit_once CHR '':'' p1 = Some (ports, ip)"
    using r p by (auto simp: parse_rule_def split: option.splits)
  have "p1 = ip @ '':'' @ ports" "CHR '':'' \<notin> set ports"
    using d by (auto simp: rsplit_once_eq)
  moreover have "to_lowercase p0 = protocol_text (rr_protocol r)" "parse_ip_addr ip = Some (rr_dst_ip r)"
    "parse_ports ports = Ok (rr_dst_port_lo r, rr_dst_port_hi r)"
    "parse_socket_addr p2 = Some (sock_addr_new (rr_redirect_to_ip r) (rr_redirect_to_port r))"
    using r by (auto simp: parse_rule_def p d parse_protocol_Ok sock_addr_new_def)
  moreover note p [unfolded split_on_three]
  ultimately show ?G by blast
next
  assume ?G
  then obtain pr ip ports local where
    "split_on CHR '','' s = [pr, ip @ '':'' @ ports, local]" and c: "CHR '':'' \<notin> set ports"
    and g: "to_lowercase pr = protocol_text (rr_protocol r)" "parse_ip_addr ip = Some (rr_dst_ip r)"
      "parse_ports ports = Ok (rr_dst_port_lo r, rr_dst_port_hi r)"
      "parse_socket_addr local = Some (sock_addr_new (rr_redirect_to_ip r) (rr_redirect_to_port r))"
    unfolding split_on_three by blast
  moreover have "rsplit_once CHR '':'' (ip @ '':'' @ ports) = Some (ports, ip)"
    using c by (simp add: rsplit_once_eq)
  moreover have "parse_protocol pr = Ok (rr_protocol r)"
    using g(1) by (simp add: parse_protocol_Ok)
  ultimately show "parse_rule s = Ok r"
    by (simp add: parse_rule_def sock_addr_new_def)
qed

text \<open>The text of an IPv4 rule, in the form the usage message shows.\<close>

definition rule_text :: "string \<Rightarrow> u32 \<Rightarrow> u16 \<Rightarrow> u16 \<Rightarrow> u32 \<Rightarrow> u16 \<Rightarrow> string" where
  "rule_text pr ip lo hi lip lport =
     pr @ '','' @ show_ipv4 ip @ '':'' @ show_nat (unat lo)
     @ (if lo = hi then [] else ''-'' @ show_nat (unat hi)) @ '','' @ show_sock_addr_v4 lip lport"

lemma parse_ports_show:
  "parse_ports (show_nat (unat lo) @ (if lo = hi then [] else ''-'' @ show_nat (unat hi))) = Ok (lo, hi)"
proof -
  have dash: "CHR ''-'' \<notin> set (show_nat n)" for n
    using show_nat_chars [of "CHR ''-''" n] by (auto simp: digit_val_def)
  have "split_once CHR ''-'' (show_nat (unat lo)) = None"
    using dash by (simp add: split_once_def)
  moreover have "split_once CHR ''-'' (show_nat (unat lo) @ CHR ''-'' # t) = Some (show_nat (unat lo), t)" for t
    using dash by (simp add: split_once_eq)
  ultimately show ?thesis
    by (cases "lo = hi") (simp_all add: parse_ports_def parse_u16_show)
qed

lemma parse_rule_text:
  assumes "to_lowercase pr = protocol_text p"
  shows "parse_rule (rule_text pr ip lo hi lip lport) = Ok
    \<lparr>rr_protocol = p, rr_dst_ip = V4 ip, rr_dst_port_lo = lo, rr_dst_port_hi = hi,
     rr_redirect_to_ip = V4 lip, rr_redirect_to_port = lport\<rparr>" (is "_ = Ok ?r")
proof -
  let ?ports = "show_nat (unat lo) @ (if lo = hi then [] else ''-'' @ show_nat (unat hi))"
  have dig: "c \<notin> set (show_nat n)" if "digit_val c = None" for c n
    using that show_nat_chars [of c n] by auto
  have ipc: "c \<notin> set (show_ipv4 a)" if "digit_val c = None" "c \<noteq> CHR ''.''" for c a
    using that show_ipv4_chars [of c a] by auto
  have "CHR '','' \<notin> set (to_lowercase pr)"
    using assms by (cases p) (auto simp: protocol_text_def)
  then have "CHR '','' \<notin> set pr"
    by (force simp: to_lowercase_def lower_char_def)
  moreover have "CHR '','' \<notin> set (show_ipv4 ip @ '':'' @ ?ports)" "CHR '':'' \<notin> set ?ports"
    "CHR '','' \<notin> set (show_sock_addr_v4 lip lport)"
    using dig ipc by (auto simp: show_sock_addr_v4_def digit_val_def)
  moreover have "rule_text pr ip lo hi lip lport
      = pr @ '','' @ (show_ipv4 ip @ '':'' @ ?ports) @ '','' @ show_sock_addr_v4 lip lport"
    by (simp add: rule_text_def)
  moreover have "to_lowercase pr = protocol_text (rr_protocol ?r)" "parse_ip_addr (show_ipv4 ip) = Some (rr_dst_ip ?r)"
    "parse_ports ?ports = Ok (rr_dst_port_lo ?r, rr_dst_port_hi ?r)"
    "parse_socket_addr (show_sock_addr_v4 lip lport)
      = Some (sock_addr_new (rr_redirect_to_ip ?r) (rr_redirect_to_port ?r))"
    using assms parse_ports_show by (simp_all add: parse_ip_addr_show parse_socket_addr_show)
  ultimately show ?thesis
    unfolding parse_rule_Ok by blast
qed

section \<open>The reporting loop\<close>

text \<open>The capture after \<open>n\<close> sleeps, and how many there are.\<close>

fun after_sleeps :: "(u64 \<Rightarrow> 'r capture \<Rightarrow> 'r capture) \<Rightarrow> nat \<Rightarrow> 'r capture \<Rightarrow> 'r capture" where
  "after_sleeps during 0 S = S"
| "after_sleeps during (Suc n) S = during (of_nat (5 * n)) (after_sleeps during n S)"

definition sleeps :: "u64 \<Rightarrow> nat" where
  "sleeps duration = (unat duration + 4) div 5"

lemma unat_u64_lt: "unat (a :: u64) < 18446744073709551616"
  using unsigned_less [of a] by simp

lemma unat_of_nat_u64: "n < 2 ^ 64 \<Longrightarrow> unat (of_nat n :: u64) = n"
  by (simp add: unsigned_of_nat take_bit_nat_eq_self)

text \<open>The counter stays within 64 bits, the largest of which is a multiple of five.\<close>

lemma sleeps_bound: "5 * sleeps duration < 2 ^ 64" "unat duration \<le> 5 * sleeps duration" "5 * sleeps duration < unat duration + 5"
proof -
  have "5 * ((n + 4) div 5) < 18446744073709551616" if "n < 18446744073709551616" for n :: nat
    using that by presburger
  then show "5 * sleeps duration < 2 ^ 64"
    using unat_u64_lt [of duration] by (simp add: sleeps_def)
  show "unat duration \<le> 5 * sleeps duration" and "5 * sleeps duration < unat duration + 5"
    unfolding sleeps_def by presburger+
qed

definition report :: "(u64 \<Rightarrow> 'r capture \<Rightarrow> 'r capture) \<Rightarrow> 'r capture \<Rightarrow> nat \<Rightarrow> string" where
  "report during S k = stats_line (of_nat (5 * Suc k)) (capture_stats (after_sleeps during (Suc k) S))"

lemma sniff_loop_from:
  assumes "n \<le> sleeps duration"
  shows "sniff_loop during duration (of_nat (5 * n)) (after_sleeps during n S)
    = Some (map (report during S) [n..<sleeps duration], after_sleeps during (sleeps duration) S)"
  using assms
proof (induction n rule: inc_induct)
  case base
  have "\<not> of_nat (5 * sleeps duration) < duration"
    using sleeps_bound [of duration] by (simp add: word_less_nat_alt unat_of_nat_u64 del: of_nat_mult)
  then show ?case by (subst sniff_loop.simps) simp
next
  case (step n)
  have "5 * n < unat duration"
    using step.hyps unfolding sleeps_def by presburger
  moreover have "5 * n < 2 ^ 64" using step.hyps sleeps_bound(1) [of duration] by linarith
  ultimately have "of_nat (5 * n) < duration"
    by (simp add: word_less_nat_alt unat_of_nat_u64 del: of_nat_mult)
  moreover have "of_nat (5 * n) + 5 = (of_nat (5 * Suc n) :: u64)"
    by simp
  ultimately show ?case
    using step.IH step.hyps
    by (subst sniff_loop.simps) (simp add: report_def upt_conv_Cons del: of_nat_mult of_nat_Suc of_nat_add mult_Suc_right)
qed

lemma sniff_loop_total:
  "sniff_loop during duration 0 S
    = Some (map (report during S) [0..<sleeps duration], after_sleeps during (sleeps duration) S)"
  using sniff_loop_from [of 0] by simp

text \<open>Without rules there is no passive mode; the program exits.\<close>

lemma sniff_without_rules: "sniff_main spawn during [] duration = Some (SniffExit 2)"
  by (simp add: sniff_main_def)

section \<open>Properties\<close>

text \<open>The smoke test ends: once its rules are read and the capture runs, it reports after every five
  seconds, the last time when at least the duration and less than five seconds more have been counted,
  and stops the capture.  The counter never wraps around, for any duration.\<close>

theorem sniff_ends:
  assumes "parse_rules specs = Ok rules" and "rules \<noteq> []" and "spawn = Ok ()"
  shows "\<exists>S lines T. capture_start (fst (capture_new rules)) spawn (capture_init ()) = (Ok (), S) \<and> ct_running S
    \<and> sniff_main spawn during specs duration = Some (SniffDone lines T)
    \<and> lines = map (report during S) [0..<sleeps duration] \<and> \<not> ct_running T
    \<and> T = capture_stop (after_sleeps during (sleeps duration) S)
    \<and> unat duration \<le> 5 * sleeps duration \<and> 5 * sleeps duration < unat duration + 5 \<and> 5 * sleeps duration < 2 ^ 64"
proof -
  obtain cfg res where cfg: "capture_new rules = (cfg, res)" "cc_redirect_targets cfg \<noteq> []"
    using assms(2) by (auto simp: capture_new_def with_rules_def)
  then obtain flt where "build_filter cfg = Ok flt"
    by (simp add: build_filter_def Let_def)
  then obtain S where S: "capture_start cfg spawn (capture_init ()) = (Ok (), S)" "ct_running S"
    using assms(3) by (auto simp: capture_start_def capture_init_def Let_def)
  then show ?thesis
    using assms(1,2) cfg(1) sleeps_bound [of duration]
    by (simp add: sniff_main_def sniff_loop_total capture_stop_def)
qed

text \<open>The example of the usage message.\<close>

definition sample_sniff_rule :: redirect_rule where
  "sample_sniff_rule = \<lparr>rr_protocol = ProtoUdp, rr_dst_ip = V4 0x01010101, rr_dst_port_lo = 53, rr_dst_port_hi = 53,
     rr_redirect_to_ip = V4 0x7F000001, rr_redirect_to_port = 9999\<rparr>"

lemma sample_sniff_parses: "parse_rules [''udp,1.1.1.1:53,127.0.0.1:9999''] = Ok [sample_sniff_rule]"
  by code_simp

theorem sniff_ends_witness:
  "\<exists>lines T. sniff_main (Ok ()) (\<lambda>_ S. S) [''udp,1.1.1.1:53,127.0.0.1:9999''] 7 = Some (SniffDone lines T)
    \<and> length lines = 2 \<and> \<not> ct_running T"
proof -
  have "sleeps 7 = 2" by (simp add: sleeps_def)
  then show ?thesis
    using sniff_ends [OF sample_sniff_parses, of "Ok ()" "\<lambda>_ S. S" 7] by auto
qed

end
