(* ===== verification/Lp_Fnscan.thy ===== *)
theory Lp_Fnscan
  imports Lp_Text Lp_Tunnel
begin

text \<open>
  The flow scanner (\<open>crates/gr-capture/examples/fnscan.rs\<close>): finding a process's ids in the output of
  \<open>tasklist\<close>, the driver filter for them, counting the flows the driver reports by endpoint, the table
  of the busiest, and the client rules it suggests.  What \<open>tasklist\<close> prints, what the driver delivers
  and the clock are arguments.
\<close>

section \<open>Processes\<close>

definition quote :: char where "quote = CHR 0x22"

text \<open>The fields of one line of quoted, comma-separated values.\<close>

definition csv_fields :: "string \<Rightarrow> string list" where
  "csv_fields line = filter (\<lambda>s. s \<noteq> [] \<and> s \<noteq> '','') (split_on quote line)"

definition line_pid :: "string \<Rightarrow> string \<Rightarrow> u32 list" where
  "line_pid needle line =
     (case csv_fields line of
        proc_name # pid # _ \<Rightarrow>
          if str_contains (to_lowercase proc_name) needle
          then (case parse_u32 pid of Ok p \<Rightarrow> [p] | _ \<Rightarrow> [])
          else []
      | _ \<Rightarrow> [])"

definition list_pids_for :: "string \<Rightarrow> string \<Rightarrow> u32 list" where
  "list_pids_for stdout name = concat (map (line_pid (to_lowercase name)) (str_lines stdout))"

definition build_flow_filter :: "u32 list \<Rightarrow> bool \<Rightarrow> string" where
  "build_flow_filter pids udp_only =
     (let proto_clause = if udp_only then '' and protocol == 17'' else [] in
      if pids = [] then ''false''
      else ''event == ESTABLISHED'' @ proto_clause @ '' and (''
        @ join '' or '' (map (\<lambda>p. ''processId == '' @ show_nat (unat p)) pids) @ '')'')"

section \<open>Counting flows\<close>

type_synonym flow_endpoint = "u8 \<times> sock_addr"
type_synonym flow_counts = "(flow_endpoint, u64) hmap"

definition count_flow :: "flow_endpoint \<Rightarrow> flow_counts \<Rightarrow> flow_counts" where
  "count_flow k m = hm_insert k (unwrap_or (hm_get m k) 0 + 1) m"

definition proto_name :: "u8 \<Rightarrow> string" where
  "proto_name p = (if p = 6 then ''tcp'' else if p = 17 then ''udp'' else ''?'')"

text \<open>What each line of the table shows (there are no reverse DNS names, \<open>lookup_rdns\<close> finds none):
  the count, the protocol and the address of the twenty largest counts, the sort being stable.\<close>

definition lookup_rdns :: "ip_addr \<Rightarrow> string option" where
  "lookup_rdns ip = None"

type_synonym summary_row = "u64 \<times> string \<times> sock_addr \<times> string"

definition summary_rows :: "flow_counts \<Rightarrow> summary_row list" where
  "summary_rows m =
     map (\<lambda>((proto, addr), count). (count, proto_name proto, addr, unwrap_or (lookup_rdns (sa_ip addr)) []))
       (take 20 (sort_key (\<lambda>(_, count). - uint count) m))"

text \<open>
  One turn of the loop: what the flag and the clock say at its head, the flow received (\<open>None\<close> if the
  driver fails), the clock when the last table's age is checked, and when a new table's time is noted.
\<close>

record scan_turn =
  tu_running :: bool
  tu_now :: instant
  tu_recv :: "flow_endpoint option"
  tu_check :: instant
  tu_printed :: instant

record scan =
  sn_endpoints :: flow_counts
  sn_last_print :: instant
  sn_tables :: "summary_row list list"

definition scan_init :: "instant \<Rightarrow> scan" where
  "scan_init start = \<lparr>sn_endpoints = hm_empty, sn_last_print = start, sn_tables = []\<rparr>"

text \<open>\<open>elapsed\<close> does not go below zero.\<close>

definition elapsed :: "instant \<Rightarrow> instant \<Rightarrow> int" where
  "elapsed t start = max 0 (t - start)"

definition scan_goes_on :: "u64 \<Rightarrow> instant \<Rightarrow> scan_turn \<Rightarrow> bool" where
  "scan_goes_on duration start x \<longleftrightarrow> tu_running x \<and> elapsed (tu_now x) start < secs duration"

definition scan_one :: "scan_turn \<Rightarrow> scan \<Rightarrow> scan" where
  "scan_one x S =
     (case tu_recv x of
        None \<Rightarrow> S
      | Some k \<Rightarrow>
          let S = S\<lparr>sn_endpoints := count_flow k (sn_endpoints S)\<rparr> in
          if secs 5 < elapsed (tu_check x) (sn_last_print S)
          then S\<lparr>sn_tables := sn_tables S @ [summary_rows (sn_endpoints S)], sn_last_print := tu_printed x\<rparr>
          else S)"

text \<open>The loop over the turns there are; the flag says whether it has ended.\<close>

fun flow_scan :: "u64 \<Rightarrow> instant \<Rightarrow> scan_turn list \<Rightarrow> scan \<Rightarrow> scan \<times> bool" where
  "flow_scan duration start [] S = (S, False)"
| "flow_scan duration start (x # xs) S =
     (if scan_goes_on duration start x then flow_scan duration start xs (scan_one x S) else (S, True))"

section \<open>Suggested rules\<close>

definition push_port :: "flow_endpoint \<Rightarrow> (u8 \<times> ip_addr, u16 list) hmap \<Rightarrow> (u8 \<times> ip_addr, u16 list) hmap" where
  "push_port e m =
     (case e of (proto, addr) \<Rightarrow>
        hm_insert (proto, sa_ip addr) (unwrap_or (hm_get m (proto, sa_ip addr)) [] @ [sa_port addr]) m)"

definition ports_by_ip :: "flow_counts \<Rightarrow> (u8 \<times> ip_addr, u16 list) hmap" where
  "ports_by_ip m = fold (\<lambda>(e, _). push_port e) m hm_empty"

text \<open>The values filled into the printed rule; its other lines are constant or placeholders.  \<open>lo\<close> and
  \<open>hi\<close> would panic on an empty list.\<close>

record suggestion =
  sg_listen :: sock_addr
  sg_dest_ip :: ip_addr
  sg_dest_port :: u16
  sg_protocol :: string
  sg_lo :: u16
  sg_hi :: u16

definition list_min :: "u16 list \<Rightarrow> u16 option" where
  "list_min ports = (if ports = [] then None else Some (Min (set ports)))"

definition list_max :: "u16 list \<Rightarrow> u16 option" where
  "list_max ports = (if ports = [] then None else Some (Max (set ports)))"

definition suggestion_for :: "(u8 \<times> ip_addr) \<times> u16 list \<Rightarrow> (suggestion, unit) rs" where
  "suggestion_for x =
     (case x of ((proto, ip), ports) \<Rightarrow>
        rs_bind (expect (list_min ports)) (\<lambda>lo.
        rs_bind (expect (list_max ports)) (\<lambda>hi.
        Ok \<lparr>sg_listen = sock_addr_new localhost 9700, sg_dest_ip = ip, sg_dest_port = lo,
            sg_protocol = proto_name proto, sg_lo = lo, sg_hi = hi\<rparr>)))"

fun rs_map_all :: "('a \<Rightarrow> ('b, 'e) rs) \<Rightarrow> 'a list \<Rightarrow> ('b list, 'e) rs" where
  "rs_map_all f [] = Ok []"
| "rs_map_all f (x # xs) = rs_bind (f x) (\<lambda>y. rs_bind (rs_map_all f xs) (\<lambda>ys. Ok (y # ys)))"

definition suggest_rules :: "flow_counts \<Rightarrow> (suggestion list, unit) rs" where
  "suggest_rules m = rs_map_all suggestion_for (ports_by_ip m)"

text \<open>A suggestion as the forwarder's configuration reads it, with the placeholders filled in.\<close>

definition suggested_rule :: "sock_addr \<Rightarrow> string \<Rightarrow> string \<Rightarrow> suggestion \<Rightarrow> rule" where
  "suggested_rule bridge pubkey token s =
     \<lparr>ru_listen = sg_listen s, ru_bridge = bridge, ru_bridge_x25519_pubkey_hex = pubkey,
      ru_license_token = token, ru_dest_ip = sg_dest_ip s, ru_dest_port = sg_dest_port s,
      ru_protocol = sg_protocol s, ru_udp_idle_secs = default_udp_idle, ru_capture = True,
      ru_capture_dst_port_lo = Some (sg_lo s), ru_capture_dst_port_hi = Some (sg_hi s),
      ru_capture_dst_ip = None\<rparr>"

section \<open>The program\<close>

datatype scan_outcome =
  ScanNoProcess
| ScanOpenFailed string
| ScanDone "summary_row list list" "suggestion list"
| ScanPanic
| ScanWaiting

text \<open>\<open>tasklist\<close> is what the command prints, if it can be run, and \<open>opened\<close> the driver's answer to opening it
  with the filter.\<close>

definition fnscan_main ::
  "string option \<Rightarrow> string \<Rightarrow> u64 \<Rightarrow> bool \<Rightarrow> (string \<Rightarrow> (unit, string) rs) \<Rightarrow> instant \<Rightarrow> scan_turn list \<Rightarrow> scan_outcome" where
  "fnscan_main tasklist process duration udp_only opened start turns =
     (case tasklist of
        None \<Rightarrow> ScanPanic
      | Some stdout \<Rightarrow>
          let pids = list_pids_for stdout process in
          if pids = [] then ScanNoProcess
          else case opened (build_flow_filter pids udp_only) of
            Err e \<Rightarrow> ScanOpenFailed (''WinDivert::flow failed: '' @ e)
          | Panic \<Rightarrow> ScanPanic
          | Ok _ \<Rightarrow>
              (case flow_scan duration start turns (scan_init start) of
                 (S, False) \<Rightarrow> ScanWaiting
               | (S, True) \<Rightarrow>
                   (case suggest_rules (sn_endpoints S) of
                      Ok ss \<Rightarrow> ScanDone (sn_tables S @ [summary_rows (sn_endpoints S)]) ss
                    | _ \<Rightarrow> ScanPanic)))"

section \<open>The loop\<close>

lemma flow_scan_eq:
  "flow_scan duration start turns S =
     (fold scan_one (takeWhile (scan_goes_on duration start) turns) S, \<not> list_all (scan_goes_on duration start) turns)"
  by (induction turns arbitrary: S) auto

text \<open>The time is looked at only when a flow, or an error, has arrived: while the turns so far came within
  the duration, the scan waits for the next, however long that takes.\<close>

lemma scan_waits: "list_all (scan_goes_on duration start) turns \<Longrightarrow> snd (flow_scan duration start turns S) = False"
  by (simp add: flow_scan_eq)

lemma scan_one_endpoints:
  "sn_endpoints (scan_one x S) = (case tu_recv x of None \<Rightarrow> sn_endpoints S | Some k \<Rightarrow> count_flow k (sn_endpoints S))"
  by (simp add: scan_one_def Let_def split: option.splits)

definition times_received :: "flow_endpoint \<Rightarrow> scan_turn list \<Rightarrow> nat" where
  "times_received k xs = length (filter (\<lambda>x. tu_recv x = Some k) xs)"

text \<open>The table counts how often each endpoint was received.\<close>

lemma scan_counts:
  "hm_get (sn_endpoints (fold scan_one xs S)) k =
     (if times_received k xs = 0 then hm_get (sn_endpoints S) k
      else Some (unwrap_or (hm_get (sn_endpoints S) k) 0 + of_nat (times_received k xs)))"
proof (induction xs arbitrary: S)
  case (Cons x xs)
  show ?case
    unfolding fold_Cons comp_apply Cons.IH scan_one_endpoints
    by (auto simp: times_received_def count_flow_def unwrap_or_def split: option.splits)
qed (simp add: times_received_def)

lemma scan_wf: "hm_wf (sn_endpoints S) \<Longrightarrow> hm_wf (sn_endpoints (fold scan_one xs S))"
  by (induction xs arbitrary: S) (simp_all add: scan_one_endpoints count_flow_def split: option.splits)

section \<open>The table\<close>

text \<open>A table lists the largest counts first, and no endpoint left out has a larger count than one
  listed.\<close>

lemma counts_sorted:
  "sorted_wrt (\<lambda>x y. snd y \<le> snd x) (sort_key (\<lambda>(_, count :: u64). - uint count) m)"
  using sorted_sort_key [of "\<lambda>(_, count). - uint count" m] by (simp add: sorted_map case_prod_unfold word_le_def)

lemma summary_sorted: "sorted_wrt (\<lambda>r s. fst s \<le> fst r) (summary_rows m)"
  using sorted_wrt_take [OF counts_sorted, of 20 m] by (simp add: summary_rows_def sorted_wrt_map case_prod_unfold)

lemma summary_largest:
  assumes "r \<in> set (summary_rows m)" and "x \<in> set (drop 20 (sort_key (\<lambda>(_, count). - uint count) m))"
  shows "snd x \<le> fst r"
proof -
  let ?s = "sort_key (\<lambda>(_, count :: u64). - uint count) m"
  have "sorted_wrt (\<lambda>x y. snd y \<le> snd x) (take 20 ?s @ drop 20 ?s)"
    using counts_sorted by simp
  then have "\<forall>x \<in> set (take 20 ?s). \<forall>y \<in> set (drop 20 ?s). snd y \<le> snd x"
    unfolding sorted_wrt_append by blast
  then show ?thesis
    using assms by (fastforce simp: summary_rows_def)
qed

section \<open>The suggestions\<close>

lemma push_port_get:
  "hm_get (push_port (p, a) m) k =
     (if k = (p, sa_ip a) then Some (unwrap_or (hm_get m k) [] @ [sa_port a]) else hm_get m k)"
  by (simp add: push_port_def)

definition ports_of :: "flow_counts \<Rightarrow> u8 \<times> ip_addr \<Rightarrow> u16 list" where
  "ports_of m k = map (\<lambda>((p, a), _). sa_port a) (filter (\<lambda>((p, a), _). (p, sa_ip a) = k) m)"

lemma ports_by_ip_fold:
  "hm_get (fold (\<lambda>(e, _). push_port e) m acc) k =
     (if ports_of m k = [] then hm_get acc k else Some (unwrap_or (hm_get acc k) [] @ ports_of m k))"
proof (induction m arbitrary: acc)
  case (Cons x m)
  obtain p a n where x: "x = ((p, a), n)" by (cases x) auto
  show ?case
    unfolding fold_Cons comp_apply x prod.case Cons.IH push_port_get
    by (auto simp: ports_of_def unwrap_or_def split: option.splits)
qed (simp add: ports_of_def)

lemma ports_by_ip_get:
  "hm_get (ports_by_ip m) k = (if ports_of m k = [] then None else Some (ports_of m k))"
  by (simp add: ports_by_ip_def ports_by_ip_fold unwrap_or_def)

lemma ports_by_ip_wf: "hm_wf (ports_by_ip m)"
proof -
  have "hm_wf acc \<Longrightarrow> hm_wf (fold (\<lambda>(e, _). push_port e) m acc)" for acc
    by (induction m arbitrary: acc) (auto simp: push_port_def split: prod.splits)
  then show ?thesis by (simp add: ports_by_ip_def)
qed

lemma rs_map_all_Ok: "(\<And>x. x \<in> set xs \<Longrightarrow> f x = Ok (g x)) \<Longrightarrow> rs_map_all f xs = Ok (map g xs)"
  by (induction xs) auto

definition suggestion_of :: "u8 \<times> ip_addr \<Rightarrow> u16 list \<Rightarrow> suggestion" where
  "suggestion_of k ports =
     \<lparr>sg_listen = sock_addr_new localhost 9700, sg_dest_ip = snd k, sg_dest_port = Min (set ports),
      sg_protocol = proto_name (fst k), sg_lo = Min (set ports), sg_hi = Max (set ports)\<rparr>"

text \<open>There is one suggestion for each protocol and address seen.\<close>

lemma suggest_rules_Ok: "\<exists>ss. suggest_rules m = Ok ss
    \<and> set ss = {suggestion_of k (ports_of m k) | k. ports_of m k \<noteq> []}"
proof -
  let ?g = "\<lambda>(k, ports). suggestion_of k ports"
  have "suggestion_for x = Ok (?g x)" if "x \<in> set (ports_by_ip m)" for x
  proof -
    have "hm_get (ports_by_ip m) (fst x) = Some (snd x)"
      using that hm_entry_get [OF ports_by_ip_wf, of "fst x" "snd x" m] by simp
    then have "snd x \<noteq> []" by (auto simp: ports_by_ip_get split: if_splits)
    then show ?thesis
      by (cases x) (auto simp: suggestion_for_def suggestion_of_def list_min_def list_max_def)
  qed
  then have "suggest_rules m = Ok (map ?g (ports_by_ip m))"
    unfolding suggest_rules_def by (rule rs_map_all_Ok)
  moreover have "(k, ports) \<in> set (ports_by_ip m) \<longleftrightarrow> ports_of m k \<noteq> [] \<and> ports = ports_of m k" for k ports
    by (auto simp: hm_entry_get [OF ports_by_ip_wf] ports_by_ip_get)
  then have "set (map ?g (ports_by_ip m)) = {suggestion_of k (ports_of m k) | k. ports_of m k \<noteq> []}"
    by (force simp: image_iff)
  ultimately show ?thesis by blast
qed

lemma ports_of_iff:
  "port \<in> set (ports_of m (p, ip)) \<longleftrightarrow> (p, sock_addr_new ip port) \<in> fst ` set m"
  by (force simp: ports_of_def sock_addr_new_def)

section \<open>The suggestions in the client\<close>

text \<open>What the scan has received of one protocol.\<close>

definition protocol_number :: "protocol \<Rightarrow> u8" where
  "protocol_number p = (case p of ProtoTcp \<Rightarrow> PROTO_TCP | ProtoUdp \<Rightarrow> PROTO_UDP)"

definition flow_seen :: "u64 \<Rightarrow> instant \<Rightarrow> scan_turn list \<Rightarrow> protocol \<Rightarrow> sock_addr \<Rightarrow> bool" where
  "flow_seen duration start turns proto a \<longleftrightarrow>
     (\<exists>x \<in> set (takeWhile (scan_goes_on duration start) turns). tu_recv x = Some (protocol_number proto, a))"

lemma fnscan_done:
  assumes "fnscan_main tasklist process duration udp_only opened start turns = ScanDone tables ss"
  obtains m where "suggest_rules m = Ok ss"
    and "\<And>p a. a \<in> {a. flow_seen duration start turns p a} \<longleftrightarrow> (protocol_number p, a) \<in> fst ` set m"
proof -
  let ?m = "sn_endpoints (fold scan_one (takeWhile (scan_goes_on duration start) turns) (scan_init start))"
  have "suggest_rules ?m = Ok ss"
    using assms by (auto simp: fnscan_main_def flow_scan_eq Let_def split: if_splits rs.splits bool.splits option.splits)
  moreover have "hm_get ?m k = None \<longleftrightarrow> times_received k (takeWhile (scan_goes_on duration start) turns) = 0" for k
    by (simp add: scan_counts scan_init_def)
  then have "k \<in> fst ` set ?m \<longleftrightarrow> (\<exists>x \<in> set (takeWhile (scan_goes_on duration start) turns). tu_recv x = Some k)" for k
    using map_of_eq_None_iff [of ?m k] by (auto simp: times_received_def filter_empty_conv)
  ultimately show ?thesis using that by (simp add: flow_seen_def)
qed

definition suggestion_rule :: "suggestion \<Rightarrow> protocol \<Rightarrow> redirect_rule" where
  "suggestion_rule s p =
     \<lparr>rr_protocol = p, rr_dst_ip = sg_dest_ip s, rr_dst_port_lo = sg_lo s, rr_dst_port_hi = sg_hi s,
      rr_redirect_to_ip = sa_ip (sg_listen s), rr_redirect_to_port = sa_port (sg_listen s)\<rparr>"

lemma ex_protocol: "(\<exists>p. Q p) \<longleftrightarrow> Q ProtoTcp \<or> Q ProtoUdp"
  by (metis protocol.exhaust)

lemma capture_suggested:
  "set (capture_rules (map (suggested_rule bridge pubkey token) ss)) =
     {suggestion_rule s p | s p. s \<in> set ss \<and> sg_protocol s = proto_name (protocol_number p)}"
proof (induction ss)
  case (Cons s ss)
  have pr: "sg_protocol s = proto_name (protocol_number p) \<longleftrightarrow> sg_protocol s = (case p of ProtoTcp \<Rightarrow> ''tcp'' | ProtoUdp \<Rightarrow> ''udp'')" for p
    by (cases p) (simp_all add: proto_name_def protocol_number_def PROTO_TCP_def PROTO_UDP_def)
  have "set (capture_rules [suggested_rule bridge pubkey token s])
      = {suggestion_rule s p | p. sg_protocol s = proto_name (protocol_number p)}"
    unfolding pr
    by (auto simp: suggested_rule_def suggestion_rule_def unwrap_or_def Let_def ex_protocol)
  moreover have "set (capture_rules (map (suggested_rule bridge pubkey token) (s # ss)))
      = set (capture_rules [suggested_rule bridge pubkey token s])
        \<union> set (capture_rules (map (suggested_rule bridge pubkey token) ss))"
    by (simp add: Let_def split: option.split)
  ultimately show ?case using Cons.IH by auto
qed simp

lemma fixed_resolve_common_target:
  assumes "\<And>r. r \<in> set rules \<Longrightarrow> sock_addr_new (rr_redirect_to_ip r) (rr_redirect_to_port r) = tgt"
  shows "fixed_resolve rules dst p = (if \<exists>r \<in> set rules. rule_matches dst p r then RewriteTo tgt else Passthrough)"
  using assms by (induction rules) (auto simp: rule_matches_def)

definition suggested_listen :: sock_addr where
  "suggested_listen = sock_addr_new localhost 9700"

text \<open>What a suggestion says, in terms of what was received.\<close>

lemma suggestion_seen:
  assumes "suggest_rules m = Ok ss" and "\<And>p a. flow_seen duration start turns p a \<longleftrightarrow> (protocol_number p, a) \<in> fst ` set m"
  shows "(\<exists>s \<in> set ss. sg_protocol s = proto_name (protocol_number p) \<and> sg_dest_ip s = ip \<and> sg_lo s \<le> port \<and> port \<le> sg_hi s)
    \<longleftrightarrow> (\<exists>lo hi. flow_seen duration start turns p (sock_addr_new ip lo) \<and> flow_seen duration start turns p (sock_addr_new ip hi)
          \<and> lo \<le> port \<and> port \<le> hi)" (is "?L \<longleftrightarrow> ?R")
proof -
  let ?ports = "set (ports_of m (protocol_number p, ip))"
  have seen: "flow_seen duration start turns p (sock_addr_new ip q) \<longleftrightarrow> q \<in> ?ports" for q
    using assms(2) by (simp add: ports_of_iff)
  have ss: "set ss = {suggestion_of k (ports_of m k) | k. ports_of m k \<noteq> []}"
    using suggest_rules_Ok [of m] assms(1) by auto
  have name: "proto_name q = proto_name (protocol_number p) \<longleftrightarrow> q = protocol_number p" for q
    by (cases p) (auto simp: proto_name_def protocol_number_def PROTO_TCP_def PROTO_UDP_def)
  have "?L \<longleftrightarrow> ?ports \<noteq> {} \<and> Min ?ports \<le> port \<and> port \<le> Max ?ports"
  proof
    assume "?ports \<noteq> {} \<and> Min ?ports \<le> port \<and> port \<le> Max ?ports"
    then show ?L
      unfolding ss
      by (intro bexI [of _ "suggestion_of (protocol_number p, ip) (ports_of m (protocol_number p, ip))"])
        (auto simp: suggestion_of_def)
  qed (auto simp: ss suggestion_of_def name)
  also have "\<dots> \<longleftrightarrow> (\<exists>lo \<in> ?ports. \<exists>hi \<in> ?ports. lo \<le> port \<and> port \<le> hi)"
    using Min_in [of ?ports] Max_in [of ?ports] by (auto intro: order_trans [OF Min_le] order_trans [OF _ Max_ge])
  finally show ?thesis unfolding seen by blast
qed

section \<open>Properties\<close>

text \<open>The suggestions do what the scan is for.  Once its placeholders are filled in, the printed
  configuration makes the client's capture redirect a packet exactly when a flow of its protocol to its
  address was received with a port no larger and one with a port no smaller; so every flow received is
  redirected, to the one listening address all suggestions have.\<close>

theorem suggested_rules_capture:
  assumes "fnscan_main tasklist process duration udp_only opened start turns = ScanDone tables ss"
  shows "fixed_resolve (capture_rules (map (suggested_rule bridge pubkey token) ss)) dst proto =
    (if \<exists>lo hi. flow_seen duration start turns proto (sock_addr_new (sa_ip dst) lo)
          \<and> flow_seen duration start turns proto (sock_addr_new (sa_ip dst) hi) \<and> lo \<le> sa_port dst \<and> sa_port dst \<le> hi
     then RewriteTo suggested_listen else Passthrough)"
proof -
  let ?rules = "capture_rules (map (suggested_rule bridge pubkey token) ss)"
  obtain m where m: "suggest_rules m = Ok ss"
    and seen: "\<And>p a. flow_seen duration start turns p a \<longleftrightarrow> (protocol_number p, a) \<in> fst ` set m"
    using fnscan_done [OF assms] by (metis mem_Collect_eq)
  have "sg_listen s = suggested_listen" if "s \<in> set ss" for s
    using that suggest_rules_Ok [of m] m by (auto simp: suggestion_of_def suggested_listen_def)
  then have tgt: "sock_addr_new (rr_redirect_to_ip r) (rr_redirect_to_port r) = suggested_listen" if "r \<in> set ?rules" for r
    using that by (auto simp: capture_suggested suggestion_rule_def sock_addr_new_def)
  have "(\<exists>r \<in> set ?rules. rule_matches dst proto r) \<longleftrightarrow> (\<exists>s \<in> set ss. sg_protocol s = proto_name (protocol_number proto)
      \<and> sg_dest_ip s = sa_ip dst \<and> sg_lo s \<le> sa_port dst \<and> sa_port dst \<le> sg_hi s)"
    unfolding capture_suggested by (force simp: rule_matches_def suggestion_rule_def)
  then show ?thesis
    using fixed_resolve_common_target [of ?rules suggested_listen dst proto, OF tgt] suggestion_seen [OF m seen, of proto "sa_ip dst" "sa_port dst"]
    by simp
qed

text \<open>But only one port of an address gets through.  If flows to two ports of an address were received,
  packets to the larger are redirected as well, to the listener of a rule whose tunnel, like that of every
  rule suggested for the address and protocol, connects to another port than the packets had.\<close>

theorem suggested_rule_misroutes:
  fixes bridge :: sock_addr and pubkey token :: string
  assumes "fnscan_main tasklist process duration udp_only opened start turns = ScanDone tables ss"
    and "flow_seen duration start turns proto (sock_addr_new ip p)" and "flow_seen duration start turns proto (sock_addr_new ip q)"
    and "p < q"
  defines "rules \<equiv> map (suggested_rule bridge pubkey token) ss"
  shows "fixed_resolve (capture_rules rules) (sock_addr_new ip q) proto = RewriteTo suggested_listen
    \<and> (\<forall>r \<in> set rules. ru_dest_ip r = ip \<and> ru_protocol r = proto_name (protocol_number proto) \<longrightarrow>
         ru_listen r = suggested_listen \<and> cr_dest_port (rule_connect r transport) \<noteq> q)"
proof -
  obtain m where m: "suggest_rules m = Ok ss"
    and seen: "\<And>p a. flow_seen duration start turns p a \<longleftrightarrow> (protocol_number p, a) \<in> fst ` set m"
    using fnscan_done [OF assms(1)] by (metis mem_Collect_eq)
  have ss: "set ss = {suggestion_of k (ports_of m k) | k. ports_of m k \<noteq> []}"
    using suggest_rules_Ok [of m] m by auto
  have p: "p \<in> set (ports_of m (protocol_number proto, ip))"
    using assms(2) seen by (simp add: ports_of_iff)
  have name: "proto_name k = proto_name (protocol_number proto) \<Longrightarrow> k = protocol_number proto" for k
    by (cases proto) (auto simp: proto_name_def protocol_number_def PROTO_TCP_def PROTO_UDP_def split: if_splits)
  have "ru_listen r = suggested_listen \<and> cr_dest_port (rule_connect r transport) \<noteq> q"
    if r: "r \<in> set rules" "ru_dest_ip r = ip" "ru_protocol r = proto_name (protocol_number proto)" for r
  proof -
    obtain k where k: "r = suggested_rule bridge pubkey token (suggestion_of k (ports_of m k))"
      using r(1) ss by (auto simp: rules_def)
    have "fst k = protocol_number proto" "snd k = ip"
      using r(2,3) name by (auto simp: k suggested_rule_def suggestion_of_def)
    then have "k = (protocol_number proto, ip)" by (cases k) simp
    then have "Min (set (ports_of m k)) \<le> p"
      using p by simp
    then show ?thesis
      using assms(4) by (auto simp: k suggested_rule_def suggestion_of_def rule_connect_def suggested_listen_def)
  qed
  moreover have "fixed_resolve (capture_rules rules) (sock_addr_new ip q) proto = RewriteTo suggested_listen"
    unfolding rules_def suggested_rules_capture [OF assms(1)]
    using assms(2-4) by (auto simp: sock_addr_new_def intro!: exI [of _ p] exI [of _ q])
  ultimately show ?thesis by blast
qed

text \<open>A scan that receives flows to two UDP ports of one address.\<close>

definition sample_tasklist :: string where
  "sample_tasklist = [quote] @ ''Game.exe'' @ [quote, CHR '','', quote] @ ''42'' @ [quote, CHR 0x0D, CHR 0x0A]"

definition sample_turn :: "bool \<Rightarrow> int \<Rightarrow> u16 \<Rightarrow> scan_turn" where
  "sample_turn running t port =
     \<lparr>tu_running = running, tu_now = t, tu_recv = Some (17, sock_addr_new (V4 0x01020304) port),
      tu_check = t, tu_printed = t\<rparr>"

definition sample_turns :: "scan_turn list" where
  "sample_turns = [sample_turn True 10 9000, sample_turn True 20 9010, sample_turn False 30 9020]"

definition sample_suggestions :: "suggestion list" where
  "sample_suggestions =
     [\<lparr>sg_listen = suggested_listen, sg_dest_ip = V4 0x01020304, sg_dest_port = 9000, sg_protocol = ''udp'',
       sg_lo = 9000, sg_hi = 9010\<rparr>]"

lemma sample_pids: "list_pids_for sample_tasklist ''game'' = [42]"
  by code_simp

lemma sample_scan: "\<exists>tables. fnscan_main (Some sample_tasklist) ''game'' 60 False (\<lambda>_. Ok ()) 0 sample_turns
    = ScanDone tables sample_suggestions"
proof -
  have on: "scan_goes_on 60 0 (sample_turn True 10 p)" "scan_goes_on 60 0 (sample_turn True 20 p)"
    "\<not> scan_goes_on 60 0 (sample_turn False 30 p)" for p
    by (simp_all add: scan_goes_on_def sample_turn_def secs_def elapsed_def)
  have one: "scan_one (sample_turn True t p) S
      = S\<lparr>sn_endpoints := count_flow (17, sock_addr_new (V4 0x01020304) p) (sn_endpoints S)\<rparr>"
    if "elapsed t (sn_last_print S) \<le> 5000000000" for t p S
    using that by (simp add: scan_one_def sample_turn_def secs_def)
  have "fst (flow_scan 60 0 sample_turns (scan_init 0)) = \<lparr>sn_endpoints =
      [((17, sock_addr_new (V4 0x01020304) 9000), 1), ((17, sock_addr_new (V4 0x01020304) 9010), 1)],
      sn_last_print = 0, sn_tables = []\<rparr>" and "snd (flow_scan 60 0 sample_turns (scan_init 0))"
    by (simp_all add: sample_turns_def on one scan_init_def elapsed_def count_flow_def unwrap_or_def sock_addr_new_def)
  then have "flow_scan 60 0 sample_turns (scan_init 0) = (\<lparr>sn_endpoints =
      [((17, sock_addr_new (V4 0x01020304) 9000), 1), ((17, sock_addr_new (V4 0x01020304) 9010), 1)],
      sn_last_print = 0, sn_tables = []\<rparr>, True)"
    by (simp add: prod_eq_iff)
  then show ?thesis
    by (simp add: fnscan_main_def sample_pids suggest_rules_def ports_by_ip_def push_port_def suggestion_for_def
        list_min_def list_max_def expect_def unwrap_or_def sock_addr_new_def sample_suggestions_def
        suggested_listen_def proto_name_def)
qed

lemma sample_seen: "flow_seen 60 0 sample_turns ProtoUdp (sock_addr_new (V4 0x01020304) p) \<longleftrightarrow> p = 9000 \<or> p = 9010"
  by (auto simp: flow_seen_def sample_turns_def scan_goes_on_def sample_turn_def elapsed_def secs_def protocol_number_def
      PROTO_UDP_def sock_addr_new_def)

theorem suggested_rules_capture_witness:
  "fixed_resolve (capture_rules (map (suggested_rule sample_client [] []) sample_suggestions))
     (sock_addr_new (V4 0x01020304) 9005) ProtoUdp = RewriteTo suggested_listen"
proof -
  obtain tables where d: "fnscan_main (Some sample_tasklist) ''game'' 60 False (\<lambda>_. Ok ()) 0 sample_turns
    = ScanDone tables sample_suggestions"
    using sample_scan by blast
  have "flow_seen 60 0 sample_turns ProtoUdp (sock_addr_new (V4 0x01020304) 9000)"
    "flow_seen 60 0 sample_turns ProtoUdp (sock_addr_new (V4 0x01020304) 9010)"
    "sa_ip (sock_addr_new (V4 0x01020304) 9005) = V4 0x01020304" "sa_port (sock_addr_new (V4 0x01020304) 9005) = 9005"
    by (simp_all add: sample_seen) (simp_all add: sock_addr_new_def)
  moreover have "(9000 :: u16) \<le> 9005" "(9005 :: u16) \<le> 9010" by simp_all
  ultimately show ?thesis
    unfolding suggested_rules_capture [OF d] by metis
qed

theorem suggested_rule_misroutes_witness:
  "fixed_resolve (capture_rules (map (suggested_rule sample_client [] []) sample_suggestions))
     (sock_addr_new (V4 0x01020304) 9010) ProtoUdp = RewriteTo suggested_listen
   \<and> (\<forall>r \<in> set (map (suggested_rule sample_client [] []) sample_suggestions).
        ru_dest_ip r = V4 0x01020304 \<and> ru_protocol r = proto_name (protocol_number ProtoUdp) \<longrightarrow>
        ru_listen r = suggested_listen \<and> cr_dest_port (rule_connect r Udp) \<noteq> 9010)"
proof -
  obtain tables where d: "fnscan_main (Some sample_tasklist) ''game'' 60 False (\<lambda>_. Ok ()) 0 sample_turns
    = ScanDone tables sample_suggestions"
    using sample_scan by blast
  show ?thesis
    using suggested_rule_misroutes [OF d, of ProtoUdp "V4 0x01020304" 9000 9010 sample_client "[]" "[]" Udp]
    by (simp add: sample_seen)
qed

end
