(* ===== verification/Spec2Isabelle.thy ===== *)
theory Spec2Isabelle
  imports
    Lp_Base Lp_Net Lp_F64 Lp_Crypto
    Lp_Wire Lp_Handshake Lp_License Lp_Fec
    Lp_Aws Lp_Aws_Data Lp_Router
    Lp_Capture Lp_Bridge Lp_Bridge_System Lp_Bridge_Refine
    Lp_Forwarder Lp_Tunnel Lp_Smart Lp_Network Lp_Backend
    Lp_Tui Lp_Startup Lp_Processes Lp_Platforms
    Lp_Text Lp_Sniff Lp_Fnscan Lp_Build
begin

text \<open>
  lowping: a relay that carries a game's TCP and UDP traffic through a nearby server.  This library
  models the program's Rust crates (under \<open>src/crates\<close>) and proves what makes them correct, and
  where they are not, what goes wrong.

  \<^bold>\<open>The program.\<close>  A client on the player's machine captures the game's packets with a kernel
  driver (\<open>gr-capture\<close>), decides per destination whether a bridge is faster than the direct way
  (\<open>gr-client/router.rs\<close>, with the region table of \<open>gr-common/aws_regions.rs\<close>), and carries the
  payloads in encrypted datagrams (\<open>gr-protocol\<close>, \<open>gr-client/forwarder.rs\<close>, \<open>gr-client/smart.rs\<close>)
  to a bridge (\<open>gr-bridge\<close>), which opens a socket to the destination and relays both ways.  A
  backend (\<open>gr-backend\<close>) signs the license tokens a bridge demands and the directory of bridges.

  \<^bold>\<open>Theories.\<close>
  \<^item> \<open>Lp_Base\<close>, \<open>Lp_Net\<close>, \<open>Lp_F64\<close>: the prelude.  Machine integers are words; a fallible function
    returns \<open>rs\<close>, with one constructor each for \<open>Ok\<close>, \<open>Err\<close> and \<open>Panic\<close>; slices, indexing and
    instant arithmetic panic where Rust's do; a \<open>HashMap\<close> is an association list with distinct
    keys.  The locales \<open>prefix_codec\<close>, \<open>exact_codec\<close> and \<open>idle_table\<close> are the contracts several
    components share.
  \<^item> \<open>Lp_Crypto\<close>: the third-party primitives as a record of functions, the documented laws used of
    them as predicates (\<open>aead_ok\<close>, \<open>dh_ok\<close> and so on), and an instance that meets all of them.
  \<^item> \<open>Lp_Wire\<close> (\<open>gr-protocol/lib.rs\<close>), \<open>Lp_Handshake\<close>, \<open>Lp_License\<close>, \<open>Lp_Fec\<close>: frames, session
    keys, tokens, erasure coding.  Their lemmas show round trips in both directions (what is encoded
    decodes, and nothing else does), sizes, and that no input makes a decoder panic.
  \<^item> \<open>Lp_Aws\<close>, \<open>Lp_Aws_Data\<close>, \<open>Lp_Router\<close>: CIDR parsing and the sorted prefix table, the lookup and
    its 32-entry search window (with the bundled snapshot around one address as data), and the route
    picker with its cache and its log.
  \<^item> \<open>Lp_Capture\<close>: filter text, start and stop, one turn of the capture loop, address rewriting and
    the flow table.  The resolver is an interface, the locale \<open>route_resolver\<close>, provided by the
    fixed rules here and by the router in \<open>Lp_Smart\<close>.
  \<^item> \<open>Lp_Bridge\<close> (\<open>gr-bridge\<close>): the relay's handlers, each run from start to end.  \<open>Lp_Bridge_System\<close>: the
    same handlers cut at every \<open>await\<close> and interleaved, as a step relation with its reachable states:
    who may cause a write, how frames are numbered, what stays well-formed, and two races.
    \<open>Lp_Bridge_Refine\<close>: the relay's contract as an abstract machine, and two instances of one
    refinement locale: the tasks implement the contract, and the handlers are schedules of the tasks.
  \<^item> \<open>Lp_Forwarder\<close> (\<open>forwarder.rs\<close>), \<open>Lp_Smart\<close> (\<open>smart.rs\<close>): the client's rules, tunnels, TCP
    connections, UDP responders and listeners, and smart mode with and without the dashboard.
    \<open>Lp_Tunnel\<close>: client and bridge composed, what arrives end to end, and what sharing one key
    between both directions gives away.  \<open>Lp_Network\<close>: a listener of either kind (the locale \<open>listener\<close>)
    and the interleaved relay joined by a network that does anything but forge, as a step relation over
    both states; its invariant traces every byte that comes out at either end to one that went in.
  \<^item> \<open>Lp_Backend\<close> (\<open>gr-backend\<close>): directory signing and verification, the HTTP handlers, and a
    backend's tokens against a bridge's check.
  \<^item> \<open>Lp_Tui\<close> (\<open>tui.rs\<close>): what the dashboard's panels show, its loop, and the terminal calls around it.
    \<open>Lp_Startup\<close> (\<open>gr-common/lib.rs\<close> and the binaries' \<open>main.rs\<close>): configuration files, key
    generation, and how the programs start; a deployment put together from their output works.
    \<open>Lp_Processes\<close>: how they run on: the bridge's receive loop, which no input stops, its reaper, which
    drops an idle session in time, the client's rule tasks and what becomes of their errors, logging and
    defaults.  \<open>Lp_Platforms\<close>: what the client and the build script are where they are not built for
    Windows, against the Windows build.
  \<^item> \<open>Lp_Text\<close>, \<open>Lp_Sniff\<close>, \<open>Lp_Fnscan\<close>, \<open>Lp_Build\<close>: the capture crate's two examples and its build
    script.  \<open>Lp_Text\<close> has the standard library's syntax of integers, addresses and lines, with the round
    trips of what is printed; \<open>Lp_Sniff\<close> the grammar of a rule on the command line and the timed run;
    \<open>Lp_Fnscan\<close> the counting of flows and what the suggested rules do in the client.

  \<^bold>\<open>Conventions.\<close>  A function that touches shared state takes the state and returns it updated.  The
  outcome of a system call (bytes read, whether a send or a connect worked, random bytes, the clock)
  is an argument of the step that makes it; sockets are numbers.  A clock reading that the code takes
  several times in one step is one argument of that step where the difference is not observable.
  \<open>Instant\<close> values are integers with a least one, since subtracting past it panics.  Logging has no
  counterpart.  Release builds abort the process on a panic (\<open>panic = "abort"\<close> in \<open>Cargo.toml\<close>), so a
  \<open>Panic\<close> of one task ends the program; a development build ends the task only.  Arithmetic whose
  overflow behaviour depends on the build takes the build as an argument.

  \<^bold>\<open>Bounds.\<close>  No definition uses fuel.  Almost every loop of the code runs over data it has received, so
  it is structural recursion over the list of what the outside world delivers; the loops that never end
  are given as one turn and as a run over any finite list of events.  The one loop that counts, the
  smoke test's, is a \<open>partial_function\<close> that is shown to end and never to wrap around.

  \<^bold>\<open>Not modelled.\<close>  How the argument parser splits a command line, and what the log library writes; the
  terminal library's layout and rendering, and the column widths of the scanner's table.
  The TOML library and the file system's contents are parameters.
  Lower-casing is that of ASCII, which differs from the code's only in the text of an error message and
  for process names with letters outside ASCII.  Cryptographic strength is not a subject: the laws
  assumed of the primitives are functional, and that a network without the key cannot forge a frame is a
  guard on what \<open>Lp_Network\<close> lets it deliver.  An \<open>f64\<close> is a rational, an infinity or NaN, and sums are
  rounded to nearest, ties to even; the two zeros are one value.
\<close>

end
